(* ===== verification/Go_Prelude.thy ===== *)
theory Go_Prelude
  imports Main "HOL-Library.Sublist" "HOL-Library.Signed_Division"
begin

text \<open>
  The Go values and conventions every component shares: the 64-bit \<open>int\<close> of the target
  platform with its wrap-around, results that may be a run-time panic, and the generic list
  facts the component proofs use.

  A Go \<open>int\<close>, \<open>int64\<close> or \<open>time.Duration\<close> is an HOL \<open>int\<close> in the signed 64-bit range;
  every operation of the source that can leave the range is written with \<open>wrap64\<close> around
  it. A Go string is a list of bytes (\<open>string\<close>, one \<open>char\<close> per byte), as it is in Go.
\<close>

named_theorems go_defs "definitions unfolded when a closed term is evaluated"

section \<open>Signed 64-bit integers\<close>

definition wrap64 :: "int \<Rightarrow> int" where
  "wrap64 x = (x + 2 ^ 63) mod 2 ^ 64 - 2 ^ 63"

definition i64 :: "int \<Rightarrow> bool" where
  "i64 x \<longleftrightarrow> - (2 ^ 63) \<le> x \<and> x < 2 ^ 63"

lemma wrap64_id [simp]: "i64 x \<Longrightarrow> wrap64 x = x"
  by (simp add: wrap64_def i64_def)

lemma i64_wrap64 [simp, intro]: "i64 (wrap64 x)"
proof -
  have "0 \<le> (x + 2 ^ 63) mod (2 ^ 64)" "(x + 2 ^ 63) mod (2 ^ 64) < (2 ^ 64 :: int)"
    by simp_all
  then show ?thesis by (simp add: wrap64_def i64_def)
qed

lemma wrap64_small:
  "- 9223372036854775808 \<le> x \<Longrightarrow> x \<le> 9223372036854775807 \<Longrightarrow> wrap64 x = x"
  by (rule wrap64_id) (simp add: i64_def)

lemma wrap64_wrap64 [simp]: "wrap64 (wrap64 x) = wrap64 x"
  by simp

lemma wrap64_inc_dec: "i64 x \<Longrightarrow> wrap64 (wrap64 (x + 1) - 1) = x"
  by (auto simp: wrap64_def i64_def mod_simps)

text \<open>Durations are nanoseconds in an \<open>int64\<close>; these are the \<open>time\<close> package's units.\<close>

abbreviation (input) Millisecond :: int where "Millisecond \<equiv> 1000000"
abbreviation (input) Second :: int where "Second \<equiv> 1000000000"
abbreviation (input) Hour :: int where "Hour \<equiv> 3600000000000"

text \<open>\<open>Duration.Milliseconds\<close>: Go's \<open>/\<close> truncates towards zero.\<close>

definition Milliseconds :: "int \<Rightarrow> int" where
  "Milliseconds d = d sdiv 1000000"

lemma sdiv_mono: "a \<le> b \<Longrightarrow> 0 < c \<Longrightarrow> a sdiv c \<le> b sdiv (c :: int)"
  unfolding signed_divide_int_def
  by (cases "a < 0"; cases "b < 0"; cases "a = 0"; cases "b = 0")
     (auto simp: zdiv_mono1 div_int_pos_iff pos_imp_zdiv_nonneg_iff
       intro: order_trans [of _ 0])

lemma Milliseconds_mono: "a \<le> b \<Longrightarrow> Milliseconds a \<le> Milliseconds b"
  by (simp add: Milliseconds_def sdiv_mono)

section \<open>Run-time panics\<close>

text \<open>
  The panics the modelled code can raise: a nil pointer dereference, a slice index out of
  range, and \<open>make(chan T, n)\<close> with a negative \<open>n\<close>. A function that may panic returns a
  \<open>go\<close> value.
\<close>

datatype panic = NilDereference | IndexOutOfRange | MakeChanSize

datatype 'a go = Ret 'a | Panic panic

fun go_bind :: "'a go \<Rightarrow> ('a \<Rightarrow> 'b go) \<Rightarrow> 'b go" where
  "go_bind (Ret x) f = f x"
| "go_bind (Panic p) f = Panic p"

lemma go_bind_Ret_iff [simp]: "go_bind m f = Ret y \<longleftrightarrow> (\<exists>x. m = Ret x \<and> f x = Ret y)"
  by (cases m) auto

text \<open>Indexing a slice: out of range is a panic, never an arbitrary value.\<close>

definition slice_get :: "'a list \<Rightarrow> nat \<Rightarrow> 'a go" where
  "slice_get xs i = (if i < length xs then Ret (xs ! i) else Panic IndexOutOfRange)"

lemma slice_get_Ret [simp]: "i < length xs \<Longrightarrow> slice_get xs i = Ret (xs ! i)"
  by (simp add: slice_get_def)

lemma slice_get_Panic [simp]: "length xs \<le> i \<Longrightarrow> slice_get xs i = Panic IndexOutOfRange"
  by (simp add: slice_get_def)

text \<open>A loop whose body may panic.\<close>

fun go_fold :: "('d \<Rightarrow> 's \<Rightarrow> 's go) \<Rightarrow> 'd list \<Rightarrow> 's \<Rightarrow> 's go" where
  "go_fold f [] s = Ret s"
| "go_fold f (d # ds) s = go_bind (f d s) (go_fold f ds)"

section \<open>Lists\<close>

definition last_n :: "nat \<Rightarrow> 'a list \<Rightarrow> 'a list" where
  "last_n k xs = drop (length xs - k) xs"

lemma length_last_n [simp]: "length (last_n k xs) = min (length xs) k"
  by (simp add: last_n_def)

lemma last_n_short [simp]: "length xs \<le> k \<Longrightarrow> last_n k xs = xs"
  by (simp add: last_n_def)

lemma last_n_Nil [simp]: "last_n k [] = []"
  by (simp add: last_n_def)

lemma last_n_append_last_n: "last_n k (last_n k xs @ ys) = last_n k (xs @ ys)"
proof (cases "length xs \<le> k")
  case True
  then show ?thesis by simp
next
  case False
  have "drop (length xs + length ys - k) xs =
      drop (k + length ys - k) (drop (length xs - k) xs)"
    using False by (simp add: add.commute)
  with False show ?thesis by (simp add: last_n_def)
qed

lemma take_append_take: "take k (take k xs @ ys) = take k (xs @ ys)"
  by (cases "length xs \<le> k") auto

lemma find_None_iff_ball: "List.find P xs = None \<longleftrightarrow> (\<forall>x \<in> set xs. \<not> P x)"
  by (auto simp: find_None_iff)

lemma find_SomeD:
  "List.find P xs = Some x \<Longrightarrow> \<exists>us vs. xs = us @ x # vs \<and> P x \<and> (\<forall>u \<in> set us. \<not> P u)"
proof (induction xs)
  case (Cons y xs)
  show ?case
  proof (cases "P y")
    case True
    with Cons.prems show ?thesis by (intro exI [of _ "[]"] exI [of _ xs]) simp
  next
    case False
    with Cons obtain us vs where "xs = us @ x # vs" "P x" "\<forall>u \<in> set us. \<not> P u" by auto
    with False show ?thesis by (intro exI [of _ "y # us"] exI [of _ vs]) simp
  qed
qed simp

end
