(* ===== verification/Go_Strings.thy ===== *)
theory Go_Strings
  imports Go_Prelude
begin

text \<open>
  The functions of Go's \<open>strings\<close>, \<open>strconv\<close> and \<open>unicode\<close> packages the source calls,
  on byte strings: \<open>ReplaceAll\<close>, \<open>TrimRight\<close>, \<open>Fields\<close> (with its UTF-8 decoding),
  \<open>Join\<close>, \<open>HasPrefix\<close>, \<open>HasSuffix\<close>, \<open>Itoa\<close> and \<open>Atoi\<close>. The laws proved here are
  the ones the comparison of outputs, the argument templates and the environment settings
  rest on.
\<close>

abbreviation byte :: "char \<Rightarrow> nat" where "byte c \<equiv> of_char c"

abbreviation LF :: char where "LF \<equiv> CHR 0x0A"
abbreviation CR :: char where "CR \<equiv> CHR 0x0D"
abbreviation TAB :: char where "TAB \<equiv> CHR 0x09"
abbreviation SPC :: char where "SPC \<equiv> CHR 0x20"

section \<open>Prefixes, suffixes, joining\<close>

definition HasPrefix :: "string \<Rightarrow> string \<Rightarrow> bool" where
  "HasPrefix s p \<longleftrightarrow> prefix p s"

definition HasSuffix :: "string \<Rightarrow> string \<Rightarrow> bool" where
  "HasSuffix s p \<longleftrightarrow> suffix p s"

fun Join :: "string list \<Rightarrow> string \<Rightarrow> string" where
  "Join [] sep = []"
| "Join [x] sep = x"
| "Join (x # y # xs) sep = x @ sep @ Join (y # xs) sep"

lemma Join_snoc: "xs \<noteq> [] \<Longrightarrow> Join (xs @ [x]) sep = Join xs sep @ sep @ x"
  by (induction xs sep rule: Join.induct) auto

section \<open>ReplaceAll\<close>

text \<open>
  \<open>strings.ReplaceAll\<close> for a non-empty \<open>old\<close>, left to right and without overlaps (the
  source never passes an empty one).
\<close>

function ReplaceAll :: "string \<Rightarrow> string \<Rightarrow> string \<Rightarrow> string" where
  "ReplaceAll [] old new = []"
| "ReplaceAll (c # s) old new =
     (if old \<noteq> [] \<and> prefix old (c # s)
      then new @ ReplaceAll (drop (length old - 1) s) old new
      else c # ReplaceAll s old new)"
  by pat_completeness auto
termination
  by (relation "measure (\<lambda>(s, old, new). length s)") auto

lemma prefix_ConsD: "prefix (x # xs) (c # s) \<Longrightarrow> x = c"
  by simp

lemma ReplaceAll_absent: "c \<notin> set s \<Longrightarrow> ReplaceAll s (c # old) new = s"
  by (induction s) auto

lemma ReplaceAll_exact: "old \<noteq> [] \<Longrightarrow> ReplaceAll old old new = new"
  by (cases old) auto

text \<open>An occurrence that ends before a trailing byte foreign to the pattern stays as it is.\<close>

lemma prefix_snoc_foreign: "c \<notin> set old \<Longrightarrow> prefix old (s @ [c]) \<longleftrightarrow> prefix old s"
  by (auto simp: prefix_snoc)

lemma ReplaceAll_snoc:
  "c \<notin> set old \<Longrightarrow> ReplaceAll (s @ [c]) old new = ReplaceAll s old new @ [c]"
proof (induction s old new rule: ReplaceAll.induct)
  case (1 old new)
  then show ?case by (cases old) auto
next
  case (2 d s old new)
  have pre: "prefix old (d # s @ [c]) \<longleftrightarrow> prefix old (d # s)"
    using prefix_snoc_foreign [of c old "d # s"] "2.prems" by simp
  show ?case
  proof (cases "old \<noteq> [] \<and> prefix old (d # s)")
    case True
    then have "length old \<le> Suc (length s)"
      using prefix_length_le [of old "d # s"] by simp
    then have "drop (length old - 1) (s @ [c]) = drop (length old - 1) s @ [c]"
      by simp
    with True "2.IH"(1) "2.prems" pre show ?thesis by simp
  next
    case False
    with "2.IH"(2) "2.prems" pre show ?thesis by (cases "old = []") simp_all
  qed
qed

section \<open>TrimRight\<close>

definition TrimRight :: "string \<Rightarrow> string \<Rightarrow> string" where
  "TrimRight s cutset = rev (dropWhile (\<lambda>c. c \<in> set cutset) (rev s))"

lemma TrimRight_Nil [simp]: "TrimRight [] cs = []"
  by (simp add: TrimRight_def)

lemma TrimRight_snoc [simp]:
  "TrimRight (s @ [c]) cs = (if c \<in> set cs then TrimRight s cs else s @ [c])"
  by (simp add: TrimRight_def)

lemma TrimRight_append_cut: "set t \<subseteq> set cs \<Longrightarrow> TrimRight (s @ t) cs = TrimRight s cs"
proof (induction t rule: rev_induct)
  case (snoc c t)
  then show ?case using TrimRight_snoc [of "s @ t" c cs] by simp
qed simp

lemma TrimRight_split: "\<exists>t. s = TrimRight s cs @ t \<and> set t \<subseteq> set cs"
proof (induction s rule: rev_induct)
  case (snoc c s)
  then obtain t where t: "s = TrimRight s cs @ t" "set t \<subseteq> set cs" by blast
  show ?case
  proof (cases "c \<in> set cs")
    case True
    with t have "s @ [c] = TrimRight s cs @ (t @ [c])" "set (t @ [c]) \<subseteq> set cs" by simp_all
    with True show ?thesis by (metis TrimRight_snoc)
  qed simp
qed simp

lemma TrimRight_idem [simp]: "TrimRight (TrimRight s cs) cs = TrimRight s cs"
  by (metis TrimRight_split TrimRight_append_cut)

lemma TrimRight_last: "TrimRight s cs \<noteq> [] \<Longrightarrow> last (TrimRight s cs) \<notin> set cs"
  by (induction s rule: rev_induct) auto

section \<open>UTF-8 runes\<close>

text \<open>
  \<open>utf8.DecodeRuneInString\<close>: the accepted ranges of the second byte depend on the first;
  an ill-formed sequence is the error rune U+FFFD of width 1.
\<close>

definition nth_in :: "nat \<Rightarrow> nat \<Rightarrow> nat \<Rightarrow> string \<Rightarrow> bool" where
  "nth_in i lo hi s \<longleftrightarrow> i < length s \<and> lo \<le> byte (s ! i) \<and> byte (s ! i) \<le> hi"

definition seq2 :: "char \<Rightarrow> string \<Rightarrow> bool" where
  "seq2 c s \<longleftrightarrow> 0xC2 \<le> byte c \<and> byte c \<le> 0xDF \<and> nth_in 0 0x80 0xBF s"

definition seq3 :: "char \<Rightarrow> string \<Rightarrow> bool" where
  "seq3 c s \<longleftrightarrow> nth_in 1 0x80 0xBF s \<and>
     (byte c = 0xE0 \<and> nth_in 0 0xA0 0xBF s \<or>
      byte c = 0xED \<and> nth_in 0 0x80 0x9F s \<or>
      0xE1 \<le> byte c \<and> byte c \<le> 0xEF \<and> byte c \<noteq> 0xED \<and> nth_in 0 0x80 0xBF s)"

definition seq4 :: "char \<Rightarrow> string \<Rightarrow> bool" where
  "seq4 c s \<longleftrightarrow> nth_in 1 0x80 0xBF s \<and> nth_in 2 0x80 0xBF s \<and>
     (byte c = 0xF0 \<and> nth_in 0 0x90 0xBF s \<or>
      byte c = 0xF4 \<and> nth_in 0 0x80 0x8F s \<or>
      0xF1 \<le> byte c \<and> byte c \<le> 0xF3 \<and> nth_in 0 0x80 0xBF s)"

fun rune_width :: "string \<Rightarrow> nat" where
  "rune_width [] = 0"
| "rune_width (c # s) =
     (if seq2 c s then 2 else if seq3 c s then 3 else if seq4 c s then 4 else 1)"

definition rune_value :: "string \<Rightarrow> nat" where
  "rune_value s = (let low = (\<lambda>i. byte (s ! i) mod 64) in
     case rune_width s of
       0 \<Rightarrow> 0xFFFD
     | Suc 0 \<Rightarrow> (if byte (s ! 0) < 0x80 then byte (s ! 0) else 0xFFFD)
     | Suc (Suc 0) \<Rightarrow> (byte (s ! 0) mod 32) * 64 + low 1
     | Suc (Suc (Suc 0)) \<Rightarrow> (byte (s ! 0) mod 16) * 4096 + low 1 * 64 + low 2
     | _ \<Rightarrow> (byte (s ! 0) mod 8) * 262144 + low 1 * 4096 + low 2 * 64 + low 3)"

lemma rune_width_pos: "0 < rune_width (c # s)"
  by simp

lemma rune_width_ascii: "byte c < 0x80 \<Longrightarrow> rune_width (c # s) = 1"
  by (simp add: seq2_def seq3_def seq4_def)

lemma nth_in_snoc:
  "byte c < 0x80 \<Longrightarrow> 0x80 \<le> lo \<Longrightarrow> nth_in i lo hi (s @ [c]) \<longleftrightarrow> nth_in i lo hi s"
  by (auto simp: nth_in_def nth_append less_Suc_eq)

lemma nth_inD: "nth_in i lo hi s \<Longrightarrow> i < length s"
  by (simp add: nth_in_def)

lemma seq_snoc:
  assumes "byte c < 0x80"
  shows "seq2 d (s @ [c]) = seq2 d s" "seq3 d (s @ [c]) = seq3 d s" "seq4 d (s @ [c]) = seq4 d s"
  by (simp_all only: seq2_def seq3_def seq4_def)
     (simp_all add: nth_in_snoc [OF assms])

lemma rune_width_snoc:
  "byte c < 0x80 \<Longrightarrow> s \<noteq> [] \<Longrightarrow> rune_width (s @ [c]) = rune_width s"
  by (cases s) (simp_all add: seq_snoc)

lemma seq_length:
  "seq2 c s \<Longrightarrow> 1 \<le> length s" "seq3 c s \<Longrightarrow> 2 \<le> length s" "seq4 c s \<Longrightarrow> 3 \<le> length s"
  unfolding seq2_def seq3_def seq4_def nth_in_def by linarith+

lemma rune_width_le: "rune_width s \<le> length s"
  using seq_length [of "hd s" "tl s"] by (cases s) simp_all

text \<open>The runes of a string, each as its bytes.\<close>

function split_runes :: "string \<Rightarrow> string list" where
  "split_runes [] = []"
| "split_runes (c # s) = (let w = rune_width (c # s) in
     take w (c # s) # split_runes (drop (w - 1) s))"
  by pat_completeness auto
termination
  by (relation "measure length") (auto simp: Let_def)

declare split_runes.simps(2) [simp del] rune_width.simps(2) [simp del]

lemma split_runes_ascii:
  "byte c < 0x80 \<Longrightarrow> split_runes (c # s) = [c] # split_runes s"
  by (simp add: split_runes.simps(2) rune_width_ascii Let_def)

lemma concat_split_runes [simp]: "concat (split_runes s) = s"
proof (induction s rule: split_runes.induct)
  case (2 c s)
  then show ?case using rune_width_pos [of c s]
    by (cases "rune_width (c # s)") (simp_all add: split_runes.simps(2) Let_def)
qed simp

lemma split_runes_snoc:
  "byte c < 0x80 \<Longrightarrow> split_runes (s @ [c]) = split_runes s @ [[c]]"
proof (induction s rule: split_runes.induct)
  case 1
  then show ?case by (simp add: split_runes_ascii)
next
  case (2 d s)
  let ?w = "rune_width (d # s)"
  have w: "rune_width (d # s @ [c]) = ?w"
    using rune_width_snoc [OF "2.prems", of "d # s"] by simp
  have le: "?w \<le> Suc (length s)" "0 < ?w"
    using rune_width_le [of "d # s"] rune_width_pos [of d s] by simp_all
  then have "drop (?w - 1) (s @ [c]) = drop (?w - 1) s @ [c]"
    "take ?w (d # s @ [c]) = take ?w (d # s)"
    by (simp_all add: take_Cons')
  with "2.IH" [OF refl "2.prems"] w show ?case
    by (simp add: split_runes.simps(2) Let_def)
qed

section \<open>Fields\<close>

text \<open>\<open>unicode.IsSpace\<close>: the code points with the White_Space property.\<close>

definition IsSpace :: "nat \<Rightarrow> bool" where
  "IsSpace r \<longleftrightarrow> r \<in> {0x09, 0x0A, 0x0B, 0x0C, 0x0D, 0x20, 0x85, 0xA0, 0x1680,
      0x2028, 0x2029, 0x202F, 0x205F, 0x3000} \<or> 0x2000 \<le> r \<and> r \<le> 0x200A"

definition space_rune :: "string \<Rightarrow> bool" where
  "space_rune u \<longleftrightarrow> IsSpace (rune_value u)"

text \<open>\<open>words acc us\<close>: the fields of the runes \<open>us\<close>, \<open>acc\<close> being the field begun so far.\<close>

fun words :: "string \<Rightarrow> string list \<Rightarrow> string list" where
  "words acc [] = (if acc = [] then [] else [acc])"
| "words acc (u # us) =
     (if space_rune u then (if acc = [] then words [] us else acc # words [] us)
      else words (acc @ u) us)"

text \<open>
  \<open>strings.Fields\<close>. The library's fast path for all-ASCII strings computes the same fields,
  a byte below 0x80 being its own rune (\<open>split_runes_ascii\<close>).
\<close>

definition Fields :: "string \<Rightarrow> string list" where
  "Fields s = words [] (split_runes s)"

lemma words_snoc_space: "space_rune u \<Longrightarrow> words acc (us @ [u]) = words acc us"
  by (induction acc us rule: words.induct) auto

lemma space_rune_ascii: "c \<in> {SPC, TAB, LF} \<Longrightarrow> space_rune [c]"
  by (auto simp: space_rune_def rune_value_def rune_width_ascii IsSpace_def)

lemma Fields_snoc: "c \<in> {SPC, TAB, LF} \<Longrightarrow> Fields (s @ [c]) = Fields s"
proof -
  assume c: "c \<in> {SPC, TAB, LF}"
  then have "byte c < 0x80" by auto
  with c show ?thesis
    by (simp add: Fields_def split_runes_snoc words_snoc_space space_rune_ascii)
qed

lemma Fields_append_blank: "set t \<subseteq> {SPC, TAB, LF} \<Longrightarrow> Fields (s @ t) = Fields s"
proof (induction t rule: rev_induct)
  case (snoc c t)
  then show ?case using Fields_snoc [of c "s @ t"] by simp
qed simp

lemma Fields_TrimRight: "set cs \<subseteq> {SPC, TAB, LF} \<Longrightarrow> Fields (TrimRight s cs) = Fields s"
proof -
  assume "set cs \<subseteq> {SPC, TAB, LF}"
  moreover obtain t where "s = TrimRight s cs @ t" "set t \<subseteq> set cs"
    using TrimRight_split by blast
  ultimately show ?thesis by (metis Fields_append_blank subset_trans)
qed

section \<open>Decimal numbers\<close>

definition digit :: "nat \<Rightarrow> char" where
  "digit d = char_of (48 + d)"

fun nat_str :: "nat \<Rightarrow> string" where
  "nat_str n = (if n < 10 then [digit n] else nat_str (n div 10) @ [digit (n mod 10)])"

declare nat_str.simps [simp del]

definition Itoa :: "int \<Rightarrow> string" where
  "Itoa i = (if i < 0 then CHR ''-'' # nat_str (nat (- i)) else nat_str (nat i))"

definition is_digit :: "char \<Rightarrow> bool" where
  "is_digit c \<longleftrightarrow> 48 \<le> byte c \<and> byte c \<le> 57"

fun digits_val :: "nat \<Rightarrow> string \<Rightarrow> nat" where
  "digits_val n [] = n"
| "digits_val n (c # s) = digits_val (10 * n + (byte c - 48)) s"

text \<open>
  \<open>strconv.Atoi\<close>: an optional sign, at least one digit and nothing else; \<open>None\<close> is its
  syntax error or its range error.
\<close>

definition Atoi :: "string \<Rightarrow> int option" where
  "Atoi s = (let neg = (case s of c # _ \<Rightarrow> c = CHR ''-'' | [] \<Rightarrow> False);
       body = (case s of c # r \<Rightarrow> if c = CHR ''-'' \<or> c = CHR ''+'' then r else s | [] \<Rightarrow> s)
     in if body = [] \<or> \<not> list_all is_digit body then None
        else let v = (if neg then - int (digits_val 0 body) else int (digits_val 0 body))
             in if i64 v then Some v else None)"

lemma byte_digit [simp]: "d < 10 \<Longrightarrow> byte (digit d) = 48 + d"
  by (simp add: digit_def take_bit_nat_def)

lemma is_digit_digit [simp]: "d < 10 \<Longrightarrow> is_digit (digit d)"
  by (simp add: is_digit_def)

lemma digits_val_append: "digits_val n (s @ [c]) = 10 * digits_val n s + (byte c - 48)"
  by (induction s arbitrary: n) auto

lemma nat_str_digits: "list_all is_digit (nat_str n) \<and> nat_str n \<noteq> []"
proof (induction n rule: nat_str.induct)
  case (1 n)
  then show ?case
    by (subst (1 2) nat_str.simps) auto
qed

lemma digits_val_nat_str: "digits_val 0 (nat_str n) = n"
proof (induction n rule: nat_str.induct)
  case (1 n)
  show ?case
  proof (cases "n < 10")
    case True
    then show ?thesis by (subst nat_str.simps) simp
  next
    case False
    with 1 show ?thesis
      by (subst nat_str.simps) (simp add: digits_val_append)
  qed
qed

lemma hd_nat_str: "nat_str n = c # s \<Longrightarrow> is_digit c"
  using nat_str_digits [of n] by auto

lemma Atoi_Itoa: "i64 n \<Longrightarrow> Atoi (Itoa n) = Some n"
proof -
  assume n: "i64 n"
  obtain c s where cs: "nat_str (nat \<bar>n\<bar>) = c # s"
    using nat_str_digits [of "nat \<bar>n\<bar>"] by (cases "nat_str (nat \<bar>n\<bar>)") auto
  then have "is_digit c" by (rule hd_nat_str)
  then have c: "c \<noteq> CHR ''-''" "c \<noteq> CHR ''+''" by (auto simp: is_digit_def)
  have ds: "list_all is_digit (c # s)" "digits_val 0 (c # s) = nat \<bar>n\<bar>"
    using nat_str_digits [of "nat \<bar>n\<bar>"] digits_val_nat_str [of "nat \<bar>n\<bar>"] cs by simp_all
  show ?thesis
  proof (cases "n < 0")
    case True
    with cs have "Itoa n = CHR ''-'' # c # s" by (simp add: Itoa_def)
    with ds n True show ?thesis by (simp add: Atoi_def Let_def)
  next
    case False
    with cs have "Itoa n = c # s" by (simp add: Itoa_def)
    with ds n False c show ?thesis by (simp add: Atoi_def Let_def)
  qed
qed

lemma Itoa_inject: "i64 a \<Longrightarrow> i64 b \<Longrightarrow> Itoa a = Itoa b \<longleftrightarrow> a = b"
  by (metis Atoi_Itoa option.inject)

lemma Itoa_neq_dashes: "Itoa n \<noteq> CHR ''-'' # CHR ''-'' # s"
  using nat_str_digits [of "nat n"] nat_str_digits [of "nat (- n)"]
  by (auto simp: Itoa_def is_digit_def)

section \<open>Quoting\<close>

definition hex_digit :: "nat \<Rightarrow> char" where
  "hex_digit d = (if d < 10 then char_of (48 + d) else char_of (87 + d))"

text \<open>The last \<open>k\<close> hexadecimal digits of \<open>n\<close>.\<close>

fun hex_str :: "nat \<Rightarrow> nat \<Rightarrow> string" where
  "hex_str 0 n = []"
| "hex_str (Suc k) n = hex_str k (n div 16) @ [hex_digit (n mod 16)]"

definition BSL :: char where "BSL = CHR 0x5C"
definition DQT :: char where "DQT = CHR 0x22"

definition escape_ascii :: "nat \<Rightarrow> string" where
  "escape_ascii b =
     (if b = 0x22 \<or> b = 0x5C then [BSL, char_of b]
      else if 0x20 \<le> b \<and> b < 0x7F then [char_of b]
      else if b = 0x07 then [BSL, CHR ''a'']
      else if b = 0x08 then [BSL, CHR ''b'']
      else if b = 0x0C then [BSL, CHR ''f'']
      else if b = 0x0A then [BSL, CHR ''n'']
      else if b = 0x0D then [BSL, CHR ''r'']
      else if b = 0x09 then [BSL, CHR ''t'']
      else if b = 0x0B then [BSL, CHR ''v'']
      else BSL # CHR ''x'' # hex_str 2 b)"

text \<open>
  \<open>strconv.Quote\<close>, the verb \<open>%q\<close>: \<open>is_print\<close> stands for \<open>strconv.IsPrint\<close> on code points
  above ASCII, a table of the Unicode standard.
\<close>

definition quote_rune :: "(nat \<Rightarrow> bool) \<Rightarrow> string \<Rightarrow> string" where
  "quote_rune is_print u =
     (if length u = 1 then
        (if byte (hd u) < 0x80 then escape_ascii (byte (hd u)) else BSL # CHR ''x'' # hex_str 2 (byte (hd u)))
      else if is_print (rune_value u) then u
      else if rune_value u < 0x10000 then BSL # CHR ''u'' # hex_str 4 (rune_value u)
      else BSL # CHR ''U'' # hex_str 8 (rune_value u))"

definition Quote :: "(nat \<Rightarrow> bool) \<Rightarrow> string \<Rightarrow> string" where
  "Quote is_print s = DQT # concat (map (quote_rune is_print) (split_runes s)) @ [DQT]"

end
