(* ===== verification/Config.thy ===== *)
theory Config
  imports Go_Strings
begin

text \<open>
  \<open>internal/config/config.go\<close>: the settings, read from environment variables with a default
  for each. \<open>os.Getenv\<close> is the argument \<open>getenv\<close> (the empty string for an unset variable)
  and \<open>runtime.NumCPU\<close> the argument \<open>num_cpu\<close>.
\<close>

record config =
  cf_HTTPAddr :: string
  cf_NsjailPath :: string
  cf_LanguagesDir :: string
  cf_JobRoot :: string
  cf_MaxConcurrency :: int
  cf_QueueDepth :: int
  cf_RequestTimeout :: int
  cf_MaxSourceBytes :: int
  cf_MaxOutputBytes :: int
  cf_MaxTestCases :: int
  cf_JailUID :: int
  cf_JailGID :: int
  cf_SQSQueueURL :: string
  cf_RedisAddr :: string
  cf_RedisPassword :: string
  cf_RedisTLS :: bool
  cf_SQSWorkers :: int

definition envOr :: "(string \<Rightarrow> string) \<Rightarrow> string \<Rightarrow> string \<Rightarrow> string" where
  "envOr getenv key fallback = (let v = getenv key in if v \<noteq> [] then v else fallback)"

definition envIntOr :: "(string \<Rightarrow> string) \<Rightarrow> string \<Rightarrow> int \<Rightarrow> int" where
  "envIntOr getenv key fallback =
     (let v = getenv key in
      if v \<noteq> [] then (case Atoi v of Some n \<Rightarrow> n | None \<Rightarrow> fallback) else fallback)"

definition Load :: "(string \<Rightarrow> string) \<Rightarrow> int \<Rightarrow> config" where
  "Load getenv num_cpu = \<lparr>
     cf_HTTPAddr = envOr getenv ''GOBOXD_HTTP_ADDR'' '':8080'',
     cf_NsjailPath = envOr getenv ''GOBOXD_NSJAIL'' ''/usr/local/bin/nsjail'',
     cf_LanguagesDir = envOr getenv ''GOBOXD_LANGUAGES_DIR'' ''/etc/goboxd/languages'',
     cf_JobRoot = envOr getenv ''GOBOXD_JOB_ROOT'' ''/tmp/goboxd'',
     cf_MaxConcurrency = envIntOr getenv ''GOBOXD_MAX_CONCURRENCY'' num_cpu,
     cf_QueueDepth = envIntOr getenv ''GOBOXD_QUEUE_DEPTH'' (wrap64 (num_cpu * 4)),
     cf_RequestTimeout = wrap64 (envIntOr getenv ''GOBOXD_REQUEST_TIMEOUT_S'' 60 * Second),
     cf_MaxSourceBytes = envIntOr getenv ''GOBOXD_MAX_SOURCE_BYTES'' (256 * 1024),
     cf_MaxOutputBytes = envIntOr getenv ''GOBOXD_MAX_OUTPUT_BYTES'' (1024 * 1024),
     cf_MaxTestCases = envIntOr getenv ''GOBOXD_MAX_TEST_CASES'' 100,
     cf_JailUID = envIntOr getenv ''GOBOXD_JAIL_UID'' 99999,
     cf_JailGID = envIntOr getenv ''GOBOXD_JAIL_GID'' 99999,
     cf_SQSQueueURL = envOr getenv ''SQS_QUEUE_URL'' '''',
     cf_RedisAddr = envOr getenv ''REDIS_ADDR'' ''localhost:6379'',
     cf_RedisPassword = getenv ''REDIS_PASSWORD'',
     cf_RedisTLS = (envOr getenv ''REDIS_TLS'' ''false'' = ''true''),
     cf_SQSWorkers = envIntOr getenv ''GOBOXD_SQS_WORKERS'' 2\<rparr>"

lemma Atoi_i64: "Atoi s = Some n \<Longrightarrow> i64 n"
  by (auto simp: Atoi_def Let_def split: if_splits)

lemma envIntOr_set: "getenv key = Itoa n \<Longrightarrow> i64 n \<Longrightarrow> envIntOr getenv key d = n"
  using Atoi_Itoa [of n] by (auto simp: envIntOr_def Let_def) (simp add: Atoi_def)

lemma envIntOr_malformed: "Atoi (getenv key) = None \<Longrightarrow> envIntOr getenv key d = d"
  by (simp add: envIntOr_def Let_def)

lemma envIntOr_i64: "i64 d \<Longrightarrow> i64 (envIntOr getenv key d)"
  by (auto simp: envIntOr_def Let_def Atoi_i64 split: option.split)

section \<open>Properties\<close>

text \<open>Every integer setting reads back what was written: the decimal text of a 64-bit
  integer in its variable is that integer in the configuration, and an unset or malformed
  variable leaves the default, so that every setting is a 64-bit integer.\<close>

theorem integer_settings_round_trip:
  assumes "i64 n" "i64 num_cpu"
  shows "(getenv ''GOBOXD_MAX_TEST_CASES'' = Itoa n \<longrightarrow> cf_MaxTestCases (Load getenv num_cpu) = n) \<and>
    (getenv ''GOBOXD_MAX_CONCURRENCY'' = Itoa n \<longrightarrow> cf_MaxConcurrency (Load getenv num_cpu) = n) \<and>
    (getenv ''GOBOXD_QUEUE_DEPTH'' = Itoa n \<longrightarrow> cf_QueueDepth (Load getenv num_cpu) = n) \<and>
    (getenv ''GOBOXD_MAX_SOURCE_BYTES'' = Itoa n \<longrightarrow> cf_MaxSourceBytes (Load getenv num_cpu) = n) \<and>
    (getenv ''GOBOXD_MAX_OUTPUT_BYTES'' = Itoa n \<longrightarrow> cf_MaxOutputBytes (Load getenv num_cpu) = n) \<and>
    (Atoi (getenv ''GOBOXD_MAX_CONCURRENCY'') = None \<longrightarrow> cf_MaxConcurrency (Load getenv num_cpu) = num_cpu) \<and>
    i64 (cf_MaxConcurrency (Load getenv num_cpu)) \<and> i64 (cf_QueueDepth (Load getenv num_cpu)) \<and>
    i64 (cf_RequestTimeout (Load getenv num_cpu))"
  using assms by (simp add: Load_def envIntOr_set envIntOr_malformed envIntOr_i64)

theorem integer_settings_round_trip_witness:
  "cf_MaxTestCases (Load (\<lambda>k. if k = ''GOBOXD_MAX_TEST_CASES'' then Itoa 7 else []) 4) = 7"
  using integer_settings_round_trip [of 7 4 "\<lambda>k. if k = ''GOBOXD_MAX_TEST_CASES'' then Itoa 7 else []"]
  by (simp add: i64_def)

end
