(* ===== verification/Go_Path.thy ===== *)
theory Go_Path
  imports Go_Strings
begin

text \<open>
  Go's \<open>path/filepath\<close> on Unix: the lexical \<open>Clean\<close> and \<open>Join\<close>. The law the program
  rests on is \<open>filepath_Join_plain\<close>: joining a plain name (non-empty, no slash, not a dot
  or dot-dot) to a directory names an entry directly inside that directory.
\<close>

fun split_slash :: "string \<Rightarrow> string list" where
  "split_slash [] = [[]]"
| "split_slash (c # s) =
     (if c = CHR ''/'' then [] # split_slash s
      else (case split_slash s of [] \<Rightarrow> [[c]] | x # xs \<Rightarrow> (c # x) # xs))"

text \<open>One path element against the reversed list of those kept so far.\<close>

definition clean_step :: "bool \<Rightarrow> string list \<Rightarrow> string \<Rightarrow> string list" where
  "clean_step rooted st c =
     (if c = [] \<or> c = ''.'' then st
      else if c = ''..'' then
        (case st of [] \<Rightarrow> if rooted then [] else [''..'']
         | t # ts \<Rightarrow> if t = ''..'' then ''..'' # st else ts)
      else c # st)"

definition is_rooted :: "string \<Rightarrow> bool" where
  "is_rooted p \<longleftrightarrow> (case p of [] \<Rightarrow> False | c # _ \<Rightarrow> c = CHR ''/'')"

definition path_elems :: "string \<Rightarrow> string list" where
  "path_elems p = rev (foldl (clean_step (is_rooted p)) [] (split_slash p))"

definition render_path :: "bool \<Rightarrow> string list \<Rightarrow> string" where
  "render_path rooted es =
     (if rooted then CHR ''/'' # Join es ''/'' else if es = [] then ''.'' else Join es ''/'')"

definition filepath_Clean :: "string \<Rightarrow> string" where
  "filepath_Clean p = render_path (is_rooted p) (path_elems p)"

definition filepath_Join :: "string list \<Rightarrow> string" where
  "filepath_Join es = (case dropWhile (\<lambda>e. e = []) es of
     [] \<Rightarrow> [] | fs \<Rightarrow> filepath_Clean (Join fs ''/''))"

definition plain :: "string \<Rightarrow> bool" where
  "plain n \<longleftrightarrow> n \<noteq> [] \<and> n \<noteq> ''.'' \<and> n \<noteq> ''..'' \<and> CHR ''/'' \<notin> set n"

text \<open>The entry \<open>n\<close> of the cleaned directory \<open>d\<close>.\<close>

definition entry_of :: "string \<Rightarrow> string \<Rightarrow> string" where
  "entry_of d n = (if d = ''/'' then CHR ''/'' # n else if d = ''.'' then n
                   else d @ CHR ''/'' # n)"

section \<open>Splitting and joining\<close>

lemma split_slash_neq [simp]: "split_slash s \<noteq> []"
  by (induction s) (auto split: list.splits)

lemma split_slash_plain: "CHR ''/'' \<notin> set s \<Longrightarrow> split_slash s = [s]"
  by (induction s) auto

lemma split_slash_append:
  "split_slash (a @ CHR ''/'' # b) = split_slash a @ split_slash b"
proof (induction a)
  case (Cons c a)
  then show ?case by (cases "split_slash a") auto
qed simp

lemma split_slash_Join:
  "es \<noteq> [] \<Longrightarrow> \<forall>e \<in> set es. CHR ''/'' \<notin> set e \<Longrightarrow> split_slash (Join es ''/'') = es"
  by (induction es "''/''" rule: Join.induct)
     (auto simp: split_slash_plain split_slash_append)

lemma split_slash_no_slash: "e \<in> set (split_slash s) \<Longrightarrow> CHR ''/'' \<notin> set e"
  by (induction s arbitrary: e) (auto split: if_splits list.splits)

section \<open>Cleaning\<close>

text \<open>A cleaned stack: plain elements, above dot-dots only where the path is relative.\<close>

fun normal :: "bool \<Rightarrow> string list \<Rightarrow> bool" where
  "normal r [] = True"
| "normal r (c # st) \<longleftrightarrow>
     (plain c \<or> c = ''..'' \<and> \<not> r \<and> (\<forall>x \<in> set st. x = ''..'')) \<and> normal r st"

lemma plain_not_dots [simp]: "\<not> plain ''..''" "\<not> plain ''.''" "\<not> plain []"
  by (simp_all add: plain_def)

lemma clean_step_plain [simp]: "plain c \<Longrightarrow> clean_step r st c = c # st"
  by (auto simp: clean_step_def plain_def)

lemma plain_intro: "n \<noteq> [] \<Longrightarrow> n \<noteq> ''.'' \<Longrightarrow> n \<noteq> ''..'' \<Longrightarrow> CHR ''/'' \<notin> set n \<Longrightarrow> plain n"
  by (simp add: plain_def)

lemma clean_step_normal:
  "normal r st \<Longrightarrow> CHR ''/'' \<notin> set c \<Longrightarrow> normal r (clean_step r st c)"
proof (cases st)
  case (Cons t ts)
  assume "normal r st" "CHR ''/'' \<notin> set c"
  then show ?thesis using Cons plain_intro [of c] unfolding clean_step_def
    by (cases "c = []"; cases "c = ''.''"; cases "c = ''..''"; cases "t = ''..''") simp_all
qed (simp add: clean_step_def plain_def)

lemma foldl_clean_normal:
  "normal r st \<Longrightarrow> \<forall>c \<in> set cs. CHR ''/'' \<notin> set c \<Longrightarrow> normal r (foldl (clean_step r) st cs)"
  by (induction cs arbitrary: st) (auto intro: clean_step_normal)

lemma normal_path_elems: "normal (is_rooted p) (rev (path_elems p))"
  using foldl_clean_normal [of "is_rooted p" "[]" "split_slash p"] split_slash_no_slash
  by (simp add: path_elems_def)

lemma clean_step_push: "normal r (c # st) \<Longrightarrow> clean_step r st c = c # st"
  by (cases st) (auto simp: clean_step_def plain_def)

lemma foldl_clean_id: "normal r st \<Longrightarrow> foldl (clean_step r) [] (rev st) = st"
proof (induction st)
  case (Cons c st)
  then show ?case using clean_step_push [OF Cons.prems] by simp
qed simp

lemma plain_or_dots: "plain e \<or> e = ''..'' \<Longrightarrow> e \<noteq> [] \<and> e \<noteq> ''.'' \<and> CHR ''/'' \<notin> set e"
  by (auto simp: plain_def)

lemma normal_elem: "normal r st \<Longrightarrow> e \<in> set st \<Longrightarrow> e \<noteq> [] \<and> e \<noteq> ''.'' \<and> CHR ''/'' \<notin> set e"
proof (induction st)
  case (Cons c st)
  from Cons.prems(1) have "plain c \<or> c = ''..''" "normal r st"
    unfolding normal.simps by blast+
  then show ?case using Cons.IH Cons.prems(2) plain_or_dots [of c] by (cases "e = c") simp_all
qed simp

lemma path_elem: "e \<in> set (path_elems p) \<Longrightarrow> e \<noteq> [] \<and> e \<noteq> ''.'' \<and> CHR ''/'' \<notin> set e"
  using normal_elem [OF normal_path_elems, of e p] by simp

lemma Join_eq_Nil: "\<forall>e \<in> set es. e \<noteq> [] \<Longrightarrow> Join es sep = [] \<longleftrightarrow> es = []"
  by (induction es sep rule: Join.induct) auto

lemma hd_Join: "es \<noteq> [] \<Longrightarrow> \<forall>e \<in> set es. e \<noteq> [] \<Longrightarrow> hd (Join es sep) = hd (hd es)"
  by (induction es sep rule: Join.induct) auto

lemma Join_single:
  assumes "\<forall>e \<in> set es. e \<noteq> []" and J: "Join es [s] = [c]"
  shows "es = [[c]]"
proof (cases es)
  case (Cons x xs)
  have "Join (x # y # ys) [s] \<noteq> [c]" if "x \<noteq> []" for y ys
    using that by (cases x) auto
  with Cons assms show ?thesis by (cases xs) (auto simp del: Join.simps(3))
qed (use J in simp)

lemma is_rooted_render:
  assumes "\<forall>e \<in> set es. e \<noteq> [] \<and> CHR ''/'' \<notin> set e"
  shows "is_rooted (render_path r es) = r"
proof (cases r)
  case False
  show ?thesis
  proof (cases es)
    case (Cons e ds)
    then have "hd (Join es ''/'') = hd e" "Join es ''/'' \<noteq> []" "hd e \<in> set e"
      using assms hd_Join [of es "''/''"] Join_eq_Nil [of es "''/''"] by auto
    moreover have "CHR ''/'' \<notin> set e" using assms Cons by simp
    ultimately have "hd (Join es ''/'') \<noteq> CHR ''/''" by metis
    with False Cons \<open>Join es ''/'' \<noteq> []\<close> show ?thesis
      by (auto simp: render_path_def is_rooted_def split: list.split)
  qed (use False in \<open>simp add: render_path_def is_rooted_def\<close>)
qed (simp add: render_path_def is_rooted_def)

lemma path_elems_render:
  assumes "normal r (rev es)"
  shows "path_elems (render_path r es) = es"
proof -
  have el: "\<forall>e \<in> set es. e \<noteq> [] \<and> CHR ''/'' \<notin> set e"
    using normal_elem [OF assms] by simp
  have r: "is_rooted (render_path r es) = r" by (rule is_rooted_render [OF el])
  have "foldl (clean_step r) [] (split_slash (render_path r es)) = rev es"
  proof (cases "es = []")
    case True
    then show ?thesis by (simp add: render_path_def clean_step_def)
  next
    case False
    then have "split_slash (Join es ''/'') = es" using el by (simp add: split_slash_Join)
    with False have "split_slash (render_path r es) = (if r then [] # es else es)"
      by (simp add: render_path_def)
    moreover have "clean_step r [] [] = []" by (simp add: clean_step_def)
    ultimately show ?thesis using foldl_clean_id [OF assms] by (cases r) simp_all
  qed
  then show ?thesis by (simp add: path_elems_def r)
qed

lemma is_rooted_Clean [simp]: "is_rooted (filepath_Clean p) = is_rooted p"
  using is_rooted_render [of "path_elems p"] path_elem by (simp add: filepath_Clean_def)

lemma path_elems_Clean [simp]: "path_elems (filepath_Clean p) = path_elems p"
  unfolding filepath_Clean_def by (rule path_elems_render) (rule normal_path_elems)

lemma filepath_Clean_idem [simp]: "filepath_Clean (filepath_Clean p) = filepath_Clean p"
  by (simp add: filepath_Clean_def [of "filepath_Clean p"]) (simp add: filepath_Clean_def)

section \<open>Joining a plain name\<close>

lemma render_snoc:
  assumes es: "\<forall>e \<in> set es. e \<noteq> [] \<and> e \<noteq> ''.'' \<and> CHR ''/'' \<notin> set e"
  shows "render_path r (es @ [n]) = entry_of (render_path r es) n"
proof (cases "es = []")
  case True
  then show ?thesis by (cases r) (simp_all add: render_path_def entry_of_def)
next
  case False
  have ne: "Join es ''/'' \<noteq> []" using es False by (simp add: Join_eq_Nil)
  have dot: "Join es ''/'' \<noteq> ''.''"
  proof
    assume "Join es ''/'' = ''.''"
    then have "es = [''.'']" using es by (blast intro: Join_single)
    with es show False by simp
  qed
  have "Join es ''/'' \<noteq> ''/''"
  proof
    assume "Join es ''/'' = ''/''"
    then have "es = [''/'']" using es by (blast intro: Join_single)
    with es show False by simp
  qed
  with False ne dot show ?thesis
    by (cases r) (simp_all only: render_path_def entry_of_def Join_snoc if_True if_False
        list.inject append_Cons append_Nil append_is_Nil_conv not_Cons_self char.inject simp_thms)
qed

lemma plainD: "plain n \<Longrightarrow> n \<noteq> [] \<and> CHR ''/'' \<notin> set n"
  by (simp add: plain_def)

lemma Clean_Nil: "filepath_Clean [] = ''.''"
  by (simp add: filepath_Clean_def render_path_def path_elems_def is_rooted_def clean_step_def)

lemma not_rooted_plain: "plain n \<Longrightarrow> \<not> is_rooted n"
  using plainD [of n] by (cases n) (auto simp: is_rooted_def)

lemma path_elems_plain: "plain n \<Longrightarrow> path_elems n = [n]"
  using plainD [of n] by (simp add: path_elems_def split_slash_plain)

lemma Clean_plain: "plain n \<Longrightarrow> filepath_Clean n = n"
  by (simp add: filepath_Clean_def render_path_def not_rooted_plain path_elems_plain)

lemma filepath_Join_plain:
  assumes n: "plain n"
  shows "filepath_Join [d, n] = entry_of (filepath_Clean d) n"
proof (cases "d = []")
  case True
  then have "filepath_Join [d, n] = n"
    using plainD [OF n] by (simp add: filepath_Join_def Clean_plain [OF n])
  with True show ?thesis by (simp add: entry_of_def Clean_Nil)
next
  case False
  let ?p = "d @ CHR ''/'' # n"
  have r: "is_rooted ?p = is_rooted d" using False by (cases d) (simp_all add: is_rooted_def)
  have "split_slash n = [n]" using plainD [OF n] by (simp add: split_slash_plain)
  then have el: "path_elems ?p = path_elems d @ [n]"
    using n by (simp add: path_elems_def r split_slash_append)
  have "filepath_Join [d, n] = filepath_Clean ?p"
    using False by (simp add: filepath_Join_def)
  also have "\<dots> = render_path (is_rooted d) (path_elems d @ [n])"
    unfolding filepath_Clean_def r el ..
  also have "\<dots> = entry_of (render_path (is_rooted d) (path_elems d)) n"
    by (rule render_snoc) (simp add: path_elem)
  finally show ?thesis by (simp only: filepath_Clean_def)
qed

lemma Clean_Join [simp]:
  "es \<noteq> [] \<Longrightarrow> hd es \<noteq> [] \<Longrightarrow> filepath_Clean (filepath_Join es) = filepath_Join es"
  by (cases es) (auto simp: filepath_Join_def)

lemma entry_of_job: "d \<noteq> ''/'' \<Longrightarrow> d \<noteq> ''.'' \<Longrightarrow> entry_of d n = d @ CHR ''/'' # n"
  by (simp add: entry_of_def)

end
