(* ===== verification/Registry.thy ===== *)
theory Registry
  imports Go_Path
begin

text \<open>
  \<open>internal/registry/registry.go\<close>: the languages goboxd can run, loaded from a directory of
  YAML files. The file system calls and the YAML decoder (a third-party package) are the
  arguments \<open>read_dir\<close>, \<open>read_file\<close> and \<open>yaml_unmarshal\<close>. The registry is the state; its
  lock is taken around every access and so leaves the operations atomic.

  The locale \<open>language_source\<close> is what the executor relies on: every language it is handed
  has passed \<open>validate\<close>, so its run phase is present. \<open>Registry\<close> provides it.
\<close>

section \<open>Data\<close>

record phase =
  ph_Command :: string
  ph_Args :: "string list"
  ph_AllowedFlags :: "string list"
  ph_TimeLimitS :: int
  ph_MemoryKB :: int
  ph_MaxProcesses :: int

record language =
  l_Name :: string
  l_Version :: string
  l_SourceFile :: string
  l_Artifact :: string
  l_Build :: "phase option"
  l_Run :: "phase option"

record registry =
  reg_languages :: "string \<rightharpoonup> language"

record dir_entry =
  de_Name :: string
  de_IsDir :: bool

text \<open>The errors of a single file, and of a whole load (which names the file or directory).\<close>

datatype file_error = ReadFileError string | YamlDecode string
  | MissingName | MissingSourceFile | MissingRunPhase | RunCommandEmpty | BuildCommandEmpty

datatype load_error = ReadLanguagesDir string string | LoadFile string file_error

section \<open>Operations\<close>

definition New :: registry where
  "New = \<lparr>reg_languages = (\<lambda>_. None)\<rparr>"

definition validate :: "language \<Rightarrow> file_error option" where
  "validate l =
     (if l_Name l = [] then Some MissingName
      else if l_SourceFile l = [] then Some MissingSourceFile
      else case l_Run l of
        None \<Rightarrow> Some MissingRunPhase
      | Some run \<Rightarrow>
          if ph_Command run = [] then Some RunCommandEmpty
          else case l_Build l of
            None \<Rightarrow> None
          | Some build \<Rightarrow> if ph_Command build = [] then Some BuildCommandEmpty else None)"

definition loadFile ::
  "(string \<Rightarrow> string + string) \<Rightarrow> (string \<Rightarrow> string + language) \<Rightarrow> string \<Rightarrow> registry \<Rightarrow>
   file_error option \<times> registry" where
  "loadFile read_file yaml_unmarshal path r =
     (case read_file path of
        Inl e \<Rightarrow> (Some (ReadFileError e), r)
      | Inr raw \<Rightarrow>
          (case yaml_unmarshal raw of
             Inl e \<Rightarrow> (Some (YamlDecode e), r)
           | Inr lang \<Rightarrow>
               (case validate lang of
                  Some e \<Rightarrow> (Some e, r)
                | None \<Rightarrow> (None, r\<lparr>reg_languages := (reg_languages r)(l_Name lang \<mapsto> lang)\<rparr>))))"

definition is_yaml_name :: "string \<Rightarrow> bool" where
  "is_yaml_name name \<longleftrightarrow> HasSuffix name ''.yaml'' \<or> HasSuffix name ''.yml''"

fun load_entries ::
  "(string \<Rightarrow> string + string) \<Rightarrow> (string \<Rightarrow> string + language) \<Rightarrow> string \<Rightarrow> dir_entry list \<Rightarrow>
   registry \<Rightarrow> load_error option \<times> registry" where
  "load_entries rf yu dir [] r = (None, r)"
| "load_entries rf yu dir (e # es) r =
     (if de_IsDir e then load_entries rf yu dir es r
      else if \<not> is_yaml_name (de_Name e) then load_entries rf yu dir es r
      else let path = filepath_Join [dir, de_Name e] in
        case loadFile rf yu path r of
          (Some err, r') \<Rightarrow> (Some (LoadFile path err), r')
        | (None, r') \<Rightarrow> load_entries rf yu dir es r')"

definition LoadDir ::
  "(string \<Rightarrow> string + dir_entry list) \<Rightarrow> (string \<Rightarrow> string + string) \<Rightarrow>
   (string \<Rightarrow> string + language) \<Rightarrow> string \<Rightarrow> registry \<Rightarrow> load_error option \<times> registry" where
  "LoadDir read_dir read_file yaml_unmarshal dir r =
     (case read_dir dir of
        Inl e \<Rightarrow> (Some (ReadLanguagesDir dir e), r)
      | Inr entries \<Rightarrow> load_entries read_file yaml_unmarshal dir entries r)"

definition Get :: "registry \<Rightarrow> string \<Rightarrow> language option" where
  "Get r name = reg_languages r name"

text \<open>
  \<open>Names\<close> ranges over a Go map, whose order is unspecified: it may return any list that
  enumerates the registered names once each.
\<close>

definition is_Names :: "registry \<Rightarrow> string list \<Rightarrow> bool" where
  "is_Names r ns \<longleftrightarrow> distinct ns \<and> set ns = dom (reg_languages r)"

section \<open>The contract of a language source\<close>

locale language_source =
  fixes get :: "'r \<Rightarrow> string \<Rightarrow> language option"
    and inv :: "'r \<Rightarrow> bool"
  assumes get_valid: "inv r \<Longrightarrow> get r n = Some l \<Longrightarrow> validate l = None \<and> l_Name l = n"
begin

lemma get_run: "inv r \<Longrightarrow> get r n = Some l \<Longrightarrow> \<exists>p. l_Run l = Some p \<and> ph_Command p \<noteq> []"
  by (drule (1) get_valid) (auto simp: validate_def split: option.splits if_splits)

lemma get_build: "inv r \<Longrightarrow> get r n = Some l \<Longrightarrow> l_Build l = Some p \<Longrightarrow> ph_Command p \<noteq> []"
  by (drule (1) get_valid) (auto simp: validate_def split: option.splits if_splits)

lemma get_names: "inv r \<Longrightarrow> get r n = Some l \<Longrightarrow> n \<noteq> [] \<and> l_SourceFile l \<noteq> []"
  by (drule (1) get_valid) (auto simp: validate_def split: option.splits if_splits)

end

text \<open>A source that is filled by a loader which keeps its invariant.\<close>

locale language_loader = language_source get inv
  for get :: "'r \<Rightarrow> string \<Rightarrow> language option" and inv :: "'r \<Rightarrow> bool" +
  fixes load :: "'p \<Rightarrow> 'r \<Rightarrow> 'e option \<times> 'r"
  assumes load_inv: "inv r \<Longrightarrow> inv (snd (load p r))"
begin

lemma loads_inv: "inv r \<Longrightarrow> inv (fold (\<lambda>p r. snd (load p r)) ps r)"
  by (induction ps arbitrary: r) (simp_all add: load_inv)

lemma loads_get_run:
  "inv r \<Longrightarrow> get (fold (\<lambda>p r. snd (load p r)) ps r) n = Some l \<Longrightarrow> \<exists>p. l_Run l = Some p \<and> ph_Command p \<noteq> []"
  by (rule get_run [OF loads_inv])

end

definition reg_ok :: "registry \<Rightarrow> bool" where
  "reg_ok r \<longleftrightarrow> (\<forall>n l. reg_languages r n = Some l \<longrightarrow> validate l = None \<and> l_Name l = n)"

lemma reg_ok_New: "reg_ok New"
  by (simp add: reg_ok_def New_def)

lemma reg_ok_loadFile: "reg_ok r \<Longrightarrow> reg_ok (snd (loadFile rf yu path r))"
  by (auto simp: loadFile_def reg_ok_def split: sum.split option.split)

lemma Get_valid: "reg_ok r \<Longrightarrow> Get r n = Some l \<Longrightarrow> validate l = None \<and> l_Name l = n"
  by (simp add: Get_def reg_ok_def)

interpretation reg: language_loader Get reg_ok "loadFile rf yu" for rf yu
  by unfold_locales (fact Get_valid, fact reg_ok_loadFile)

lemma reg_ok_load_entries: "reg_ok r \<Longrightarrow> reg_ok (snd (load_entries rf yu dir es r))"
proof (induction es arbitrary: r)
  case (Cons e es)
  obtain err r' where l: "loadFile rf yu (filepath_Join [dir, de_Name e]) r = (err, r')"
    by fastforce
  then have "reg_ok r'" by (metis reg_ok_loadFile [OF Cons.prems] snd_conv)
  with l Cons.IH Cons.prems show ?case
    by (cases err) (simp_all add: Let_def)
qed simp

lemma reg_ok_LoadDir: "reg_ok r \<Longrightarrow> reg_ok (snd (LoadDir rd rf yu dir r))"
  by (simp add: LoadDir_def reg_ok_load_entries split: sum.split)

section \<open>What a load does\<close>

text \<open>The languages of a directory as a function of its files, without the registry.\<close>

definition parse_file ::
  "(string \<Rightarrow> string + string) \<Rightarrow> (string \<Rightarrow> string + language) \<Rightarrow> string \<Rightarrow> file_error + language" where
  "parse_file rf yu path = (case rf path of Inl e \<Rightarrow> Inl (ReadFileError e)
     | Inr raw \<Rightarrow> (case yu raw of Inl e \<Rightarrow> Inl (YamlDecode e)
     | Inr l \<Rightarrow> (case validate l of Some e \<Rightarrow> Inl e | None \<Rightarrow> Inr l)))"

definition yaml_paths :: "string \<Rightarrow> dir_entry list \<Rightarrow> string list" where
  "yaml_paths dir es =
     map (\<lambda>e. filepath_Join [dir, de_Name e]) (filter (\<lambda>e. \<not> de_IsDir e \<and> is_yaml_name (de_Name e)) es)"

definition register_all :: "registry \<Rightarrow> language list \<Rightarrow> registry" where
  "register_all r ls = r\<lparr>reg_languages := reg_languages r ++ map_of (rev (map (\<lambda>l. (l_Name l, l)) ls))\<rparr>"

text \<open>The valid languages in file order, up to the first bad file, and that file's error.\<close>

fun parse_until :: "(string \<Rightarrow> file_error + language) \<Rightarrow> string list \<Rightarrow> load_error option \<times> language list" where
  "parse_until pf [] = (None, [])"
| "parse_until pf (p # ps) =
     (case pf p of Inl e \<Rightarrow> (Some (LoadFile p e), [])
      | Inr l \<Rightarrow> (case parse_until pf ps of (err, ls) \<Rightarrow> (err, l # ls)))"

lemma loadFile_parse:
  "loadFile rf yu path r = (case parse_file rf yu path of Inl e \<Rightarrow> (Some e, r)
     | Inr l \<Rightarrow> (None, register_all r [l]))"
  by (simp add: loadFile_def parse_file_def register_all_def split: sum.split option.split)

lemma register_all_Nil [simp]: "register_all r [] = r"
  by (simp add: register_all_def)

lemma register_all_append: "register_all (register_all r ls) ms = register_all r (ls @ ms)"
  by (simp add: register_all_def)

lemma load_entries_spec:
  "load_entries rf yu dir es r =
     (case parse_until (parse_file rf yu) (yaml_paths dir es) of (err, ls) \<Rightarrow> (err, register_all r ls))"
proof (induction es arbitrary: r)
  case (Cons e es)
  show ?case
  proof (cases "\<not> de_IsDir e \<and> is_yaml_name (de_Name e)")
    case True
    then show ?thesis
      by (auto simp: loadFile_parse yaml_paths_def Cons.IH register_all_append Let_def
          split: sum.split prod.split)
  next
    case False
    then show ?thesis by (auto simp: Cons.IH yaml_paths_def)
  qed
qed (simp add: yaml_paths_def)

section \<open>Properties\<close>

text \<open>Loading a directory: the YAML files, in directory order, are decoded and validated one
  by one up to the first bad one; the languages read before it are registered, a later file of
  the same name replacing an earlier one; and the error names that file and its cause.\<close>

theorem LoadDir_loads_until_first_error:
  "LoadDir rd rf yu dir r =
     (case rd dir of
        Inl e \<Rightarrow> (Some (ReadLanguagesDir dir e), r)
      | Inr es \<Rightarrow> (case parse_until (parse_file rf yu) (yaml_paths dir es) of
          (err, ls) \<Rightarrow> (err, r\<lparr>reg_languages := reg_languages r ++ map_of (rev (map (\<lambda>l. (l_Name l, l)) ls))\<rparr>)))"
  by (simp add: LoadDir_def load_entries_spec register_all_def split: sum.split)

text \<open>C30. Whatever the files hold, a registry filled from empty only ever hands out languages
  that passed validation, under their own name: the run phase is present, its command and the
  build command (if any) are not empty, and neither are the name and the source file.\<close>

theorem registry_serves_valid_languages:
  assumes "Get (snd (LoadDir rd rf yu dir New)) n = Some l"
  shows "l_Name l = n \<and> n \<noteq> [] \<and> l_SourceFile l \<noteq> [] \<and> (\<exists>r. l_Run l = Some r \<and> ph_Command r \<noteq> []) \<and>
    (\<forall>b. l_Build l = Some b \<longrightarrow> ph_Command b \<noteq> [])"
proof -
  have "reg_ok (snd (LoadDir rd rf yu dir New))" by (rule reg_ok_LoadDir) (rule reg_ok_New)
  from reg.get_valid [OF this assms] reg.get_names [OF this assms] reg.get_run [OF this assms]
    reg.get_build [OF this assms]
  show ?thesis by simp
qed

definition sample_python :: language where
  "sample_python = \<lparr>l_Name = ''python'', l_Version = ''3'', l_SourceFile = ''main.py'', l_Artifact = [],
     l_Build = None, l_Run = Some \<lparr>ph_Command = ''/usr/bin/python3'', ph_Args = [''{{source}}''],
       ph_AllowedFlags = [''-O''], ph_TimeLimitS = 5, ph_MemoryKB = 262144, ph_MaxProcesses = 16\<rparr>\<rparr>"

theorem registry_serves_valid_languages_witness:
  "l_SourceFile sample_python \<noteq> [] \<and> (\<exists>r. l_Run sample_python = Some r \<and> ph_Command r \<noteq> [])"
proof -
  have "Get (snd (LoadDir (\<lambda>_. Inr [\<lparr>de_Name = ''python.yaml'', de_IsDir = False\<rparr>]) (\<lambda>_. Inr [])
      (\<lambda>_. Inr sample_python) ''/l'' New)) ''python'' = Some sample_python"
    by code_simp
  from registry_serves_valid_languages [OF this] show ?thesis by simp
qed

end
