(* ===== verification/Go_Float.thy ===== *)
theory Go_Float
  imports Complex_Main Go_Prelude "HOL-Library.Log_Nat"
begin

text \<open>
  Go's \<open>float64\<close> arithmetic where the source uses it: the percentile index, \<open>math.Round\<close> on
  a job's time limit, and \<open>Duration.Seconds\<close>. A finite double is a rational number; every
  operation is the exact result rounded to 53 significant bits, ties to even (\<open>fl\<close>). The
  exponent range is not modelled: every value the source computes lies far inside it.
\<close>

section \<open>Rounding to a double\<close>

definition rne :: "rat \<Rightarrow> int" where
  "rne x = (let k = \<lfloor>x\<rfloor>; d = x - of_int k in
     if d < 1 / 2 then k else if 1 / 2 < d then k + 1 else if even k then k else k + 1)"

text \<open>The binary exponent of a positive rational: \<open>2 ^ e \<le> x < 2 ^ (e + 1)\<close>.\<close>

definition expo :: "rat \<Rightarrow> int" where
  "expo x = (let (a, b) = quotient_of x;
       k = int (floorlog 2 (nat a)) - int (floorlog 2 (nat b))
     in if x < 2 powi k then k - 1 else k)"

definition fl :: "rat \<Rightarrow> rat" where
  "fl x = (if x = 0 then 0 else
     (let y = \<bar>x\<bar>; e = expo y in sgn x * (of_int (rne (y * 2 powi (52 - e))) * 2 powi (e - 52))))"

lemma rne_of_int [simp]: "rne (of_int z) = z"
  by (simp add: rne_def)

lemma rne_err: "\<bar>of_int (rne x) - x\<bar> \<le> 1 / 2"
proof -
  have "of_int \<lfloor>x\<rfloor> \<le> x" "x < of_int \<lfloor>x\<rfloor> + 1" by linarith+
  then show ?thesis by (simp add: rne_def Let_def abs_le_iff; linarith?)
qed

lemma floorlog_powi:
  assumes "0 < a"
  shows "2 powi (int (floorlog 2 (nat a)) - 1) \<le> (of_int a :: rat)"
    and "(of_int a :: rat) < 2 powi int (floorlog 2 (nat a))"
proof -
  define p where "p = floorlog 2 (nat a)"
  have b: "2 ^ (p - 1) \<le> nat a" "nat a < 2 ^ p" and p: "0 < p"
    using floorlog_bounds [of "nat a" 2] assms by (simp_all add: p_def floorlog_def)
  have i: "of_int a = (of_nat (nat a) :: rat)" using assms by simp
  have "2 powi (int p - 1) = (2 :: rat) ^ (p - 1)"
    using p by (metis power_int_of_nat of_nat_1 of_nat_diff Suc_leI One_nat_def)
  also have "\<dots> \<le> of_int a"
    using b(1) unfolding i by (metis of_nat_le_iff of_nat_numeral of_nat_power)
  finally show "2 powi (int (floorlog 2 (nat a)) - 1) \<le> (of_int a :: rat)" by (simp add: p_def)
  show "(of_int a :: rat) < 2 powi int (floorlog 2 (nat a))"
    using b(2) unfolding i power_int_of_nat p_def [symmetric]
    by (metis of_nat_less_iff of_nat_numeral of_nat_power)
qed

lemma expo_bounds:
  assumes "0 < x"
  shows "2 powi expo x \<le> x \<and> x < 2 powi (expo x + 1)"
proof -
  obtain a b where ab: "quotient_of x = (a, b)" by (cases "quotient_of x")
  then have x: "x = of_int a / of_int b" and b: "0 < b"
    using quotient_of_div quotient_of_denom_pos by auto
  with assms have a: "0 < a" by (simp add: zero_less_divide_iff)
  define p where "p = int (floorlog 2 (nat a))"
  define q where "q = int (floorlog 2 (nat b))"
  note A = floorlog_powi [OF a, folded p_def] and B = floorlog_powi [OF b, folded q_def]
  have pos: "0 < (of_int b :: rat)" "(0 :: rat) < 2 powi q" using b by simp_all
  have "2 powi (p - 1) / 2 powi q \<le> of_int a / (of_int b :: rat)"
    using A(1) B(2) pos a by (intro frac_le) (simp_all add: less_imp_le)
  then have lo: "2 powi (p - q - 1) \<le> x"
    by (simp add: x power_int_diff power_int_add algebra_simps)
  have "of_int a / of_int b < (2 powi p / 2 powi (q - 1) :: rat)"
    using A(2) B(1) a by (intro frac_less) (simp_all add: less_imp_le)
  then have hi: "x < 2 powi (p - q + 1)"
    by (simp add: x power_int_diff power_int_add algebra_simps)
  show ?thesis
    using lo hi by (auto simp: expo_def ab p_def [symmetric] q_def [symmetric] Let_def not_less)
qed

lemma fl_0 [simp]: "fl 0 = 0"
  by (simp add: fl_def)

lemma fl_minus: "fl (- x) = - fl x"
  by (simp add: fl_def Let_def)

text \<open>The rounding error is at most half a unit in the last of 53 places.\<close>

lemma fl_err: "\<bar>fl x - x\<bar> \<le> \<bar>x\<bar> / 2 ^ 53"
proof (cases "x = 0")
  case False
  define y e where "y = \<bar>x\<bar>" and "e = expo \<bar>x\<bar>"
  have y: "0 < y" "2 powi e \<le> y" using False expo_bounds [of "\<bar>x\<bar>"] by (simp_all add: y_def e_def)
  let ?r = "of_int (rne (y * 2 powi (52 - e))) :: rat"
  have inv: "2 powi (52 - e) * 2 powi (e - 52) = (1 :: rat)"
    by (simp flip: power_int_add)
  have sx: "x = sgn x * y" by (simp add: y_def sgn_mult_abs)
  have "?r * 2 powi (e - 52) - y = (?r - y * 2 powi (52 - e)) * 2 powi (e - 52)"
    using inv by (simp add: left_diff_distrib mult.assoc)
  then have "\<bar>?r * 2 powi (e - 52) - y\<bar> = \<bar>?r - y * 2 powi (52 - e)\<bar> * 2 powi (e - 52)"
    by (simp add: abs_mult)
  also have "\<dots> \<le> 1 / 2 * 2 powi (e - 52)"
    by (intro mult_right_mono rne_err) simp
  also have "\<dots> = 2 powi e / 2 ^ 53" by (simp add: power_int_diff)
  also have "\<dots> \<le> y / 2 ^ 53" using y by (simp add: divide_right_mono)
  finally have "\<bar>?r * 2 powi (e - 52) - y\<bar> \<le> y / 2 ^ 53" .
  moreover have "fl x - x = sgn x * (?r * 2 powi (e - 52) - y)"
    using False sx by (simp add: fl_def y_def e_def Let_def right_diff_distrib)
  ultimately show ?thesis using False by (simp add: abs_mult y_def abs_sgn_eq)
qed simp

text \<open>Integers of at most 53 bits are doubles.\<close>

lemma fl_of_int: "\<bar>z\<bar> < 2 ^ 53 \<Longrightarrow> fl (of_int z) = of_int z"
proof (cases "z = 0")
  case False
  assume z: "\<bar>z\<bar> < 2 ^ 53"
  define y :: rat and e where "y = of_int \<bar>z\<bar>" and "e = expo (of_int \<bar>z\<bar>)"
  have y: "1 \<le> y" "y < 2 ^ 53" "2 powi e \<le> y" "y < 2 powi (e + 1)"
    using False z expo_bounds [of "of_int \<bar>z\<bar>"] by (auto simp: y_def e_def simp flip: of_int_abs)
  have "0 \<le> e"
    using y(1,4) power_int_increasing [of "e + 1" 0 "2 :: rat"] by (cases "0 \<le> e") auto
  moreover have "e \<le> 52"
    using y(2,3) power_int_increasing [of 53 e "2 :: rat"] by (cases "e \<le> 52") auto
  ultimately have e: "0 \<le> e" "e \<le> 52" .
  then have "y * 2 powi (52 - e) = of_int (\<bar>z\<bar> * 2 ^ nat (52 - e))"
    by (simp add: y_def power_int_def)
  then have "of_int (rne (y * 2 powi (52 - e))) = y * 2 powi (52 - e)"
    by (metis rne_of_int)
  then have "of_int (rne (y * 2 powi (52 - e))) * 2 powi (e - 52) = y"
    by (simp add: mult.assoc flip: power_int_add)
  then show ?thesis using False
    by (simp add: fl_def y_def e_def Let_def) (metis sgn_mult_abs of_int_abs)
qed simp

text \<open>A value within a quarter of a unit in the last place of an integer rounds to it.\<close>

lemma rne_unique:
  assumes "\<bar>x - of_int k\<bar> < 1 / 2"
  shows "rne x = k"
proof -
  have d: "x - of_int k < 1 / 2" "of_int k - x < 1 / 2" using assms by linarith+
  show ?thesis
  proof (cases "of_int k \<le> x")
    case True
    with d have "\<lfloor>x\<rfloor> = k" by (intro floor_unique) linarith+
    with d show ?thesis by (simp add: rne_def Let_def)
  next
    case False
    with d have f: "\<lfloor>x\<rfloor> = k - 1" by (intro floor_unique) (simp_all, linarith?)
    have "1 / 2 < x - (of_int k - 1)" using d by linarith
    then have "1 / 2 < x - of_int (k - 1)" by simp
    then show ?thesis unfolding rne_def f Let_def by simp
  qed
qed

lemma fl_near_int:
  assumes x: "0 < x" "x < 2 ^ 52" and k: "\<bar>x - of_int k\<bar> * 2 ^ 54 < x"
  shows "fl x = of_int k"
proof -
  define e P Q where "e = expo x" and "P = (2 powi (52 - e) :: rat)" and "Q = (2 powi (e - 52) :: rat)"
  have b: "2 powi e \<le> x" "x < 2 powi (e + 1)" using expo_bounds [of x] x by (simp_all add: e_def)
  have "e \<le> 52"
    using x(2) b(1) power_int_increasing [of 53 e "2 :: rat"] by (cases "e \<le> 52") auto
  then have P: "P = of_int (2 ^ nat (52 - e))" by (simp add: P_def power_int_def)
  have PQ: "P * Q = 1" by (simp add: P_def Q_def flip: power_int_add)
  have "\<bar>x * P - of_int k * P\<bar> * 2 ^ 54 = \<bar>x - of_int k\<bar> * 2 ^ 54 * P"
    by (simp add: P_def abs_mult flip: left_diff_distrib)
  also have "\<dots> < 2 powi (e + 1) * P"
    using k b(2) by (intro mult_strict_right_mono) (simp_all add: P_def)
  also have "\<dots> = 2 ^ 53" by (simp add: P_def flip: power_int_add)
  finally have "\<bar>x * P - of_int (k * 2 ^ nat (52 - e))\<bar> < 1 / 2" by (simp add: P)
  then have "rne (x * P) = k * 2 ^ nat (52 - e)" by (rule rne_unique)
  then have "of_int (rne (x * P)) = of_int k * P" by (simp add: P)
  then have "of_int (rne (x * P)) * Q = of_int k * (P * Q)" by simp
  then show ?thesis using x PQ by (simp add: fl_def e_def P_def Q_def Let_def)
qed

text \<open>Rounding is monotone.\<close>

lemma rne_mono: "x \<le> y \<Longrightarrow> rne x \<le> rne y"
proof (rule ccontr)
  assume xy: "x \<le> y" and "\<not> rne x \<le> rne y"
  then have "rne y + 1 \<le> rne x" by simp
  then have r: "of_int (rne y) + 1 \<le> (of_int (rne x) :: rat)" by (metis of_int_1 of_int_add of_int_le_iff)
  have "\<bar>of_int (rne x) - x\<bar> \<le> 1 / 2" "\<bar>of_int (rne y) - y\<bar> \<le> 1 / 2" by (rule rne_err)+
  with r xy have e: "x = y" "of_int (rne x) = of_int (rne y) + (1 :: rat)" by linarith+
  then show False by simp
qed

lemma expo_mono:
  assumes "0 < x" "x \<le> y"
  shows "expo x \<le> expo y"
proof (rule ccontr)
  assume "\<not> expo x \<le> expo y"
  then have "(2 :: rat) powi (expo y + 1) \<le> 2 powi expo x" by (intro power_int_increasing) simp_all
  then show False using expo_bounds [of x] expo_bounds [of y] assms by simp
qed

lemma fl_pos_mono:
  assumes "0 < x" "x \<le> y"
  shows "fl x \<le> fl y"
proof -
  define r where "r = (\<lambda>z e. of_int (rne (z * 2 powi (52 - e))) * 2 powi (e - 52) :: rat)"
  have f: "fl z = r z (expo z)" if "0 < z" for z using that by (simp add: fl_def r_def Let_def)
  have pw: "of_int (2 ^ 53) = (2 :: rat) powi 53" "of_int (2 ^ 52) = (2 :: rat) powi 52" by simp_all
  show ?thesis
  proof (cases "expo x = expo y")
    case True
    have "rne (x * 2 powi (52 - expo y)) \<le> rne (y * 2 powi (52 - expo y))"
      using assms by (intro rne_mono mult_right_mono) simp_all
    then show ?thesis using assms True by (simp add: f r_def)
  next
    case False
    then have e: "expo x + 1 \<le> expo y" using expo_mono [OF assms] by simp
    have "x * 2 powi (52 - expo x) \<le> 2 powi (expo x + 1) * 2 powi (52 - expo x)"
      using expo_bounds [OF assms(1)] by (intro mult_right_mono) simp_all
    also have "\<dots> = of_int (2 ^ 53)" unfolding pw(1) by (simp flip: power_int_add)
    finally have "rne (x * 2 powi (52 - expo x)) \<le> 2 ^ 53" using rne_mono rne_of_int by metis
    then have "of_int (rne (x * 2 powi (52 - expo x))) \<le> (of_int (2 ^ 53) :: rat)" by (simp only: of_int_le_iff)
    then have "fl x \<le> of_int (2 ^ 53) * 2 powi (expo x - 52)"
      unfolding f [OF assms(1)] r_def by (intro mult_right_mono) simp_all
    also have "\<dots> = 2 powi (expo x + 1)"
      unfolding pw(1) by (subst power_int_add [symmetric]) (simp_all add: add.commute)
    also have "\<dots> \<le> 2 powi expo y" using e by (intro power_int_increasing) simp_all
    also have "\<dots> = of_int (2 ^ 52) * 2 powi (expo y - 52)"
      unfolding pw(2) by (subst power_int_add [symmetric]) (simp_all add: add.commute)
    also have "\<dots> \<le> fl y"
    proof -
      have "of_int (2 ^ 52) = 2 powi expo y * (2 powi (52 - expo y) :: rat)" unfolding pw(2) by (simp flip: power_int_add)
      also have "\<dots> \<le> y * 2 powi (52 - expo y)"
        using expo_bounds [of y] assms by (intro mult_right_mono) simp_all
      finally have "2 ^ 52 \<le> rne (y * 2 powi (52 - expo y))" using rne_mono rne_of_int by metis
      then have "(of_int (2 ^ 52) :: rat) \<le> of_int (rne (y * 2 powi (52 - expo y)))" by (simp only: of_int_le_iff)
      then show ?thesis using assms unfolding r_def by (subst f) (auto simp: r_def intro!: mult_right_mono)
    qed
    finally show ?thesis .
  qed
qed

lemma fl_mono: "0 \<le> x \<Longrightarrow> x \<le> y \<Longrightarrow> fl x \<le> fl y"
proof (cases "x = 0")
  case True
  have "0 \<le> fl z" if "0 \<le> z" for z
  proof -
    have "0 \<le> rne (z * 2 powi (52 - expo z))" using rne_mono [of 0 "z * 2 powi (52 - expo z)"] rne_of_int [of 0] that by simp
    then show ?thesis using that by (auto simp: fl_def Let_def sgn_if)
  qed
  then show "0 \<le> x \<Longrightarrow> x \<le> y \<Longrightarrow> fl x \<le> fl y" using True by simp
qed (simp add: fl_pos_mono)

section \<open>Conversions\<close>

text \<open>The truncating conversion \<open>int(x)\<close>, for values in the range of \<open>int\<close>.\<close>

definition trunc :: "rat \<Rightarrow> int" where
  "trunc x = (if 0 \<le> x then \<lfloor>x\<rfloor> else \<lceil>x\<rceil>)"

text \<open>\<open>math.Round\<close>: to the nearest integer, halves away from zero. The result is exact.\<close>

definition math_Round :: "rat \<Rightarrow> int" where
  "math_Round x = (if 0 \<le> x then \<lfloor>x + 1 / 2\<rfloor> else \<lceil>x - 1 / 2\<rceil>)"

text \<open>
  \<open>Duration.Seconds\<close>: whole seconds and the remaining nanoseconds are converted apart and
  added in floating point.
\<close>

definition Seconds :: "int \<Rightarrow> rat" where
  "Seconds d = fl (fl (of_int (d sdiv 1000000000)) +
                   fl (fl (of_int (d smod 1000000000)) / 1000000000))"

lemma trunc_of_int [simp]: "trunc (of_int z) = z"
  by (simp add: trunc_def)

lemma math_Round_of_int [simp]: "math_Round (of_int z) = z"
proof -
  have "\<lfloor>of_int z + 1 / 2 :: rat\<rfloor> = z" "\<lceil>of_int z - 1 / 2 :: rat\<rceil> = z"
    by (simp_all add: floor_eq_iff ceiling_eq_iff)
  then show ?thesis by (simp add: math_Round_def)
qed

lemma math_Round_small: "0 \<le> x \<Longrightarrow> x < 1 / 2 \<Longrightarrow> math_Round x = 0"
  by (simp add: math_Round_def floor_eq_iff)

lemma whole_sdiv_smod:
  "(s * 1000000000) sdiv 1000000000 = (s :: int)" "(s * 1000000000) smod 1000000000 = (0 :: int)"
proof -
  show d: "(s * 1000000000) sdiv 1000000000 = s"
    by (simp add: signed_divide_int_def abs_mult sgn_mult sgn_mult_abs)
  show "(s * 1000000000) smod 1000000000 = 0"
    using d by (simp add: signed_modulo_int_def)
qed

lemma trunc_Seconds_whole: "\<bar>s\<bar> < 2 ^ 53 \<Longrightarrow> trunc (Seconds (s * 1000000000)) = s"
  by (simp add: Seconds_def whole_sdiv_smod fl_of_int)

text \<open>A double near a hundredth of an integer that is no integer has the same integer part.\<close>

lemma floor_near_hundredths:
  assumes "\<bar>x - of_int m / 100\<bar> < 1 / 100" and "m mod 100 \<noteq> 0"
  shows "\<lfloor>x :: rat\<rfloor> = m div 100"
proof -
  define q r where "q = m div 100" and "r = m mod 100"
  have "0 \<le> r" "r < 100" by (simp_all add: r_def)
  with assms(2) have r: "1 \<le> r" "r \<le> 99" by (simp_all add: r_def)
  have "m = 100 * q + r" by (simp add: q_def r_def)
  then have m: "of_int m / 100 = (of_int q + of_int r / 100 :: rat)" by simp
  have "(1 :: rat) \<le> of_int r" "of_int r \<le> (99 :: rat)" using r by simp_all
  with assms(1) have "of_int q \<le> x \<and> x < of_int q + 1"
    unfolding m abs_less_iff by linarith
  then have "\<lfloor>x\<rfloor> = q" by (simp add: floor_eq_iff)
  then show ?thesis by (simp add: q_def)
qed

end
