(* ===== verification/Sandbox.thy ===== *)
theory Sandbox
  imports Go_Float Go_Strings
begin

text \<open>
  \<open>internal/sandbox/sandbox.go\<close>: one sandboxed process. \<open>sandbox_Run\<close> builds the nsjail
  command line, runs it with bounded capture of both output streams, and classifies how the
  process ended. The process itself (\<open>os/exec\<close> starting nsjail, and the kernel) is the
  argument \<open>proc\<close>: from the invocation and the state \<open>'w\<close> of the outside world it yields
  what was written, how long it took, how it ended, and the world afterwards.

  A context is represented by the timeouts nested in it, innermost first.

  The locale \<open>byte_sink\<close> is the contract of an \<open>io.Writer\<close> that never makes its client stop
  early; \<open>cappedBuffer\<close> satisfies it.
\<close>

section \<open>Data\<close>

record run_spec =
  sp_NsjailPath :: string
  sp_Cwd :: string
  sp_Command :: string
  sp_Args :: "string list"
  sp_Stdin :: string
  sp_WallTime :: int
  sp_MemoryKB :: int
  sp_MaxProcesses :: int
  sp_MaxOutput :: int
  sp_UID :: int
  sp_GID :: int

record sb_result =
  rs_Stdout :: string
  rs_Stderr :: string
  rs_ExitCode :: int
  rs_Signal :: string
  rs_Duration :: int
  rs_MaxRSSKB :: int
  rs_TimedOut :: bool
  rs_OOMKilled :: bool
  rs_OutputCapped :: bool

definition zero_result :: sb_result where
  "zero_result = \<lparr>rs_Stdout = [], rs_Stderr = [], rs_ExitCode = 0, rs_Signal = [], rs_Duration = 0,
     rs_MaxRSSKB = 0, rs_TimedOut = False, rs_OOMKilled = False, rs_OutputCapped = False\<rparr>"

datatype sandbox_error = EmptyNsjailPath | EmptyCommand | NsjailExec string

definition exitSIGKILL :: int where "exitSIGKILL = 128 + 9"
definition exitSIGABRT :: int where "exitSIGABRT = 128 + 6"
definition exitSIGSEGV :: int where "exitSIGSEGV = 128 + 11"
definition exitSIGXCPU :: int where "exitSIGXCPU = 128 + 24"

section \<open>The capped buffer\<close>

record capped_buffer =
  cb_max :: int
  cb_buf :: string
  cb_capped :: bool

definition cb_Write :: "string \<Rightarrow> capped_buffer \<Rightarrow> int \<times> capped_buffer" where
  "cb_Write p c =
     (if cb_max c \<le> 0 then (int (length p), c\<lparr>cb_buf := cb_buf c @ p\<rparr>)
      else let remaining = cb_max c - int (length (cb_buf c)) in
        if remaining \<le> 0 then (int (length p), c\<lparr>cb_capped := True\<rparr>)
        else if remaining < int (length p)
        then (int (length p), c\<lparr>cb_capped := True, cb_buf := cb_buf c @ take (nat remaining) p\<rparr>)
        else (int (length p), c\<lparr>cb_buf := cb_buf c @ p\<rparr>))"

definition cb_Bytes :: "capped_buffer \<Rightarrow> string" where
  "cb_Bytes c = cb_buf c"

definition new_capped :: "int \<Rightarrow> capped_buffer" where
  "new_capped mx = \<lparr>cb_max = mx, cb_buf = [], cb_capped = False\<rparr>"

text \<open>
  How \<open>os/exec\<close> drains a pipe into a writer (\<open>io.Copy\<close>): chunk by chunk, giving up at the
  first short write.
\<close>

fun drain :: "(string \<Rightarrow> 'b \<Rightarrow> int \<times> 'b) \<Rightarrow> string list \<Rightarrow> 'b \<Rightarrow> 'b" where
  "drain write [] b = b"
| "drain write (p # ps) b =
     (case write p b of (n, b') \<Rightarrow> if n = int (length p) then drain write ps b' else b')"

text \<open>
  A sink accepts every byte, whatever it keeps of them; what it keeps is the clipped
  concatenation of all that was written.
\<close>

locale byte_sink =
  fixes sink_write :: "string \<Rightarrow> 'b \<Rightarrow> int \<times> 'b"
    and contents :: "'b \<Rightarrow> string"
    and clip :: "'b \<Rightarrow> string \<Rightarrow> string"
    and inv :: "'b \<Rightarrow> bool"
  assumes accepts: "fst (sink_write p b) = int (length p)"
    and contents_write: "inv b \<Longrightarrow> contents (snd (sink_write p b)) = clip b (contents b @ p)"
    and clip_write: "clip (snd (sink_write p b)) = clip b"
    and clip_clip: "clip b (clip b x @ y) = clip b (x @ y)"
    and inv_write: "inv b \<Longrightarrow> inv (snd (sink_write p b))"
    and clip_contents: "inv b \<Longrightarrow> clip b (contents b) = contents b"
begin

lemma drain_Cons: "drain sink_write (p # ps) b = drain sink_write ps (snd (sink_write p b))"
  using accepts [of p b] by (cases "sink_write p b") simp

lemma inv_drain: "inv b \<Longrightarrow> inv (drain sink_write ps b)"
  by (induction ps arbitrary: b) (simp_all add: drain_Cons inv_write del: drain.simps(2))

lemma contents_drain: "inv b \<Longrightarrow> contents (drain sink_write ps b) = clip b (contents b @ concat ps)"
proof (induction ps arbitrary: b)
  case Nil
  then show ?case by (simp add: clip_contents)
next
  case (Cons p ps)
  let ?b = "snd (sink_write p b)"
  have "contents (drain sink_write (p # ps) b) = clip ?b (contents ?b @ concat ps)"
    unfolding drain_Cons by (rule Cons.IH) (rule inv_write [OF Cons.prems])
  also have "\<dots> = clip b (contents b @ concat (p # ps))"
    by (simp add: clip_write contents_write [OF Cons.prems] clip_clip)
  finally show ?case .
qed

end

definition cb_clip :: "capped_buffer \<Rightarrow> string \<Rightarrow> string" where
  "cb_clip c x = (if cb_max c \<le> 0 then x else take (nat (cb_max c)) x)"

definition cb_ok :: "capped_buffer \<Rightarrow> bool" where
  "cb_ok c \<longleftrightarrow> cb_max c \<le> 0 \<or> int (length (cb_buf c)) \<le> cb_max c"

lemma cb_Write_accepts: "fst (cb_Write p c) = int (length p)"
  by (simp add: cb_Write_def Let_def)

lemma cb_Write_max [simp]: "cb_max (snd (cb_Write p c)) = cb_max c"
  by (simp add: cb_Write_def Let_def)

lemma cb_Write_contents: "cb_ok c \<Longrightarrow> cb_Bytes (snd (cb_Write p c)) = cb_clip c (cb_Bytes c @ p)"
  by (auto simp: cb_Write_def cb_Bytes_def cb_clip_def cb_ok_def Let_def nat_diff_distrib)

lemma cb_Write_ok: "cb_ok c \<Longrightarrow> cb_ok (snd (cb_Write p c))"
  by (auto simp: cb_Write_def cb_ok_def Let_def)

interpretation capped: byte_sink cb_Write cb_Bytes cb_clip cb_ok
proof unfold_locales
  show "cb_clip b (cb_clip b x @ y) = cb_clip b (x @ y)" for b x y
    using take_append_take [of "nat (cb_max b)" x y] by (simp add: cb_clip_def del: take_append)
  show "cb_ok b \<Longrightarrow> cb_clip b (cb_Bytes b) = cb_Bytes b" for b
    by (auto simp: cb_clip_def cb_ok_def cb_Bytes_def)
  show "cb_clip (snd (cb_Write p b)) = cb_clip b" for p b
    by (simp add: cb_clip_def fun_eq_iff)
qed (fact cb_Write_accepts cb_Write_contents cb_Write_ok)+

lemma new_capped_ok [simp]: "cb_ok (new_capped m)" and new_capped_Bytes [simp]: "cb_Bytes (new_capped m) = []"
  by (simp_all add: cb_ok_def new_capped_def cb_Bytes_def linear)

lemma drain_Bytes:
  "cb_Bytes (drain cb_Write ps (new_capped m)) = (if m \<le> 0 then concat ps else take (nat m) (concat ps))"
  using capped.contents_drain [OF new_capped_ok, of ps m]
  by (simp add: cb_clip_def) (simp add: new_capped_def)

text \<open>The flag records exactly whether bytes were dropped; a pipe delivers no empty chunk.\<close>

lemma drain_capped_flag:
  assumes "\<forall>p \<in> set ps. p \<noteq> []"
  shows "cb_ok c \<Longrightarrow> cb_capped (drain cb_Write ps c) \<longleftrightarrow>
    cb_capped c \<or> (0 < cb_max c \<and> cb_max c < int (length (cb_buf c) + length (concat ps)))"
  using assms
proof (induction ps arbitrary: c)
  case Nil
  then show ?case by (auto simp: cb_ok_def)
next
  case (Cons p ps)
  let ?c = "snd (cb_Write p c)"
  have p: "1 \<le> int (length p)" using Cons.prems(2) by (cases p) simp_all
  have "cb_capped (drain cb_Write (p # ps) c) \<longleftrightarrow>
      cb_capped ?c \<or> (0 < cb_max c \<and> cb_max c < int (length (cb_buf ?c) + length (concat ps)))"
    unfolding capped.drain_Cons using Cons.IH [OF cb_Write_ok [OF Cons.prems(1)]] Cons.prems(2) by simp
  also have "\<dots> \<longleftrightarrow> cb_capped c \<or> (0 < cb_max c \<and> cb_max c < int (length (cb_buf c) + length (concat (p # ps))))"
    using Cons.prems(1) p by (auto simp: cb_Write_def cb_ok_def Let_def)
  finally show ?case .
qed

lemma new_capped_flag:
  "\<forall>p \<in> set ps. p \<noteq> [] \<Longrightarrow> cb_capped (drain cb_Write ps (new_capped m)) \<longleftrightarrow>
     0 < m \<and> m < int (length (concat ps))"
  using drain_capped_flag [of ps "new_capped m"] new_capped_ok by (simp add: new_capped_def)

section \<open>The nsjail command line\<close>

definition ns_opts :: "run_spec \<Rightarrow> string list" where
  "ns_opts sp = [
     ''--mode'', ''once'',
     ''--really_quiet'',
     ''--log'', ''/dev/null'',
     ''--chroot'', ''/'',
     ''--cwd'', ''/sandbox'',
     ''--bindmount'', sp_Cwd sp @ '':/sandbox'',
     ''--disable_clone_newuser'',
     ''--user'', Itoa (sp_UID sp),
     ''--group'', Itoa (sp_GID sp),
     ''--hostname'', ''goboxd'',
     ''--disable_proc'',
     ''--iface_no_lo'',
     ''--rlimit_as'', Itoa (sp_MemoryKB sp sdiv 1024),
     ''--env'', ''PATH=/usr/local/sbin:/usr/local/bin:/usr/sbin:/usr/bin:/sbin:/bin'',
     ''--env'', ''TMPDIR=/sandbox'',
     ''--env'', ''HOME=/sandbox'',
     ''--env'', ''LANG=C.UTF-8'',
     ''--rlimit_cpu'', Itoa (wrap64 (trunc (Seconds (sp_WallTime sp)) + 1)),
     ''--rlimit_fsize'', ''65536'',
     ''--rlimit_nofile'', ''64'',
     ''--rlimit_nproc'', Itoa (sp_MaxProcesses sp),
     ''--time_limit'', Itoa (trunc (Seconds (sp_WallTime sp)))]"

definition ns_args :: "run_spec \<Rightarrow> string list" where
  "ns_args sp = ns_opts sp @ [''--'', sp_Command sp] @ sp_Args sp"

section \<open>Running the process\<close>

text \<open>
  What \<open>cmd.Run\<close> is given, and what comes of it: the chunks written to each stream, the
  elapsed time, the child's peak memory when the kernel reports it, whether the hard deadline
  had passed, and the error: an exit status (with the signal's number and name when the child
  was signalled) or a failure to run the command at all.
\<close>

record invocation =
  iv_path :: string
  iv_args :: "string list"
  iv_stdin :: "string option"
  iv_timeouts :: "int list"

datatype cmd_error = ExitError int "(int \<times> string) option" | CmdFailure string

record proc_outcome =
  po_stdout :: "string list"
  po_stderr :: "string list"
  po_elapsed :: int
  po_maxrss :: "int option"
  po_deadline :: bool
  po_err :: "cmd_error option"

definition classifyExit :: "sb_result \<Rightarrow> run_spec \<Rightarrow> (int \<times> string) option \<Rightarrow> int \<Rightarrow> sb_result" where
  "classifyExit res sp sig elapsed =
     (let res = (case sig of
          Some (n, name) \<Rightarrow> res\<lparr>rs_Signal := name, rs_ExitCode := 128 + n\<rparr>
        | None \<Rightarrow> res)
      in if rs_ExitCode res = exitSIGKILL then
           (if elapsed \<ge> wrap64 (sp_WallTime sp - 100 * Millisecond) then res\<lparr>rs_TimedOut := True\<rparr>
            else res\<lparr>rs_OOMKilled := True\<rparr>)
         else if rs_ExitCode res = exitSIGXCPU then res\<lparr>rs_TimedOut := True\<rparr>
         else res)"

definition make_invocation :: "int list \<Rightarrow> run_spec \<Rightarrow> invocation" where
  "make_invocation ctx sp =
     \<lparr>iv_path = sp_NsjailPath sp, iv_args = ns_args sp,
      iv_stdin = (if sp_Stdin sp = [] then None else Some (sp_Stdin sp)),
      iv_timeouts = wrap64 (sp_WallTime sp + 2 * Second) # ctx\<rparr>"

definition finish_run :: "run_spec \<Rightarrow> proc_outcome \<Rightarrow> sb_result \<times> sandbox_error option" where
  "finish_run sp o' =
     (let outBuf = drain cb_Write (po_stdout o') (new_capped (sp_MaxOutput sp));
          errBuf = drain cb_Write (po_stderr o') (new_capped (sp_MaxOutput sp));
          res = zero_result\<lparr>rs_Stdout := cb_Bytes outBuf, rs_Stderr := cb_Bytes errBuf,
                  rs_Duration := po_elapsed o',
                  rs_OutputCapped := (cb_capped outBuf \<or> cb_capped errBuf)\<rparr>;
          res = (case po_maxrss o' of Some m \<Rightarrow> res\<lparr>rs_MaxRSSKB := m\<rparr> | None \<Rightarrow> res);
          res = (if po_deadline o' then res\<lparr>rs_TimedOut := True\<rparr> else res)
      in case po_err o' of
           None \<Rightarrow> (res, None)
         | Some (CmdFailure msg) \<Rightarrow> (res, Some (NsjailExec msg))
         | Some (ExitError code sig) \<Rightarrow>
             (classifyExit (res\<lparr>rs_ExitCode := code\<rparr>) sp sig (po_elapsed o'), None))"

definition sandbox_Run ::
  "(invocation \<Rightarrow> 'w \<Rightarrow> proc_outcome \<times> 'w) \<Rightarrow> int list \<Rightarrow> run_spec \<Rightarrow> 'w \<Rightarrow>
   (sb_result \<times> sandbox_error option) \<times> 'w" where
  "sandbox_Run proc ctx sp w =
     (if sp_NsjailPath sp = [] then ((zero_result, Some EmptyNsjailPath), w)
      else if sp_Command sp = [] then ((zero_result, Some EmptyCommand), w)
      else case proc (make_invocation ctx sp) w of (o', w') \<Rightarrow> (finish_run sp o', w'))"

section \<open>Facts about a run\<close>

lemma ns_opts_no_dashes: "''--'' \<notin> set (ns_opts sp)"
proof -
  have "sp_Cwd sp @ '':/sandbox'' \<noteq> ''--''"
  proof
    assume "sp_Cwd sp @ '':/sandbox'' = ''--''"
    then have "length (sp_Cwd sp @ '':/sandbox'') = length ''--''" by (rule arg_cong)
    then show False by simp
  qed
  moreover have "Itoa n \<noteq> ''--''" for n using Itoa_neq_dashes [of n "[]"] by simp
  ultimately show ?thesis by (simp add: ns_opts_def del: append_Cons) (metis)
qed

text \<open>The exit status the program sees: 128 plus the signal for a signalled child.\<close>

fun final_code :: "cmd_error option \<Rightarrow> int" where
  "final_code (Some (ExitError c (Some (n, name)))) = 128 + n"
| "final_code (Some (ExitError c None)) = c"
| "final_code _ = 0"

definition is_exit :: "cmd_error option \<Rightarrow> bool" where
  "is_exit e \<longleftrightarrow> (case e of Some (ExitError _ _) \<Rightarrow> True | _ \<Rightarrow> False)"

definition killed_late :: "run_spec \<Rightarrow> proc_outcome \<Rightarrow> bool" where
  "killed_late sp o' \<longleftrightarrow> wrap64 (sp_WallTime sp - 100000000) \<le> po_elapsed o'"

lemmas finish_defs = finish_run_def classifyExit_def zero_result_def exitSIGKILL_def exitSIGXCPU_def
  is_exit_def killed_late_def

lemma finish_run_err:
  "snd (finish_run sp o') = (case po_err o' of Some (CmdFailure m) \<Rightarrow> Some (NsjailExec m) | _ \<Rightarrow> None)"
  by (simp add: finish_run_def Let_def split: option.split cmd_error.split)

lemma finish_run_flags:
  "rs_TimedOut (fst (finish_run sp o')) \<longleftrightarrow> po_deadline o' \<or> is_exit (po_err o') \<and>
     (final_code (po_err o') = 152 \<or> final_code (po_err o') = 137 \<and> killed_late sp o')"
  "rs_OOMKilled (fst (finish_run sp o')) \<longleftrightarrow> is_exit (po_err o') \<and>
     final_code (po_err o') = 137 \<and> \<not> killed_late sp o'"
  "rs_ExitCode (fst (finish_run sp o')) = final_code (po_err o')"
  by (cases "po_err o'" rule: final_code.cases; auto simp: finish_defs Let_def split: option.splits)+

lemma finish_run_output:
  "rs_Stdout (fst (finish_run sp o')) = cb_Bytes (drain cb_Write (po_stdout o') (new_capped (sp_MaxOutput sp)))"
  "rs_Stderr (fst (finish_run sp o')) = cb_Bytes (drain cb_Write (po_stderr o') (new_capped (sp_MaxOutput sp)))"
  "rs_OutputCapped (fst (finish_run sp o')) \<longleftrightarrow>
     cb_capped (drain cb_Write (po_stdout o') (new_capped (sp_MaxOutput sp))) \<or>
     cb_capped (drain cb_Write (po_stderr o') (new_capped (sp_MaxOutput sp)))"
  by (cases "po_err o'" rule: final_code.cases; auto simp: finish_defs Let_def split: option.splits)+

section \<open>Properties\<close>

text \<open>C27. Nothing of a run specification can be taken for an option of nsjail: the first
  double dash of the command line comes right after the fixed options, and behind it stand
  exactly the command and the arguments, unchanged and one per element.\<close>

theorem nsjail_command_is_separated:
  "takeWhile (\<lambda>a. a \<noteq> ''--'') (ns_args sp) = ns_opts sp \<and>
   dropWhile (\<lambda>a. a \<noteq> ''--'') (ns_args sp) = ''--'' # sp_Command sp # sp_Args sp"
proof -
  have "\<forall>a \<in> set (ns_opts sp). a \<noteq> ''--''" using ns_opts_no_dashes [of sp] by auto
  then show ?thesis
    by (simp add: ns_args_def takeWhile_append2 dropWhile_append2)
qed

text \<open>C25. The captured output is bounded and exact: however the pipe chops it into chunks,
  each stream is the first MaxOutput bytes of all that was written (all of it when MaxOutput is
  not positive), and the flag is set exactly when a byte was dropped.\<close>

theorem captured_output_is_clipped:
  assumes "\<forall>p \<in> set (po_stdout o'). p \<noteq> []" "\<forall>p \<in> set (po_stderr o'). p \<noteq> []"
  shows "rs_Stdout (fst (finish_run sp o')) = (if sp_MaxOutput sp \<le> 0 then concat (po_stdout o')
      else take (nat (sp_MaxOutput sp)) (concat (po_stdout o'))) \<and>
    rs_Stderr (fst (finish_run sp o')) = (if sp_MaxOutput sp \<le> 0 then concat (po_stderr o')
      else take (nat (sp_MaxOutput sp)) (concat (po_stderr o'))) \<and>
    (rs_OutputCapped (fst (finish_run sp o')) \<longleftrightarrow>
      rs_Stdout (fst (finish_run sp o')) \<noteq> concat (po_stdout o') \<or>
      rs_Stderr (fst (finish_run sp o')) \<noteq> concat (po_stderr o'))"
proof -
  have cut: "take (nat m) x \<noteq> x \<longleftrightarrow> m < int (length x)" if "0 < m" for m and x :: string
    using that nat_less_iff [of m "length x"] by (simp add: not_le)
  show ?thesis
    using cut [of "sp_MaxOutput sp"] assms
    by (auto simp: finish_run_output drain_Bytes new_capped_flag)
qed

definition sample_spec :: run_spec where
  "sample_spec = \<lparr>sp_NsjailPath = ''/nsjail'', sp_Cwd = ''/job'', sp_Command = ''/bin/cat'', sp_Args = [],
     sp_Stdin = [], sp_WallTime = 2000000000, sp_MemoryKB = 65536, sp_MaxProcesses = 8, sp_MaxOutput = 3,
     sp_UID = 99999, sp_GID = 99999\<rparr>"

definition sample_outcome :: proc_outcome where
  "sample_outcome = \<lparr>po_stdout = [''ab'', ''cd''], po_stderr = [], po_elapsed = 5000000,
     po_maxrss = Some 900, po_deadline = False, po_err = None\<rparr>"

theorem captured_output_is_clipped_witness:
  "rs_Stdout (fst (finish_run sample_spec sample_outcome)) = ''abc'' \<and>
   rs_OutputCapped (fst (finish_run sample_spec sample_outcome))"
proof -
  have "\<forall>p \<in> set (po_stdout sample_outcome). p \<noteq> []" "\<forall>p \<in> set (po_stderr sample_outcome). p \<noteq> []"
    by (simp_all add: sample_outcome_def)
  from captured_output_is_clipped [OF this, of sample_spec] show ?thesis
    by (simp add: sample_spec_def sample_outcome_def)
qed

text \<open>C26. How the process ended decides the flags: it timed out when the hard deadline passed, on
  the CPU limit's signal, and on a kill no earlier than 100 ms before the wall time; a kill
  before that is put down to memory; the exit code is the child's, or 128 plus the signal; only
  a failure to run the command at all is an error.\<close>

theorem exit_is_classified:
  "(rs_TimedOut (fst (finish_run sp o')) \<longleftrightarrow> po_deadline o' \<or> is_exit (po_err o') \<and>
      (final_code (po_err o') = 128 + 24 \<or>
       final_code (po_err o') = 128 + 9 \<and> wrap64 (sp_WallTime sp - 100 * 1000000) \<le> po_elapsed o')) \<and>
   (rs_OOMKilled (fst (finish_run sp o')) \<longleftrightarrow> is_exit (po_err o') \<and> final_code (po_err o') = 128 + 9 \<and>
      po_elapsed o' < wrap64 (sp_WallTime sp - 100 * 1000000)) \<and>
   rs_ExitCode (fst (finish_run sp o')) = final_code (po_err o') \<and>
   (snd (finish_run sp o') = None \<longleftrightarrow> po_err o' = None \<or> is_exit (po_err o'))"
  by (auto simp: finish_run_flags killed_late_def finish_run_err is_exit_def split: option.splits cmd_error.splits)

end
