(* ===== verification/Stats.thy ===== *)
theory Stats
  imports Go_Float "HOL-Library.Multiset"
begin

text \<open>
  \<open>internal/executor/stats.go\<close>: the request counters and the latency ring behind
  \<open>GET /metrics\<close>. The ring is an array of 1024 durations with a write position and a fill
  level; what it stands for is the list of the last 1024 observations, oldest first
  (\<open>ring_window\<close>). The locale \<open>sliding_window\<close> states that contract; \<open>Observe\<close> refines it,
  and \<open>Snapshot\<close> is shown to report order statistics of that window.

  \<open>ringIdx\<close> and \<open>ringSz\<close>, Go \<open>int\<close>s that are never negative, are \<open>nat\<close>; the three atomic
  counters wrap at 64 bits.
\<close>

section \<open>State and operations\<close>

record stats =
  st_total :: int
  st_rejected :: int
  st_inFlight :: int
  st_ring :: "int list"
  st_ringIdx :: nat
  st_ringSz :: nat

definition ringCap :: nat where "ringCap = 1024"

definition NewStats :: stats where
  "NewStats = \<lparr>st_total = 0, st_rejected = 0, st_inFlight = 0,
     st_ring = replicate ringCap 0, st_ringIdx = 0, st_ringSz = 0\<rparr>"

definition IncInFlight :: "stats \<Rightarrow> stats" where
  "IncInFlight s = s\<lparr>st_total := wrap64 (st_total s + 1), st_inFlight := wrap64 (st_inFlight s + 1)\<rparr>"

definition DecInFlight :: "stats \<Rightarrow> stats" where
  "DecInFlight s = s\<lparr>st_inFlight := wrap64 (st_inFlight s - 1)\<rparr>"

definition IncRejected :: "stats \<Rightarrow> stats" where
  "IncRejected s = s\<lparr>st_rejected := wrap64 (st_rejected s + 1)\<rparr>"

definition Observe :: "int \<Rightarrow> stats \<Rightarrow> stats go" where
  "Observe d s =
     (if st_ringIdx s < length (st_ring s)
      then Ret (s\<lparr>st_ring := (st_ring s)[st_ringIdx s := d],
                  st_ringIdx := (st_ringIdx s + 1) mod ringCap,
                  st_ringSz := (if st_ringSz s < ringCap then st_ringSz s + 1 else st_ringSz s)\<rparr>)
      else Panic IndexOutOfRange)"

record stats_snapshot =
  ss_Total :: int
  ss_Rejected :: int
  ss_InFlight :: int
  ss_MaxConcurrency :: int
  ss_QueueDepth :: int
  ss_Samples :: int
  ss_P50MS :: int
  ss_P95MS :: int
  ss_P99MS :: int
  ss_MaxMS :: int

text \<open>\<open>pIdx\<close> in double arithmetic; a literal such as \<open>0.95\<close> is the double nearest to it.\<close>

definition pIdx :: "int \<Rightarrow> rat \<Rightarrow> int" where
  "pIdx n p = (let i = trunc (fl (fl (of_int n) * p)) in if i \<ge> n then n - 1 else i)"

definition Snapshot :: "int \<Rightarrow> int \<Rightarrow> stats \<Rightarrow> stats_snapshot go" where
  "Snapshot maxConc queue s =
     (let n = st_ringSz s in
      if length (st_ring s) < n then Panic IndexOutOfRange
      else let cp = take n (st_ring s);
        out = \<lparr>ss_Total = st_total s, ss_Rejected = st_rejected s, ss_InFlight = st_inFlight s,
               ss_MaxConcurrency = maxConc, ss_QueueDepth = queue, ss_Samples = int n,
               ss_P50MS = 0, ss_P95MS = 0, ss_P99MS = 0, ss_MaxMS = 0\<rparr>
      in if n = 0 then Ret out
         else let cp = sort cp;
           pick = (\<lambda>p. slice_get cp (nat (pIdx (int n) (fl p))))
         in go_bind (pick (50 / 100)) (\<lambda>p50.
            go_bind (pick (95 / 100)) (\<lambda>p95.
            go_bind (pick (99 / 100)) (\<lambda>p99.
            go_bind (slice_get cp (n - 1)) (\<lambda>mx.
              Ret (out\<lparr>ss_P50MS := Milliseconds p50, ss_P95MS := Milliseconds p95,
                       ss_P99MS := Milliseconds p99, ss_MaxMS := Milliseconds mx\<rparr>))))))"

section \<open>The percentile index\<close>

lemma fl_consts:
  "fl (50 / 100) = 1 / 2"
  "fl (95 / 100) = 4278419646001971 / 4503599627370496"
  "fl (99 / 100) = 4458563631096791 / 4503599627370496"
  by code_simp+

text \<open>
  For at most 1024 samples the double computation is the exact integer one: \<open>c\<close> is \<open>k / 100\<close>
  up to a relative error below \<open>2 ^ -54\<close>, so the product rounds to the integer when
  \<open>n * k / 100\<close> is one and keeps its integer part when it is not.
\<close>

lemma trunc_percent:
  fixes n k :: int
  assumes n: "1 \<le> n" "n \<le> 1024" and k: "50 \<le> k" "k < 100"
    and c: "\<bar>c - of_int k / 100\<bar> * 2 ^ 54 < c"
  shows "trunc (fl (of_int n * c)) = k * n div 100"
proof -
  define x v :: rat where "x = of_int n * c" and "v = of_int (k * n) / 100"
  have "x - v = of_int n * (c - of_int k / 100)" by (simp add: x_def v_def algebra_simps)
  then have "\<bar>x - v\<bar> * 2 ^ 54 = of_int n * (\<bar>c - of_int k / 100\<bar> * 2 ^ 54)"
    using n by (simp add: abs_mult)
  also have "\<dots> < of_int n * c" using c n by (intro mult_strict_left_mono) simp_all
  finally have err: "\<bar>x - v\<bar> * 2 ^ 54 < x" by (simp add: x_def)
  have "50 * n \<le> k * n" "k * n < 100 * n" using n k by (simp_all add: mult_right_mono)
  then have "50 \<le> k * n" "k * n \<le> 102400" using n by linarith+
  then have "50 \<le> (of_int (k * n) :: rat)" "of_int (k * n) \<le> (102400 :: rat)"
    by (metis of_int_le_iff of_int_numeral)+
  then have v: "1 / 2 \<le> v" "v \<le> 1024" by (simp_all add: v_def)
  have x: "0 < x" "x < 2 ^ 11" "\<bar>x - v\<bar> < 1 / 10000"
  proof -
    define t where "t = \<bar>x - v\<bar>"
    have t: "0 \<le> t" "x - v \<le> t" "v - x \<le> t" by (simp_all add: t_def)
    have C: "t * 18014398509481984 < x" using err by (simp add: t_def)
    show "0 < x" using t C by linarith
    have "x < 2048" using t C v by linarith
    then show "x < 2 ^ 11" by simp
    show "\<bar>x - v\<bar> < 1 / 10000" unfolding t_def [symmetric] using \<open>x < 2048\<close> t C by linarith
  qed
  show ?thesis
  proof (cases "k * n mod 100 = 0")
    case True
    then obtain q where "k * n = 100 * q" by auto
    then have "v = of_int q" "k * n div 100 = q" by (simp_all add: v_def)
    then show ?thesis using fl_near_int [of x q] err x by (simp flip: x_def)
  next
    case False
    have "\<bar>x\<bar> / 2 ^ 53 < 1 / 10000" using x(1,2) by simp
    then have "\<bar>fl x - x\<bar> < 1 / 10000" using fl_err [of x] by linarith
    then have "\<bar>fl x - v\<bar> < 1 / 100" "0 \<le> fl x" using x v by linarith+
    with False show ?thesis
      using floor_near_hundredths [of "fl x" "k * n"] by (simp add: trunc_def v_def flip: x_def)
  qed
qed

lemma pIdx_percent:
  assumes "1 \<le> n" "n \<le> 1024"
  shows "pIdx n (fl (50 / 100)) = 50 * n div 100"
    and "pIdx n (fl (95 / 100)) = 95 * n div 100"
    and "pIdx n (fl (99 / 100)) = 99 * n div 100"
proof -
  have f: "fl (of_int n) = of_int n" using assms by (intro fl_of_int) simp
  note t = trunc_percent [OF assms]
  have r: "trunc (fl (of_int n * fl (50 / 100))) = 50 * n div 100"
    "trunc (fl (of_int n * fl (95 / 100))) = 95 * n div 100"
    "trunc (fl (of_int n * fl (99 / 100))) = 99 * n div 100"
    unfolding fl_consts by (rule t; simp)+
  have lt: "k * n div 100 < n" if "k < 100" for k
  proof -
    have "k * n < 100 * n" using that assms by (intro mult_strict_right_mono) simp_all
    moreover have "m < 100 * n \<Longrightarrow> m div 100 < n" for m by presburger
    ultimately show ?thesis by blast
  qed
  have *: "pIdx n c = m" if "trunc (fl (of_int n * c)) = m" "m < n" for c m
    using that by (simp add: pIdx_def f)
  show "pIdx n (fl (50 / 100)) = 50 * n div 100" by (rule * [OF r(1) lt]) simp
  show "pIdx n (fl (95 / 100)) = 95 * n div 100" by (rule * [OF r(2) lt]) simp
  show "pIdx n (fl (99 / 100)) = 99 * n div 100" by (rule * [OF r(3) lt]) simp
qed

section \<open>The sliding window\<close>

text \<open>
  The contract of a bounded log of observations: each one appends to the window, which keeps
  its last \<open>cap\<close> elements.
\<close>

locale sliding_window =
  fixes obs :: "'d \<Rightarrow> 's \<Rightarrow> 's go"
    and window :: "'s \<Rightarrow> 'd list"
    and inv :: "'s \<Rightarrow> bool"
    and cap :: nat
  assumes obs_step: "inv s \<Longrightarrow> \<exists>s'. obs d s = Ret s' \<and> inv s' \<and> window s' = last_n cap (window s @ [d])"
    and window_bound: "inv s \<Longrightarrow> length (window s) \<le> cap"
begin

lemma obs_all:
  "inv s \<Longrightarrow> \<exists>s'. go_fold obs ds s = Ret s' \<and> inv s' \<and> window s' = last_n cap (window s @ ds)"
proof (induction ds arbitrary: s)
  case Nil
  then show ?case using window_bound by simp
next
  case (Cons d ds)
  obtain t where t: "obs d s = Ret t" "inv t" "window t = last_n cap (window s @ [d])"
    using obs_step [OF Cons.prems] by blast
  with Cons.IH [of t] show ?case
    using last_n_append_last_n [of cap "window s @ [d]" ds] by simp
qed

end

definition ring_ok :: "stats \<Rightarrow> bool" where
  "ring_ok s \<longleftrightarrow> length (st_ring s) = ringCap \<and> st_ringIdx s < ringCap \<and> st_ringSz s \<le> ringCap \<and>
     (st_ringSz s < ringCap \<longrightarrow> st_ringIdx s = st_ringSz s)"

definition ring_window :: "stats \<Rightarrow> int list" where
  "ring_window s = (if st_ringSz s < ringCap then take (st_ringSz s) (st_ring s)
     else drop (st_ringIdx s) (st_ring s) @ take (st_ringIdx s) (st_ring s))"

lemma ringCap_pos [simp]: "0 < ringCap"
  by (simp add: ringCap_def)

lemma ring_window_length: "ring_ok s \<Longrightarrow> length (ring_window s) = st_ringSz s"
  by (auto simp: ring_ok_def ring_window_def)

lemma mset_ring_window: "ring_ok s \<Longrightarrow> mset (ring_window s) = mset (take (st_ringSz s) (st_ring s))"
proof -
  assume ok: "ring_ok s"
  have "mset (drop i xs @ take i xs) = mset xs" for i and xs :: "int list"
    by (metis append_take_drop_id mset_append union_commute)
  with ok show ?thesis by (auto simp: ring_ok_def ring_window_def)
qed

lemma take_Suc_update: "i < length xs \<Longrightarrow> take (Suc i) (xs[i := d]) = take i xs @ [d]"
  by (simp add: take_Suc_conv_app_nth)

lemma rotate_update:
  assumes "length xs = c" "i < c"
  shows "drop (Suc i mod c) (xs[i := d]) @ take (Suc i mod c) (xs[i := d]) =
    last_n c ((drop i xs @ take i xs) @ [d])"
proof -
  have tl: "last_n c ((drop i xs @ take i xs) @ [d]) = drop (Suc i) xs @ take i xs @ [d]"
    using assms by (simp add: last_n_def)
  show ?thesis
  proof (cases "Suc i = c")
    case True
    then have "xs[i := d] = take i xs @ [d]" using assms take_Suc_update [of i xs d] by simp
    with True tl assms show ?thesis by simp
  next
    case False
    with assms tl show ?thesis by (simp add: take_Suc_update)
  qed
qed

lemma Observe_step:
  assumes "ring_ok s"
  shows "\<exists>s'. Observe d s = Ret s' \<and> ring_ok s' \<and> ring_window s' = last_n ringCap (ring_window s @ [d])"
proof (cases "st_ringSz s < ringCap")
  case True
  with assms have i: "st_ringIdx s = st_ringSz s" "length (st_ring s) = ringCap"
    by (simp_all add: ring_ok_def)
  have w: "last_n ringCap (ring_window s @ [d]) = take (st_ringSz s) (st_ring s) @ [d]"
    using True i by (simp add: ring_window_def)
  show ?thesis
  proof (cases "Suc (st_ringSz s) < ringCap")
    case below: True
    with True i w show ?thesis
      by (simp add: Observe_def ring_ok_def ring_window_def take_Suc_update)
  next
    case False
    with True have c: "Suc (st_ringSz s) = ringCap" by simp
    then have "(st_ring s)[st_ringSz s := d] = take (st_ringSz s) (st_ring s) @ [d]"
      using i take_Suc_update [of "st_ringSz s" "st_ring s" d] by simp
    with True i w c show ?thesis
      by (simp add: Observe_def ring_ok_def ring_window_def)
  qed
next
  case False
  with assms have "st_ringSz s = ringCap" "length (st_ring s) = ringCap" "st_ringIdx s < ringCap"
    by (simp_all add: ring_ok_def)
  then show ?thesis
    using rotate_update [of "st_ring s" ringCap "st_ringIdx s" d]
    by (simp add: Observe_def ring_ok_def ring_window_def)
qed

lemma ring_window_bound: "ring_ok s \<Longrightarrow> length (ring_window s) \<le> ringCap"
  using ring_window_length [of s] by (simp add: ring_ok_def)

interpretation ring: sliding_window Observe ring_window ring_ok ringCap
  by unfold_locales (fact Observe_step, fact ring_window_bound)

lemma ring_ok_NewStats: "ring_ok NewStats" and ring_window_NewStats: "ring_window NewStats = []"
  by (simp_all add: ring_ok_def ring_window_def NewStats_def)

text \<open>The counters do not touch the ring, and \<open>Observe\<close> does not touch the counters.\<close>

lemma ring_ok_counters [simp]:
  "ring_ok (IncInFlight s) = ring_ok s" "ring_ok (DecInFlight s) = ring_ok s"
  "ring_ok (IncRejected s) = ring_ok s"
  by (simp_all add: ring_ok_def IncInFlight_def DecInFlight_def IncRejected_def)

lemma ring_window_counters [simp]:
  "ring_window (IncInFlight s) = ring_window s" "ring_window (DecInFlight s) = ring_window s"
  "ring_window (IncRejected s) = ring_window s"
  by (simp_all add: ring_window_def IncInFlight_def DecInFlight_def IncRejected_def)

lemma Observe_counters:
  "Observe d s = Ret s' \<Longrightarrow> st_total s' = st_total s \<and> st_rejected s' = st_rejected s \<and>
     st_inFlight s' = st_inFlight s"
  by (auto simp: Observe_def split: if_splits)

lemma fold_counters:
  "go_fold Observe ds s = Ret t \<Longrightarrow> st_total t = st_total s \<and> st_rejected t = st_rejected s \<and>
     st_inFlight t = st_inFlight s"
  by (induction ds arbitrary: s) (auto dest: Observe_counters)

section \<open>Snapshots\<close>

text \<open>The order statistic at \<open>k\<close> percent of a window, in milliseconds.\<close>

definition percentile_ms :: "int \<Rightarrow> int list \<Rightarrow> int" where
  "percentile_ms k w = Milliseconds (sort w ! nat (k * int (length w) div 100))"

lemma nat_percent_less: "0 \<le> k \<Longrightarrow> k < 100 \<Longrightarrow> 0 < n \<Longrightarrow> nat (k * int n div 100) < n"
proof -
  assume k: "0 \<le> k" "k < 100" and n: "0 < n"
  then have "k * int n < 100 * int n" by (intro mult_strict_right_mono) simp_all
  moreover have "m < 100 * int n \<Longrightarrow> m div 100 < int n" for m by presburger
  ultimately have "k * int n div 100 < int n" by blast
  with n show ?thesis by (simp add: nat_less_iff)
qed

lemma Max_sort_last: "w \<noteq> [] \<Longrightarrow> sort w ! (length w - 1) = Max (set w)"
proof -
  assume w: "w \<noteq> []"
  let ?m = "sort w ! (length w - 1)"
  have "?m \<in> set (sort w)" using w by (intro nth_mem) simp
  moreover have "y \<le> ?m" if y: "y \<in> set (sort w)" for y
  proof -
    obtain i where "i < length w" "y = sort w ! i"
      using y by (metis in_set_conv_nth length_sort)
    then show ?thesis using w by (auto intro!: sorted_nth_mono)
  qed
  ultimately have "Max (set (sort w)) = ?m" by (intro Max_eqI) auto
  then show ?thesis by simp
qed

lemma Snapshot_window:
  assumes ok: "ring_ok s"
  defines "w \<equiv> ring_window s"
  shows "Snapshot mc qd s = Ret \<lparr>ss_Total = st_total s, ss_Rejected = st_rejected s,
     ss_InFlight = st_inFlight s, ss_MaxConcurrency = mc, ss_QueueDepth = qd,
     ss_Samples = int (length w),
     ss_P50MS = (if w = [] then 0 else percentile_ms 50 w),
     ss_P95MS = (if w = [] then 0 else percentile_ms 95 w),
     ss_P99MS = (if w = [] then 0 else percentile_ms 99 w),
     ss_MaxMS = (if w = [] then 0 else Milliseconds (Max (set w)))\<rparr>"
proof -
  let ?n = "st_ringSz s"
  have len: "length w = ?n" "?n \<le> 1024" "?n \<le> length (st_ring s)"
    using ok ring_window_length [OF ok] by (simp_all add: w_def ring_ok_def ringCap_def)
  have srt: "sort (take ?n (st_ring s)) = sort w"
    using mset_ring_window [OF ok] by (intro properties_for_sort) (simp_all add: w_def)
  show ?thesis
  proof (cases "?n = 0")
    case True
    then show ?thesis using len by (simp add: Snapshot_def)
  next
    case False
    then have n: "1 \<le> int ?n" "int ?n \<le> 1024" using len by simp_all
    have pick: "slice_get (sort w) (nat (k * int ?n div 100)) = Ret (sort w ! nat (k * int ?n div 100))"
      if "0 \<le> k" "k < 100" for k
      using nat_percent_less [of k ?n] that False len by simp
    have w: "w \<noteq> []" using False len by auto
    have mx: "slice_get (sort w) (?n - 1) = Ret (Max (set w))"
      using False len Max_sort_last [OF w] by simp
    have p: "slice_get (sort w) (nat (pIdx (int ?n) (fl (50 / 100)))) = Ret (sort w ! nat (50 * int ?n div 100))"
      "slice_get (sort w) (nat (pIdx (int ?n) (fl (95 / 100)))) = Ret (sort w ! nat (95 * int ?n div 100))"
      "slice_get (sort w) (nat (pIdx (int ?n) (fl (99 / 100)))) = Ret (sort w ! nat (99 * int ?n div 100))"
      unfolding pIdx_percent [OF n] by (rule pick; simp)+
    show ?thesis
      unfolding Snapshot_def Let_def srt p mx percentile_ms_def
      using False len w by simp
  qed
qed

lemma percentile_ms_mono:
  assumes "w \<noteq> []" "0 \<le> j" "j \<le> k" "k < 100"
  shows "percentile_ms j w \<le> percentile_ms k w"
proof -
  have "j * int (length w) div 100 \<le> k * int (length w) div 100"
    using assms by (intro zdiv_mono1 mult_right_mono) simp_all
  then show ?thesis
    using assms nat_percent_less [of k "length w"] unfolding percentile_ms_def
    by (intro Milliseconds_mono sorted_nth_mono) (simp_all add: nat_mono)
qed

lemma percentile_ms_Max:
  assumes "w \<noteq> []" "0 \<le> k" "k < 100"
  shows "percentile_ms k w \<le> Milliseconds (Max (set w))"
  unfolding percentile_ms_def
  using assms nat_percent_less [of k "length w"]
  by (intro Milliseconds_mono Max_ge) (simp_all, metis nth_mem length_sort set_sort)

section \<open>Properties\<close>

text \<open>C28. The ring buffer is a sliding window: after any sequence of observations on fresh
  statistics it holds the last 1024 of them, oldest first, no observation panics, and the
  request counters are untouched.\<close>

theorem observations_keep_last_1024:
  "\<exists>s. go_fold Observe ds NewStats = Ret s \<and> ring_window s = last_n 1024 ds \<and>
     st_ringSz s = min (length ds) 1024 \<and> st_total s = 0 \<and> st_rejected s = 0 \<and> st_inFlight s = 0"
proof -
  obtain s where s: "go_fold Observe ds NewStats = Ret s" "ring_ok s" "ring_window s = last_n ringCap ds"
    using ring.obs_all [OF ring_ok_NewStats, of ds] by (auto simp: ring_window_NewStats)
  have "st_total s = 0 \<and> st_rejected s = 0 \<and> st_inFlight s = 0"
    using fold_counters [OF s(1)] by (simp add: NewStats_def)
  then show ?thesis
    using s ring_window_length [OF s(2)] by (simp add: ringCap_def)
qed

text \<open>C29. The snapshot after any sequence of observations reports that window: its size as the
  number of samples, and as percentiles the exact order statistics of it at floor(k n / 100),
  in milliseconds, with its maximum; so p50 <= p95 <= p99 <= max.\<close>

theorem snapshot_reports_order_statistics:
  "\<exists>s out. go_fold Observe ds NewStats = Ret s \<and> Snapshot mc qd s = Ret out \<and>
     (let w = last_n 1024 ds; at_pct = (\<lambda>k. Milliseconds (sort w ! nat (k * int (length w) div 100))) in
       ss_Samples out = int (length w) \<and> ss_MaxConcurrency out = mc \<and> ss_QueueDepth out = qd \<and>
       (if w = [] then ss_P50MS out = 0 \<and> ss_P95MS out = 0 \<and> ss_P99MS out = 0 \<and> ss_MaxMS out = 0
        else ss_P50MS out = at_pct 50 \<and> ss_P95MS out = at_pct 95 \<and> ss_P99MS out = at_pct 99 \<and>
             ss_MaxMS out = Milliseconds (Max (set w))) \<and>
       ss_P50MS out \<le> ss_P95MS out \<and> ss_P95MS out \<le> ss_P99MS out \<and> ss_P99MS out \<le> ss_MaxMS out)"
proof -
  obtain s where s: "go_fold Observe ds NewStats = Ret s" "ring_ok s" "ring_window s = last_n 1024 ds"
    using ring.obs_all [OF ring_ok_NewStats, of ds] by (auto simp: ring_window_NewStats ringCap_def)
  show ?thesis
    using s Snapshot_window [OF s(2), of mc qd] percentile_ms_mono [of "ring_window s" 50 95]
      percentile_ms_mono [of "ring_window s" 95 99] percentile_ms_Max [of "ring_window s" 99]
    by (simp add: Let_def flip: percentile_ms_def)
qed

end
