(* ===== verification/Executor.thy ===== *)
theory Executor
  imports Config Registry Sandbox Stats
begin

text \<open>
  \<open>internal/executor/types.go\<close> and the pure part of \<open>executor.go\<close>: the request and response
  types, the checks on a request, the argument templates, the comparison of outputs, and the
  phases \<open>runBuild\<close>, \<open>runOne\<close> and \<open>runTest\<close>, each one call of the sandbox.

  The status strings are a datatype; \<open>status_text\<close> and \<open>build_status_text\<close> give the text of
  each. The errors of \<open>Run\<close> are a datatype with what their message carries.
\<close>

section \<open>Types\<close>

datatype status = StatusAccepted | StatusWrongOutput | StatusWhitespaceMismatch
  | StatusTimeExceeded | StatusMemoryExceeded | StatusRuntimeError | StatusBuildFailed
  | StatusNotExecuted | StatusInternalError

datatype build_status = BuildOK | BuildFailed | BuildInternalError

fun status_text :: "status \<Rightarrow> string" where
  "status_text StatusAccepted = ''accepted''"
| "status_text StatusWrongOutput = ''wrong_output''"
| "status_text StatusWhitespaceMismatch = ''output_whitespace_mismatch''"
| "status_text StatusTimeExceeded = ''time_exceeded''"
| "status_text StatusMemoryExceeded = ''memory_exceeded''"
| "status_text StatusRuntimeError = ''runtime_error''"
| "status_text StatusBuildFailed = ''build_failed''"
| "status_text StatusNotExecuted = ''not_executed''"
| "status_text StatusInternalError = ''internal_error''"

fun build_status_text :: "build_status \<Rightarrow> string" where
  "build_status_text BuildOK = ''ok''"
| "build_status_text BuildFailed = ''failed''"
| "build_status_text BuildInternalError = ''internal_error''"

record test_case =
  tc_Input :: string
  tc_ExpectedOutput :: string
  tc_TimeLimitS :: int
  tc_MemoryKB :: int

record request =
  rq_Language :: string
  rq_Source :: string
  rq_BuildFlags :: "string list"
  rq_RunFlags :: "string list"
  rq_TestCases :: "test_case list"
  rq_TimeLimitS :: int
  rq_MemoryKB :: int

record build_phase =
  bp_Status :: build_status
  bp_Stdout :: string
  bp_Stderr :: string
  bp_DurationMS :: int

record test_result =
  tr_Status :: status
  tr_Stdout :: string
  tr_Stderr :: string
  tr_ExitCode :: int
  tr_Signal :: string
  tr_DurationMS :: int
  tr_MemoryKB :: int

record response =
  rp_Status :: status
  rp_Build :: "build_phase option"
  rp_Tests :: "test_result list"

text \<open>Where an override exceeds the language's limit: the request's or a test case's field.\<close>

datatype override_field = ReqTimeLimit | ReqMemory | TestTimeLimit nat | TestMemory nat

datatype exec_error = ErrUnknownLanguage | ErrSourceTooLarge | ErrTooManyTests
  | ErrDisallowedFlag string | ErrOverrideTooBig override_field | ErrOverloaded
  | UnsafeSourceFile | UnsafeArtifact | MkdirJob string | WriteSource string
  | ChownJobDir string | ChownSource string | SandboxFailure sandbox_error

fun sandbox_error_text :: "sandbox_error \<Rightarrow> string" where
  "sandbox_error_text EmptyNsjailPath = ''sandbox: empty nsjail path''"
| "sandbox_error_text EmptyCommand = ''sandbox: empty command''"
| "sandbox_error_text (NsjailExec e) = ''nsjail exec: '' @ e"

fun override_field_text :: "override_field \<Rightarrow> string" where
  "override_field_text ReqTimeLimit = ''time_limit_s''"
| "override_field_text ReqMemory = ''memory_kb''"
| "override_field_text (TestTimeLimit i) = ''test_cases['' @ Itoa (int i) @ ''].time_limit_s''"
| "override_field_text (TestMemory i) = ''test_cases['' @ Itoa (int i) @ ''].memory_kb''"

text \<open>\<open>err.Error()\<close>.\<close>

fun err_text :: "(nat \<Rightarrow> bool) \<Rightarrow> exec_error \<Rightarrow> string" where
  "err_text pr ErrUnknownLanguage = ''unknown language''"
| "err_text pr ErrSourceTooLarge = ''source too large''"
| "err_text pr ErrTooManyTests = ''too many test cases''"
| "err_text pr (ErrDisallowedFlag u) = ''disallowed flag: '' @ Quote pr u"
| "err_text pr (ErrOverrideTooBig f) = ''per-test override exceeds language default: '' @ override_field_text f"
| "err_text pr ErrOverloaded = ''server overloaded; retry later''"
| "err_text pr UnsafeSourceFile = ''unsafe source_file in registry''"
| "err_text pr UnsafeArtifact = ''unsafe artifact in registry''"
| "err_text pr (MkdirJob e) = ''mkdir job: '' @ e"
| "err_text pr (WriteSource e) = ''write source: '' @ e"
| "err_text pr (ChownJobDir e) = ''chown job dir: '' @ e"
| "err_text pr (ChownSource e) = ''chown source: '' @ e"
| "err_text pr (SandboxFailure e) = sandbox_error_text e"

section \<open>Checks on a request\<close>

definition name_char :: "char \<Rightarrow> bool" where
  "name_char c \<longleftrightarrow> (let b = byte c in
     97 \<le> b \<and> b \<le> 122 \<or> 65 \<le> b \<and> b \<le> 90 \<or> 48 \<le> b \<and> b \<le> 57 \<or> b = 46 \<or> b = 95 \<or> b = 45)"

definition safeName :: "string \<Rightarrow> bool" where
  "safeName s \<longleftrightarrow> s \<noteq> [] \<and> list_all name_char s"

definition filterFlags :: "string list \<Rightarrow> string list \<Rightarrow> exec_error option" where
  "filterFlags user allowed =
     (if user = [] then None
      else case List.find (\<lambda>u. u \<notin> set allowed) user of
        None \<Rightarrow> None
      | Some u \<Rightarrow> Some (ErrDisallowedFlag u))"

fun bound_tests :: "int \<Rightarrow> int \<Rightarrow> nat \<Rightarrow> test_case list \<Rightarrow> exec_error option" where
  "bound_tests maxT maxM i [] = None"
| "bound_tests maxT maxM i (tc # tcs) =
     (if tc_TimeLimitS tc > maxT then Some (ErrOverrideTooBig (TestTimeLimit i))
      else if tc_MemoryKB tc > maxM then Some (ErrOverrideTooBig (TestMemory i))
      else bound_tests maxT maxM (i + 1) tcs)"

definition boundOverrides :: "language \<Rightarrow> request \<Rightarrow> exec_error option go" where
  "boundOverrides lang req =
     (case l_Run lang of
        None \<Rightarrow> Panic NilDereference
      | Some run \<Rightarrow>
          (let maxT = ph_TimeLimitS run; maxM = ph_MemoryKB run in
           Ret (if rq_TimeLimitS req > maxT then Some (ErrOverrideTooBig ReqTimeLimit)
                else if rq_MemoryKB req > maxM then Some (ErrOverrideTooBig ReqMemory)
                else bound_tests maxT maxM 0 (rq_TestCases req))))"

section \<open>Argument templates\<close>

definition renderArgs :: "string list \<Rightarrow> language \<Rightarrow> string list \<Rightarrow> string list" where
  "renderArgs tmpl lang userFlags =
     map (\<lambda>a. ReplaceAll (ReplaceAll a ''{{source}}'' (l_SourceFile lang)) ''{{artifact}}'' (l_Artifact lang)) tmpl
     @ userFlags"

section \<open>Comparing outputs\<close>

datatype outputCmp = outputExact | outputWhitespaceOnly | outputMismatch

definition crlf_to_lf :: "string \<Rightarrow> string" where
  "crlf_to_lf s = ReplaceAll s [CR, LF] [LF]"

definition normalizeStrict :: "string \<Rightarrow> string" where
  "normalizeStrict s = TrimRight (crlf_to_lf s) [SPC, TAB, LF]"

definition normalizeLoose :: "string \<Rightarrow> string" where
  "normalizeLoose s = Join (Fields (crlf_to_lf s)) '' ''"

definition compareOutput :: "string \<Rightarrow> string \<Rightarrow> outputCmp" where
  "compareOutput actual expected =
     (if actual = expected then outputExact
      else if normalizeStrict actual = normalizeStrict expected then outputExact
      else if normalizeLoose actual = normalizeLoose expected then outputWhitespaceOnly
      else outputMismatch)"

definition rollup :: "response \<Rightarrow> status" where
  "rollup r =
     (if (case rp_Build r of None \<Rightarrow> False | Some b \<Rightarrow> bp_Status b = BuildFailed) then StatusBuildFailed
      else case List.find (\<lambda>t. tr_Status t \<noteq> StatusAccepted) (rp_Tests r) of
        Some t \<Rightarrow> tr_Status t
      | None \<Rightarrow> StatusAccepted)"

section \<open>Phases: one sandboxed process each\<close>

definition build_spec :: "config \<Rightarrow> phase \<Rightarrow> language \<Rightarrow> string \<Rightarrow> string list \<Rightarrow> run_spec" where
  "build_spec cfg phase lang jobDir userFlags =
     (let timeLimit = wrap64 (ph_TimeLimitS phase * Second);
          timeLimit = (if timeLimit \<le> 0 then 30 * Second else timeLimit)
      in \<lparr>sp_NsjailPath = cf_NsjailPath cfg, sp_Cwd = jobDir, sp_Command = ph_Command phase,
          sp_Args = renderArgs (ph_Args phase) lang userFlags, sp_Stdin = [],
          sp_WallTime = timeLimit, sp_MemoryKB = ph_MemoryKB phase,
          sp_MaxProcesses = ph_MaxProcesses phase, sp_MaxOutput = cf_MaxOutputBytes cfg,
          sp_UID = cf_JailUID cfg, sp_GID = cf_JailGID cfg\<rparr>)"

definition runBuild ::
  "(invocation \<Rightarrow> 'w \<Rightarrow> proc_outcome \<times> 'w) \<Rightarrow> config \<Rightarrow> int list \<Rightarrow> language \<Rightarrow> string \<Rightarrow>
   string list \<Rightarrow> 'w \<Rightarrow> (build_phase \<times> exec_error option) go \<times> 'w" where
  "runBuild proc cfg ctx lang jobDir userFlags w =
     (case l_Build lang of
        None \<Rightarrow> (Panic NilDereference, w)
      | Some phase \<Rightarrow>
          (case sandbox_Run proc ctx (build_spec cfg phase lang jobDir userFlags) w of
             ((res, Some err), w') \<Rightarrow>
               (Ret (\<lparr>bp_Status = BuildInternalError, bp_Stdout = [], bp_Stderr = sandbox_error_text err,
                      bp_DurationMS = 0\<rparr>, Some (SandboxFailure err)), w')
           | ((res, None), w') \<Rightarrow>
               (Ret (\<lparr>bp_Status = (if rs_ExitCode res \<noteq> 0 \<or> rs_TimedOut res \<or> rs_OOMKilled res
                                    then BuildFailed else BuildOK),
                      bp_Stdout = rs_Stdout res, bp_Stderr = rs_Stderr res,
                      bp_DurationMS = Milliseconds (rs_Duration res)\<rparr>, None), w')))"

definition one_spec ::
  "config \<Rightarrow> phase \<Rightarrow> language \<Rightarrow> string \<Rightarrow> string list \<Rightarrow> string \<Rightarrow> int \<Rightarrow> int \<Rightarrow> run_spec" where
  "one_spec cfg phase lang jobDir userFlags stdin tlOverride memOverride =
     (let timeLimitS = (if tlOverride > 0 then tlOverride else ph_TimeLimitS phase);
          memKB = (if memOverride > 0 then memOverride else ph_MemoryKB phase)
      in \<lparr>sp_NsjailPath = cf_NsjailPath cfg, sp_Cwd = jobDir, sp_Command = ph_Command phase,
          sp_Args = renderArgs (ph_Args phase) lang userFlags, sp_Stdin = stdin,
          sp_WallTime = wrap64 (timeLimitS * Second), sp_MemoryKB = memKB,
          sp_MaxProcesses = ph_MaxProcesses phase, sp_MaxOutput = cf_MaxOutputBytes cfg,
          sp_UID = cf_JailUID cfg, sp_GID = cf_JailGID cfg\<rparr>)"

definition one_status :: "sb_result \<Rightarrow> status" where
  "one_status res = (if rs_TimedOut res then StatusTimeExceeded
     else if rs_OOMKilled res then StatusMemoryExceeded
     else if rs_ExitCode res \<noteq> 0 then StatusRuntimeError
     else StatusAccepted)"

definition runOne ::
  "(invocation \<Rightarrow> 'w \<Rightarrow> proc_outcome \<times> 'w) \<Rightarrow> config \<Rightarrow> int list \<Rightarrow> language \<Rightarrow> string \<Rightarrow>
   string list \<Rightarrow> string \<Rightarrow> int \<Rightarrow> int \<Rightarrow> 'w \<Rightarrow> test_result go \<times> 'w" where
  "runOne proc cfg ctx lang jobDir userFlags stdin tlOverride memOverride w =
     (case l_Run lang of
        None \<Rightarrow> (Panic NilDereference, w)
      | Some phase \<Rightarrow>
          (case sandbox_Run proc ctx
                  (one_spec cfg phase lang jobDir userFlags stdin tlOverride memOverride) w of
             ((res, Some err), w') \<Rightarrow>
               (Ret \<lparr>tr_Status = StatusInternalError, tr_Stdout = [], tr_Stderr = sandbox_error_text err,
                     tr_ExitCode = 0, tr_Signal = [], tr_DurationMS = 0, tr_MemoryKB = 0\<rparr>, w')
           | ((res, None), w') \<Rightarrow>
               (Ret \<lparr>tr_Status = one_status res, tr_Stdout = rs_Stdout res, tr_Stderr = rs_Stderr res,
                     tr_ExitCode = rs_ExitCode res, tr_Signal = rs_Signal res,
                     tr_DurationMS = Milliseconds (rs_Duration res), tr_MemoryKB = rs_MaxRSSKB res\<rparr>, w')))"

definition judge :: "test_case \<Rightarrow> test_result \<Rightarrow> test_result" where
  "judge tc tr =
     (if tr_Status tr \<noteq> StatusAccepted then tr
      else case compareOutput (tr_Stdout tr) (tc_ExpectedOutput tc) of
        outputExact \<Rightarrow> tr
      | outputWhitespaceOnly \<Rightarrow> tr\<lparr>tr_Status := StatusWhitespaceMismatch\<rparr>
      | outputMismatch \<Rightarrow> tr\<lparr>tr_Status := StatusWrongOutput\<rparr>)"

definition runTest ::
  "(invocation \<Rightarrow> 'w \<Rightarrow> proc_outcome \<times> 'w) \<Rightarrow> config \<Rightarrow> int list \<Rightarrow> language \<Rightarrow> string \<Rightarrow>
   string list \<Rightarrow> test_case \<Rightarrow> 'w \<Rightarrow> test_result go \<times> 'w" where
  "runTest proc cfg ctx lang jobDir userFlags tc w =
     (case runOne proc cfg ctx lang jobDir userFlags (tc_Input tc) (tc_TimeLimitS tc) (tc_MemoryKB tc) w of
        (Ret tr, w') \<Rightarrow> (Ret (judge tc tr), w')
      | (Panic p, w') \<Rightarrow> (Panic p, w'))"

section \<open>Laws of the checks\<close>

lemma name_char_no_slash: "name_char c \<Longrightarrow> c \<noteq> CHR ''/''"
  by (auto simp: name_char_def)

lemma safeName_plain: "safeName s \<Longrightarrow> s \<noteq> ''.'' \<Longrightarrow> s \<noteq> ''..'' \<Longrightarrow> plain s"
  using name_char_no_slash by (fastforce simp: safeName_def list_all_iff intro: plain_intro)

lemma filterFlags_None_iff: "filterFlags user allowed = None \<longleftrightarrow> set user \<subseteq> set allowed"
  using find_None_iff_ball [of "\<lambda>u. u \<notin> set allowed" user]
  by (auto simp: filterFlags_def subset_iff split: option.split)

lemma filterFlags_SomeD:
  "filterFlags user allowed = Some e \<Longrightarrow>
     \<exists>us u vs. user = us @ u # vs \<and> set us \<subseteq> set allowed \<and> u \<notin> set allowed \<and> e = ErrDisallowedFlag u"
  by (auto simp: filterFlags_def split: if_splits option.splits dest!: find_SomeD)

lemma bound_tests_None_iff:
  "bound_tests maxT maxM i tcs = None \<longleftrightarrow> (\<forall>tc \<in> set tcs. tc_TimeLimitS tc \<le> maxT \<and> tc_MemoryKB tc \<le> maxM)"
  by (induction tcs arbitrary: i) auto

lemma bound_tests_find:
  "bound_tests maxT maxM i tcs =
     (case List.find (\<lambda>(i, tc). tc_TimeLimitS tc > maxT \<or> tc_MemoryKB tc > maxM) (enumerate i tcs) of
        None \<Rightarrow> None
      | Some (i, tc) \<Rightarrow> Some (ErrOverrideTooBig (if tc_TimeLimitS tc > maxT then TestTimeLimit i else TestMemory i)))"
  by (induction tcs arbitrary: i) simp_all

lemma boundOverrides_accepts_iff:
  "l_Run lang = Some run \<Longrightarrow> boundOverrides lang req = Ret None \<longleftrightarrow>
     rq_TimeLimitS req \<le> ph_TimeLimitS run \<and> rq_MemoryKB req \<le> ph_MemoryKB run \<and>
     (\<forall>tc \<in> set (rq_TestCases req). tc_TimeLimitS tc \<le> ph_TimeLimitS run \<and> tc_MemoryKB tc \<le> ph_MemoryKB run)"
  by (auto simp: boundOverrides_def Let_def bound_tests_None_iff)

lemma renderArgs_user: "drop (length tmpl) (renderArgs tmpl lang flags) = flags"
  by (simp add: renderArgs_def)

lemma rollup_eq:
  "rollup r = (if (\<exists>b. rp_Build r = Some b \<and> bp_Status b = BuildFailed) then StatusBuildFailed
     else case List.find (\<lambda>t. tr_Status t \<noteq> StatusAccepted) (rp_Tests r) of
       Some t \<Rightarrow> tr_Status t | None \<Rightarrow> StatusAccepted)"
  by (simp add: rollup_def split: option.split)

lemma rollup_accepted_iff:
  "rollup r = StatusAccepted \<longleftrightarrow>
     (\<forall>b. rp_Build r = Some b \<longrightarrow> bp_Status b \<noteq> BuildFailed) \<and>
     (\<forall>t \<in> set (rp_Tests r). tr_Status t = StatusAccepted)"
  using find_None_iff_ball [of "\<lambda>t. tr_Status t \<noteq> StatusAccepted" "rp_Tests r"]
  by (auto simp: rollup_eq dest: find_SomeD split: option.split)

section \<open>Laws of the comparison\<close>

lemma Fields_strict: "Fields (normalizeStrict s) = Fields (crlf_to_lf s)"
  by (simp add: normalizeStrict_def Fields_TrimRight)

lemma loose_of_strict: "normalizeStrict a = normalizeStrict b \<Longrightarrow> normalizeLoose a = normalizeLoose b"
  by (metis normalizeLoose_def Fields_strict)

lemma compareOutput_exact_iff: "compareOutput a b = outputExact \<longleftrightarrow> normalizeStrict a = normalizeStrict b"
  by (simp add: compareOutput_def)

lemma compareOutput_mismatch_iff: "compareOutput a b = outputMismatch \<longleftrightarrow> normalizeLoose a \<noteq> normalizeLoose b"
  using loose_of_strict [of a b] by (auto simp: compareOutput_def)

lemma compareOutput_sym: "compareOutput a b = compareOutput b a"
  by (simp add: compareOutput_def eq_commute)

text \<open>Blanks at the end of an output that does not end in a carriage return do not count.\<close>

lemma crlf_simps [simp]:
  "crlf_to_lf [] = []" "crlf_to_lf [c] = [c]"
  "crlf_to_lf (c # d # s) = (if c = CR \<and> d = LF then LF # crlf_to_lf s else c # crlf_to_lf (d # s))"
  by (simp_all add: crlf_to_lf_def)

lemma crlf_snoc_LF: "s = [] \<or> last s \<noteq> CR \<Longrightarrow> crlf_to_lf (s @ [LF]) = crlf_to_lf s @ [LF]"
proof (induction s rule: induct_list012)
  case (3 c d s)
  show ?case
  proof (cases "c = CR \<and> d = LF")
    case True
    have "s = [] \<or> last s \<noteq> CR" using "3.prems" by (cases "s = []") simp_all
    with "3.IH"(1) True show ?thesis by simp
  next
    case False
    have "crlf_to_lf ((d # s) @ [LF]) = crlf_to_lf (d # s) @ [LF]" using "3.IH"(2) "3.prems" by simp
    with False show ?thesis by auto
  qed
qed simp_all

lemma crlf_snoc_blank: "s = [] \<or> last s \<noteq> CR \<Longrightarrow> c \<in> {SPC, TAB, LF} \<Longrightarrow> crlf_to_lf (s @ [c]) = crlf_to_lf s @ [c]"
  using crlf_snoc_LF [of s] ReplaceAll_snoc [of c "[CR, LF]" s "[LF]"] by (auto simp: crlf_to_lf_def)

lemma crlf_append_blanks:
  "a = [] \<or> last a \<noteq> CR \<Longrightarrow> set t \<subseteq> {SPC, TAB, LF} \<Longrightarrow> crlf_to_lf (a @ t) = crlf_to_lf a @ t"
proof (induction t rule: rev_induct)
  case (snoc c t)
  have "a @ t = [] \<or> last (a @ t) \<noteq> CR"
  proof (cases "t = []")
    case False
    then have "last t \<in> set t" by simp
    moreover have "set t \<subseteq> {SPC, TAB, LF}" using snoc.prems(2) by simp
    ultimately have "last t \<in> {SPC, TAB, LF}" by (rule rev_subsetD)
    then have "last t \<noteq> CR" by auto
    with False show ?thesis by simp
  qed (use snoc.prems in simp)
  then show ?case using snoc crlf_snoc_blank [of "a @ t" c] by simp
qed simp

lemma normalize_append_blanks:
  assumes "a = [] \<or> last a \<noteq> CR" "set t \<subseteq> {SPC, TAB, LF}"
  shows "normalizeStrict (a @ t) = normalizeStrict a" "normalizeLoose (a @ t) = normalizeLoose a"
  using assms
  by (simp_all add: normalizeStrict_def normalizeLoose_def crlf_append_blanks Fields_append_blank TrimRight_append_cut insert_commute)

text \<open>The Go type is an \<open>int\<close>: the three verdicts are ordered from best to worst.\<close>

fun cmp_rank :: "outputCmp \<Rightarrow> nat" where
  "cmp_rank outputExact = 0"
| "cmp_rank outputWhitespaceOnly = 1"
| "cmp_rank outputMismatch = 2"

lemma cmp_rank_inject: "cmp_rank a = cmp_rank b \<longleftrightarrow> a = b"
  by (cases a; cases b) simp_all

instantiation outputCmp :: linorder
begin

definition less_eq_outputCmp :: "outputCmp \<Rightarrow> outputCmp \<Rightarrow> bool" where
  "a \<le> b \<longleftrightarrow> cmp_rank a \<le> cmp_rank b"

definition less_outputCmp :: "outputCmp \<Rightarrow> outputCmp \<Rightarrow> bool" where
  "a < b \<longleftrightarrow> cmp_rank a < cmp_rank b"

instance
  by standard (auto simp: less_eq_outputCmp_def less_outputCmp_def cmp_rank_inject)

end

lemma compareOutput_ultrametric:
  "compareOutput a c \<le> max (compareOutput a b) (compareOutput b c)"
proof (cases "compareOutput a c")
  case outputWhitespaceOnly
  then have "normalizeStrict a \<noteq> normalizeStrict c" using compareOutput_exact_iff [of a c] by simp
  then have "compareOutput a b \<noteq> outputExact \<or> compareOutput b c \<noteq> outputExact"
    by (metis compareOutput_exact_iff)
  then show ?thesis using outputWhitespaceOnly
    by (cases "compareOutput a b"; cases "compareOutput b c")
       (simp_all add: less_eq_outputCmp_def max_def)
next
  case outputMismatch
  then have "compareOutput a b = outputMismatch \<or> compareOutput b c = outputMismatch"
    by (metis compareOutput_mismatch_iff)
  then show ?thesis using outputMismatch
    by (cases "compareOutput a b"; cases "compareOutput b c")
       (simp_all add: less_eq_outputCmp_def max_def)
qed (simp add: less_eq_outputCmp_def max_def)

section \<open>What a run reports\<close>

text \<open>
  The status of a process by itself, and the verdict on a test case, as functions of the
  process's outcome.
\<close>

definition exit_status :: "run_spec \<Rightarrow> proc_outcome \<Rightarrow> status" where
  "exit_status sp o' = (let code = final_code (po_err o') in
     if po_deadline o' \<or> code = 152 \<or> code = 137 \<and> killed_late sp o' then StatusTimeExceeded
     else if code = 137 then StatusMemoryExceeded
     else if code \<noteq> 0 then StatusRuntimeError
     else StatusAccepted)"

definition captured :: "run_spec \<Rightarrow> string list \<Rightarrow> string" where
  "captured sp chunks = (if sp_MaxOutput sp \<le> 0 then concat chunks
     else take (nat (sp_MaxOutput sp)) (concat chunks))"

fun cmp_status :: "outputCmp \<Rightarrow> status" where
  "cmp_status outputExact = StatusAccepted"
| "cmp_status outputWhitespaceOnly = StatusWhitespaceMismatch"
| "cmp_status outputMismatch = StatusWrongOutput"

definition test_verdict :: "run_spec \<Rightarrow> string \<Rightarrow> proc_outcome \<Rightarrow> status" where
  "test_verdict sp expected o' =
     (if po_err o' \<noteq> None \<and> \<not> is_exit (po_err o') then StatusInternalError
      else if exit_status sp o' \<noteq> StatusAccepted then exit_status sp o'
      else cmp_status (compareOutput (captured sp (po_stdout o')) expected))"

definition one_result :: "run_spec \<Rightarrow> proc_outcome \<Rightarrow> test_result" where
  "one_result sp o' = (case finish_run sp o' of
     (res, Some err) \<Rightarrow> \<lparr>tr_Status = StatusInternalError, tr_Stdout = [],
        tr_Stderr = sandbox_error_text err, tr_ExitCode = 0, tr_Signal = [], tr_DurationMS = 0,
        tr_MemoryKB = 0\<rparr>
   | (res, None) \<Rightarrow> \<lparr>tr_Status = one_status res, tr_Stdout = rs_Stdout res, tr_Stderr = rs_Stderr res,
        tr_ExitCode = rs_ExitCode res, tr_Signal = rs_Signal res,
        tr_DurationMS = Milliseconds (rs_Duration res), tr_MemoryKB = rs_MaxRSSKB res\<rparr>)"

lemma finish_run_stdout: "rs_Stdout (fst (finish_run sp o')) = captured sp (po_stdout o')"
  by (simp add: finish_run_output drain_Bytes captured_def)

lemma final_code_exit: "\<not> is_exit e \<Longrightarrow> final_code e = 0"
  by (cases e rule: final_code.cases) (auto simp: is_exit_def)

lemma one_status_finish: "one_status (fst (finish_run sp o')) = exit_status sp o'"
  using final_code_exit [of "po_err o'"]
  by (auto simp: one_status_def exit_status_def Let_def finish_run_flags)

lemma finish_run_err_None: "snd (finish_run sp o') = None \<longleftrightarrow> po_err o' = None \<or> is_exit (po_err o')"
  by (auto simp: finish_run_err is_exit_def split: option.split cmd_error.split)

lemma one_result_status:
  "tr_Status (one_result sp o') =
     (if po_err o' \<noteq> None \<and> \<not> is_exit (po_err o') then StatusInternalError else exit_status sp o')"
proof -
  obtain res err where f: "finish_run sp o' = (res, err)" by fastforce
  then show ?thesis
    using finish_run_err_None [of sp o'] one_status_finish [of sp o']
    by (cases err) (auto simp: one_result_def)
qed

lemma one_result_stdout:
  "tr_Status (one_result sp o') \<noteq> StatusInternalError \<Longrightarrow>
     tr_Stdout (one_result sp o') = captured sp (po_stdout o')"
proof -
  obtain res err where f: "finish_run sp o' = (res, err)" by fastforce
  assume "tr_Status (one_result sp o') \<noteq> StatusInternalError"
  with f show ?thesis
    using finish_run_stdout [of sp o'] by (cases err) (auto simp: one_result_def)
qed

lemma judge_status:
  "tr_Status (judge tc tr) = (if tr_Status tr \<noteq> StatusAccepted then tr_Status tr
     else cmp_status (compareOutput (tr_Stdout tr) (tc_ExpectedOutput tc)))"
  by (simp add: judge_def split: outputCmp.split)

lemma judge_one_result:
  "tr_Status (judge tc (one_result sp o')) = test_verdict sp (tc_ExpectedOutput tc) o'"
  using one_result_status [of sp o'] one_result_stdout [of sp o']
  by (auto simp: judge_status test_verdict_def)

lemma runOne_eq:
  assumes "l_Run lang = Some run" "cf_NsjailPath cfg \<noteq> []" "ph_Command run \<noteq> []"
    and "proc (make_invocation ctx (one_spec cfg run lang jobDir flags stdin tlim mem)) w = (o', w')"
  shows "runOne proc cfg ctx lang jobDir flags stdin tlim mem w =
    (Ret (one_result (one_spec cfg run lang jobDir flags stdin tlim mem) o'), w')"
proof -
  let ?sp = "one_spec cfg run lang jobDir flags stdin tlim mem"
  have "sp_NsjailPath ?sp \<noteq> []" "sp_Command ?sp \<noteq> []"
    using assms by (simp_all add: one_spec_def Let_def)
  then have "sandbox_Run proc ctx ?sp w = (finish_run ?sp o', w')"
    using assms(4) by (simp add: sandbox_Run_def)
  then show ?thesis
    using assms(1) by (simp add: runOne_def one_result_def split: prod.split option.split)
qed

lemma runTest_eq:
  assumes "l_Run lang = Some run" "cf_NsjailPath cfg \<noteq> []" "ph_Command run \<noteq> []"
    and "proc (make_invocation ctx (one_spec cfg run lang jobDir flags (tc_Input tc) (tc_TimeLimitS tc) (tc_MemoryKB tc))) w = (o', w')"
  shows "runTest proc cfg ctx lang jobDir flags tc w =
    (Ret (judge tc (one_result (one_spec cfg run lang jobDir flags (tc_Input tc) (tc_TimeLimitS tc) (tc_MemoryKB tc)) o')), w')"
  using assms by (simp add: runTest_def runOne_eq)

text \<open>The build, likewise.\<close>

definition build_result :: "run_spec \<Rightarrow> proc_outcome \<Rightarrow> build_phase \<times> exec_error option" where
  "build_result sp o' = (case finish_run sp o' of
     (res, Some err) \<Rightarrow> (\<lparr>bp_Status = BuildInternalError, bp_Stdout = [],
        bp_Stderr = sandbox_error_text err, bp_DurationMS = 0\<rparr>, Some (SandboxFailure err))
   | (res, None) \<Rightarrow> (\<lparr>bp_Status = (if one_status res = StatusAccepted then BuildOK else BuildFailed),
        bp_Stdout = rs_Stdout res, bp_Stderr = rs_Stderr res,
        bp_DurationMS = Milliseconds (rs_Duration res)\<rparr>, None))"

lemma runBuild_eq:
  assumes "l_Build lang = Some phase" "cf_NsjailPath cfg \<noteq> []" "ph_Command phase \<noteq> []"
    and "proc (make_invocation ctx (build_spec cfg phase lang jobDir flags)) w = (o', w')"
  shows "runBuild proc cfg ctx lang jobDir flags w =
    (Ret (build_result (build_spec cfg phase lang jobDir flags) o'), w')"
proof -
  let ?sp = "build_spec cfg phase lang jobDir flags"
  have "sp_NsjailPath ?sp \<noteq> []" "sp_Command ?sp \<noteq> []"
    using assms by (simp_all add: build_spec_def Let_def)
  then have "sandbox_Run proc ctx ?sp w = (finish_run ?sp o', w')"
    using assms(4) by (simp add: sandbox_Run_def)
  then show ?thesis
    using assms(1)
    by (auto simp: runBuild_def build_result_def one_status_def split: prod.split option.split)
qed

lemma build_result_ok_iff:
  "bp_Status (fst (build_result sp o')) = BuildOK \<longleftrightarrow>
     (po_err o' = None \<or> is_exit (po_err o')) \<and> exit_status sp o' = StatusAccepted"
proof -
  obtain res err where f: "finish_run sp o' = (res, err)" by fastforce
  then show ?thesis
    using finish_run_err_None [of sp o'] one_status_finish [of sp o']
    by (cases err) (auto simp: build_result_def)
qed

lemma build_result_err_iff:
  "snd (build_result sp o') = None \<longleftrightarrow> bp_Status (fst (build_result sp o')) \<noteq> BuildInternalError"
  by (auto simp: build_result_def split: prod.split option.split)

section \<open>Limits\<close>

text \<open>An override that the checks let pass never raises a limit.\<close>

lemma one_spec_limits:
  assumes "tlim \<le> ph_TimeLimitS run" "mem \<le> ph_MemoryKB run"
    and "\<bar>ph_TimeLimitS run\<bar> \<le> 9223372036"
  shows "sp_WallTime (one_spec cfg run lang jobDir flags stdin tlim mem) \<le> ph_TimeLimitS run * 1000000000"
    and "sp_MemoryKB (one_spec cfg run lang jobDir flags stdin tlim mem) \<le> ph_MemoryKB run"
  using assms by (auto simp: one_spec_def Let_def wrap64_small)

section \<open>Properties\<close>

text \<open>C3. The verdict on one test case. The process is started once, with the command line and the
  limits of the language as overridden by the test case; its result is that of the process's
  outcome alone: an internal error when it could not be run, else its own failure (time, memory,
  exit status, in this order), else the comparison of the captured output with the expected one.\<close>

theorem runTest_verdict:
  fixes jobDir flags tc
  assumes "l_Run lang = Some run" "cf_NsjailPath cfg \<noteq> []" "ph_Command run \<noteq> []"
  defines "sp \<equiv> one_spec cfg run lang jobDir flags (tc_Input tc) (tc_TimeLimitS tc) (tc_MemoryKB tc)"
  assumes p: "proc (make_invocation ctx sp) w = (o', w')"
  shows "\<exists>tr. runTest proc cfg ctx lang jobDir flags tc w = (Ret tr, w') \<and>
    tr_Status tr =
      (if po_err o' \<noteq> None \<and> \<not> is_exit (po_err o') then StatusInternalError
       else if exit_status sp o' \<noteq> StatusAccepted then exit_status sp o'
       else if normalizeStrict (captured sp (po_stdout o')) = normalizeStrict (tc_ExpectedOutput tc) then StatusAccepted
       else if normalizeLoose (captured sp (po_stdout o')) = normalizeLoose (tc_ExpectedOutput tc) then StatusWhitespaceMismatch
       else StatusWrongOutput)"
  using runTest_eq [of lang run cfg proc ctx jobDir flags tc w o' w', OF assms(1-3) p [unfolded sp_def]] judge_one_result [of tc sp o']
  by (simp add: sp_def test_verdict_def compareOutput_def)

definition sample_config :: config where
  "sample_config = (Load (\<lambda>_. []) 2)\<lparr>cf_MaxConcurrency := 1, cf_QueueDepth := 1\<rparr>"

definition sample_run :: phase where
  "sample_run = \<lparr>ph_Command = ''/usr/bin/python3'', ph_Args = [''{{source}}''], ph_AllowedFlags = [''-O''],
     ph_TimeLimitS = 5, ph_MemoryKB = 262144, ph_MaxProcesses = 16\<rparr>"

definition sample_language :: language where
  "sample_language = \<lparr>l_Name = ''python'', l_Version = ''3'', l_SourceFile = ''main.py'', l_Artifact = [],
     l_Build = None, l_Run = Some sample_run\<rparr>"

definition sample_test :: test_case where
  "sample_test = \<lparr>tc_Input = ''1'', tc_ExpectedOutput = ''42'', tc_TimeLimitS = 2, tc_MemoryKB = 0\<rparr>"

lemmas sample_defs = sample_config_def sample_run_def sample_language_def sample_test_def

definition prints_42 :: "invocation \<Rightarrow> unit \<Rightarrow> proc_outcome \<times> unit" where
  "prints_42 iv w = (\<lparr>po_stdout = [''42'', [LF]], po_stderr = [], po_elapsed = 5000000, po_maxrss = None,
     po_deadline = False, po_err = None\<rparr>, w)"

theorem runTest_verdict_witness:
  "\<exists>tr. runTest prints_42 sample_config [] sample_language ''/j'' [] sample_test () = (Ret tr, ()) \<and>
     tr_Status tr = StatusAccepted"
proof -
  have h: "l_Run sample_language = Some sample_run" "cf_NsjailPath sample_config \<noteq> []" "ph_Command sample_run \<noteq> []"
    by (simp_all add: sample_defs Load_def envOr_def)
  have s: "normalizeStrict ''42\<newline>'' = normalizeStrict ''42''" by code_simp
  have m: "cf_MaxOutputBytes sample_config = 1048576" by code_simp
  show ?thesis
    using runTest_verdict [OF h, of prints_42 "[]" "''/j''" "[]" sample_test "()"] s m
    by (simp add: prints_42_def exit_status_def captured_def one_spec_def Let_def killed_late_def sample_test_def)
qed

text \<open>C24. The comparison has exactly three outcomes, ordered from best to worst: exact when the
  outputs agree after turning CRLF into LF and dropping trailing blanks, whitespace only when
  they do not but their fields agree, mismatch when the fields differ. It is symmetric, an
  output is an exact match of itself, and no third output can bring two others further apart
  than the worse of its own two comparisons.\<close>

theorem comparison_classifies:
  "(compareOutput a b = outputExact \<longleftrightarrow> normalizeStrict a = normalizeStrict b) \<and>
   (compareOutput a b = outputMismatch \<longleftrightarrow> normalizeLoose a \<noteq> normalizeLoose b) \<and>
   (compareOutput a b = outputWhitespaceOnly \<longleftrightarrow>
      normalizeStrict a \<noteq> normalizeStrict b \<and> normalizeLoose a = normalizeLoose b) \<and>
   compareOutput a a = outputExact \<and> compareOutput a b = compareOutput b a \<and>
   compareOutput a c \<le> max (compareOutput a b) (compareOutput b c)"
proof -
  have "compareOutput a b = outputWhitespaceOnly \<longleftrightarrow> compareOutput a b \<noteq> outputExact \<and> compareOutput a b \<noteq> outputMismatch"
    by (cases "compareOutput a b") simp_all
  then show ?thesis
    using compareOutput_exact_iff [of a b] compareOutput_mismatch_iff [of a b] compareOutput_exact_iff [of a a]
      compareOutput_sym [of a b] compareOutput_ultrametric [of a c b]
    by simp
qed

text \<open>Blanks and newlines a program prints after its output never change the verdict, unless
  the output ends in a bare carriage return.\<close>

theorem trailing_blanks_do_not_count:
  assumes "a = [] \<or> last a \<noteq> CR" "set t \<subseteq> {SPC, TAB, LF}"
  shows "compareOutput (a @ t) b = compareOutput a b"
  using compareOutput_exact_iff [of "a @ t" b] compareOutput_mismatch_iff [of "a @ t" b]
    compareOutput_exact_iff [of a b] compareOutput_mismatch_iff [of a b]
  unfolding normalize_append_blanks [OF assms]
  by (cases "compareOutput (a @ t) b"; cases "compareOutput a b") simp_all

theorem trailing_blanks_do_not_count_witness:
  "compareOutput (''42'' @ [SPC, LF]) ''42'' = outputExact"
  using trailing_blanks_do_not_count [of "''42''" "[SPC, LF]" "''42''"] by (simp add: compareOutput_def)

lemma rollup_first_failure:
  assumes "rollup r \<noteq> StatusAccepted"
  shows "(\<exists>b. rp_Build r = Some b \<and> bp_Status b = BuildFailed) \<and> rollup r = StatusBuildFailed \<or>
    (\<exists>us t vs. rp_Tests r = us @ t # vs \<and> (\<forall>u \<in> set us. tr_Status u = StatusAccepted) \<and> rollup r = tr_Status t)"
proof (cases "\<exists>b. rp_Build r = Some b \<and> bp_Status b = BuildFailed")
  case False
  let ?f = "List.find (\<lambda>t. tr_Status t \<noteq> StatusAccepted) (rp_Tests r)"
  have "rollup r = (case ?f of Some t \<Rightarrow> tr_Status t | None \<Rightarrow> StatusAccepted)"
    using False by (simp only: rollup_eq if_False)
  with assms obtain t where t: "?f = Some t" "rollup r = tr_Status t" by (cases ?f) simp_all
  from find_SomeD [OF t(1)] obtain us vs where "rp_Tests r = us @ t # vs" "\<forall>u \<in> set us. tr_Status u = StatusAccepted"
    by auto
  with t(2) show ?thesis by blast
qed (simp add: rollup_eq)

definition failing_test :: "status \<Rightarrow> test_result" where
  "failing_test s = \<lparr>tr_Status = s, tr_Stdout = [], tr_Stderr = [], tr_ExitCode = 0, tr_Signal = [],
     tr_DurationMS = 0, tr_MemoryKB = 0\<rparr>"

definition tests_only :: "test_result list \<Rightarrow> response" where
  "tests_only ts = \<lparr>rp_Status = StatusAccepted, rp_Build = None, rp_Tests = ts\<rparr>"

text \<open>The status of a response: a failed build wins, else the status of the first test in
  order that is not accepted, and accepted exactly when there is none. So whether a response is
  accepted does not depend on the order of its tests, but which failure it reports does: the
  same two results are a timeout in one order and a wrong output in the other.\<close>

theorem rollup_is_first_failure:
  "(rollup r = StatusAccepted \<longleftrightarrow> (\<forall>b. rp_Build r = Some b \<longrightarrow> bp_Status b \<noteq> BuildFailed) \<and>
      (\<forall>t \<in> set (rp_Tests r). tr_Status t = StatusAccepted)) \<and>
   (rollup r \<noteq> StatusAccepted \<longrightarrow>
      (\<exists>b. rp_Build r = Some b \<and> bp_Status b = BuildFailed) \<and> rollup r = StatusBuildFailed \<or>
      (\<exists>us t vs. rp_Tests r = us @ t # vs \<and> (\<forall>u \<in> set us. tr_Status u = StatusAccepted) \<and> rollup r = tr_Status t)) \<and>
   (mset us = mset (rp_Tests r) \<longrightarrow> (rollup (r\<lparr>rp_Tests := us\<rparr>) = StatusAccepted \<longleftrightarrow> rollup r = StatusAccepted)) \<and>
   rollup (tests_only [failing_test StatusTimeExceeded, failing_test StatusWrongOutput]) = StatusTimeExceeded \<and>
   rollup (tests_only [failing_test StatusWrongOutput, failing_test StatusTimeExceeded]) = StatusWrongOutput"
proof -
  have "mset us = mset (rp_Tests r) \<Longrightarrow> rollup (r\<lparr>rp_Tests := us\<rparr>) = StatusAccepted \<longleftrightarrow> rollup r = StatusAccepted"
    using mset_eq_setD [of us "rp_Tests r"] by (simp add: rollup_accepted_iff)
  then show ?thesis
    using rollup_accepted_iff [of r] rollup_first_failure [of r]
    by (simp add: rollup_eq tests_only_def failing_test_def)
qed

theorem rollup_is_first_failure_witness:
  "\<exists>us t vs. [failing_test StatusAccepted, failing_test StatusTimeExceeded] = us @ t # vs \<and>
     rollup (tests_only [failing_test StatusAccepted, failing_test StatusTimeExceeded]) = tr_Status t"
proof -
  let ?r = "tests_only [failing_test StatusAccepted, failing_test StatusTimeExceeded]"
  have "rollup ?r \<noteq> StatusAccepted" "rp_Build ?r = None" "rp_Tests ?r = [failing_test StatusAccepted, failing_test StatusTimeExceeded]"
    by (simp_all add: tests_only_def failing_test_def rollup_eq)
  then show ?thesis using rollup_is_first_failure [of ?r "[]"] by auto
qed

text \<open>User flags pass exactly when each is literally in the language's allow list; otherwise
  the error names the first that is not.\<close>

theorem filterFlags_decides:
  "(filterFlags user allowed = None \<longleftrightarrow> (\<forall>u \<in> set user. u \<in> set allowed)) \<and>
   (filterFlags user allowed = Some e \<longleftrightarrow>
      (\<exists>us u vs. user = us @ u # vs \<and> (\<forall>v \<in> set us. v \<in> set allowed) \<and> u \<notin> set allowed \<and> e = ErrDisallowedFlag u))"
proof -
  have "\<exists>us u vs. user = us @ u # vs \<and> (\<forall>v \<in> set us. v \<in> set allowed) \<and> u \<notin> set allowed \<and> e = ErrDisallowedFlag u"
    if "filterFlags user allowed = Some e" using filterFlags_SomeD [OF that] by blast
  moreover have "filterFlags (us @ u # vs) allowed = Some (ErrDisallowedFlag u)"
    if "\<forall>v \<in> set us. v \<in> set allowed" "u \<notin> set allowed" for us u vs
    using that by (induction us) (auto simp: filterFlags_def split: option.splits if_splits)
  ultimately show ?thesis using filterFlags_None_iff [of user allowed] by auto
qed

theorem filterFlags_decides_witness:
  "filterFlags [''-O'', ''-x''] [''-O''] = Some (ErrDisallowedFlag ''-x'')"
  using filterFlags_decides [of "[''-O'', ''-x'']" "[''-O'']" "ErrDisallowedFlag ''-x''"]
  by (auto intro: exI [of _ "[''-O'']"])

text \<open>Overrides pass exactly when neither the request nor any test case asks for more time or
  memory than the language grants; otherwise the error names the first offending field, the
  request's before the tests', time before memory.\<close>

theorem boundOverrides_decides:
  assumes "l_Run lang = Some run"
  shows "boundOverrides lang req = Ret (
    if rq_TimeLimitS req > ph_TimeLimitS run then Some (ErrOverrideTooBig ReqTimeLimit)
    else if rq_MemoryKB req > ph_MemoryKB run then Some (ErrOverrideTooBig ReqMemory)
    else case List.find (\<lambda>(i, tc). tc_TimeLimitS tc > ph_TimeLimitS run \<or> tc_MemoryKB tc > ph_MemoryKB run)
           (enumerate 0 (rq_TestCases req)) of
      None \<Rightarrow> None
    | Some (i, tc) \<Rightarrow> Some (ErrOverrideTooBig (if tc_TimeLimitS tc > ph_TimeLimitS run then TestTimeLimit i else TestMemory i)))"
  using assms(1) bound_tests_find [of "ph_TimeLimitS run" "ph_MemoryKB run" 0 "rq_TestCases req"]
  by (simp add: boundOverrides_def Let_def)

definition sample_request :: request where
  "sample_request = \<lparr>rq_Language = ''python'', rq_Source = ''print(42)'', rq_BuildFlags = [], rq_RunFlags = [],
     rq_TestCases = [sample_test, sample_test\<lparr>tc_TimeLimitS := 9\<rparr>], rq_TimeLimitS = 0, rq_MemoryKB = 0\<rparr>"

theorem boundOverrides_decides_witness:
  "boundOverrides sample_language sample_request = Ret (Some (ErrOverrideTooBig (TestTimeLimit 1)))"
  using boundOverrides_decides [of sample_language sample_run sample_request]
  by (simp add: sample_request_def sample_defs)

text \<open>The command line of a phase: the template's elements in place, the user's flags behind
  them unchanged; an element without a brace is passed on as it is, and the two markers become
  the source file and the artifact.\<close>

theorem renderArgs_layout:
  "length (renderArgs tmpl lang flags) = length tmpl + length flags \<and>
   drop (length tmpl) (renderArgs tmpl lang flags) = flags \<and>
   (\<forall>i < length tmpl. CHR 0x7B \<notin> set (tmpl ! i) \<longrightarrow> renderArgs tmpl lang flags ! i = tmpl ! i) \<and>
   (\<forall>i < length tmpl. tmpl ! i = ''{{source}}'' \<longrightarrow> CHR 0x7B \<notin> set (l_SourceFile lang) \<longrightarrow>
      renderArgs tmpl lang flags ! i = l_SourceFile lang) \<and>
   (\<forall>i < length tmpl. tmpl ! i = ''{{artifact}}'' \<longrightarrow> renderArgs tmpl lang flags ! i = l_Artifact lang)"
proof -
  have m: "ReplaceAll ''{{artifact}}'' ''{{source}}'' x = ''{{artifact}}''" for x by simp
  have "ReplaceAll ''{{source}}'' ''{{source}}'' x = x" "ReplaceAll ''{{artifact}}'' ''{{artifact}}'' x = x" for x
    by (rule ReplaceAll_exact; simp)+
  then show ?thesis
    by (auto simp: renderArgs_def nth_append ReplaceAll_absent m)
qed

theorem renderArgs_layout_witness:
  "renderArgs [''-O'', ''{{source}}''] sample_language [''-v''] ! 1 = ''main.py''"
  using renderArgs_layout [of "[''-O'', ''{{source}}'']" sample_language "[''-v'']"]
  by (simp add: sample_defs)

end
