(* ===== verification/Os.thy ===== *)
theory Os
  imports Go_Path Sandbox
begin

text \<open>
  The outside world of \<open>executor.Run\<close>: a file system, a counter that numbers the interactions
  with the operating system, the log of the processes started and the log of all calls with
  their arguments and errors. What the operating system,
  nsjail and the UUID generator decide is the argument \<open>env\<close>, a record of functions of the
  interaction's number: any call may fail, a removal may leave entries behind, a process may
  do anything to the file system. What they are documented to respect is stated as a
  predicate (\<open>jail_confined\<close>) where a property needs it.
\<close>

section \<open>The file system\<close>

text \<open>A node carries the permission bits it was created with and its owner \<open>(uid, gid)\<close>.\<close>

datatype node = DirNode int "int \<times> int" | FileNode string int "int \<times> int"

type_synonym filesys = "string \<rightharpoonup> node"

fun is_dir :: "node option \<Rightarrow> bool" where
  "is_dir (Some (DirNode m u)) = True"
| "is_dir _ = False"

fun is_file :: "node option \<Rightarrow> bool" where
  "is_file (Some (FileNode d m u)) = True"
| "is_file _ = False"

text \<open>A path and everything below it.\<close>

definition under :: "string \<Rightarrow> string \<Rightarrow> bool" where
  "under p q \<longleftrightarrow> q = p \<or> prefix (p @ ''/'') q"

text \<open>The directories \<open>MkdirAll\<close> makes: the path and its non-empty prefixes up to a slash.\<close>

definition dir_prefixes :: "string \<Rightarrow> string list" where
  "dir_prefixes p = map (\<lambda>i. take i p)
     (filter (\<lambda>i. i = length p \<or> p ! i = CHR ''/'') [1..<length p + 1])"

definition fs_mkdir_all :: "int \<times> int \<Rightarrow> string \<Rightarrow> int \<Rightarrow> filesys \<Rightarrow> string + filesys" where
  "fs_mkdir_all self p perm fs =
     (if \<exists>q \<in> set (dir_prefixes p). is_file (fs q) then Inl ''not a directory''
      else Inr (\<lambda>q. if fs q = None \<and> q \<in> set (dir_prefixes p) then Some (DirNode perm self) else fs q))"

definition fs_write_file :: "int \<times> int \<Rightarrow> string \<Rightarrow> string \<Rightarrow> int \<Rightarrow> filesys \<Rightarrow> string + filesys" where
  "fs_write_file self p data perm fs =
     (case fs p of
        Some (DirNode _ _) \<Rightarrow> Inl ''is a directory''
      | Some (FileNode _ m u) \<Rightarrow> Inr (fs(p \<mapsto> FileNode data m u))
      | None \<Rightarrow> Inr (fs(p \<mapsto> FileNode data perm self)))"

definition fs_chown :: "string \<Rightarrow> int \<times> int \<Rightarrow> filesys \<Rightarrow> string + filesys" where
  "fs_chown p u fs =
     (case fs p of
        Some (DirNode m _) \<Rightarrow> Inr (fs(p \<mapsto> DirNode m u))
      | Some (FileNode d m _) \<Rightarrow> Inr (fs(p \<mapsto> FileNode d m u))
      | None \<Rightarrow> Inl ''no such file or directory'')"

definition fs_remove_all :: "(string \<Rightarrow> bool) \<Rightarrow> string \<Rightarrow> filesys \<Rightarrow> filesys" where
  "fs_remove_all keep p fs = (\<lambda>q. if under p q \<and> \<not> keep q then None else fs q)"

section \<open>The world and its environment\<close>

text \<open>The calls the executor makes; of a failed one with its error.\<close>

datatype sys_call =
    SysMkdirAll string int "string option"
  | SysWriteFile string string int "string option"
  | SysChown string "int \<times> int" "string option"
  | SysProcess invocation
  | SysRemoveAll string

record world =
  w_fs :: filesys
  w_tick :: nat
  w_spawned :: "invocation list"
  w_calls :: "sys_call list"

record os_env =
  os_fail :: "nat \<Rightarrow> string option"
  os_torn :: "nat \<Rightarrow> node option"
  os_keep :: "nat \<Rightarrow> string \<Rightarrow> bool"
  os_self :: "int \<times> int"
  os_proc :: "nat \<Rightarrow> filesys \<Rightarrow> invocation \<Rightarrow> proc_outcome \<times> filesys"
  os_uuid :: "nat \<Rightarrow> string"
  os_now :: "nat \<Rightarrow> int"

definition tick :: "world \<Rightarrow> world" where
  "tick w = w\<lparr>w_tick := w_tick w + 1\<rparr>"

definition called :: "sys_call \<Rightarrow> world \<Rightarrow> world" where
  "called c w = w\<lparr>w_tick := w_tick w + 1, w_calls := w_calls w @ [c]\<rparr>"

text \<open>A call that fails either of itself or because the environment says so.\<close>

definition os_call ::
  "os_env \<Rightarrow> (string option \<Rightarrow> sys_call) \<Rightarrow> (filesys \<Rightarrow> string + filesys) \<Rightarrow> world \<Rightarrow> string option \<times> world" where
  "os_call env c f w =
     (case os_fail env (w_tick w) of
        Some e \<Rightarrow> (Some e, called (c (Some e)) w)
      | None \<Rightarrow> (case f (w_fs w) of
          Inl e \<Rightarrow> (Some e, called (c (Some e)) w)
        | Inr fs \<Rightarrow> (None, (called (c None) w)\<lparr>w_fs := fs\<rparr>)))"

definition MkdirAll :: "os_env \<Rightarrow> string \<Rightarrow> int \<Rightarrow> world \<Rightarrow> string option \<times> world" where
  "MkdirAll env p perm = os_call env (SysMkdirAll p perm) (fs_mkdir_all (os_self env) p perm)"

definition Chown :: "os_env \<Rightarrow> string \<Rightarrow> int \<times> int \<Rightarrow> world \<Rightarrow> string option \<times> world" where
  "Chown env p u = os_call env (SysChown p u) (fs_chown p u)"

text \<open>A write that fails half way leaves some entry, or none, at a path that is no directory.\<close>

definition WriteFile :: "os_env \<Rightarrow> string \<Rightarrow> string \<Rightarrow> int \<Rightarrow> world \<Rightarrow> string option \<times> world" where
  "WriteFile env p data perm w =
     (case os_fail env (w_tick w) of
        Some e \<Rightarrow> (Some e, (called (SysWriteFile p data perm (Some e)) w)\<lparr>w_fs :=
            (if is_dir (w_fs w p) then w_fs w else (w_fs w)(p := os_torn env (w_tick w)))\<rparr>)
      | None \<Rightarrow> os_call env (SysWriteFile p data perm) (fs_write_file (os_self env) p data perm) w)"

definition RemoveAll :: "os_env \<Rightarrow> string \<Rightarrow> world \<Rightarrow> world" where
  "RemoveAll env p w = (called (SysRemoveAll p) w)\<lparr>w_fs := fs_remove_all (os_keep env (w_tick w)) p (w_fs w)\<rparr>"

definition os_run :: "os_env \<Rightarrow> invocation \<Rightarrow> world \<Rightarrow> proc_outcome \<times> world" where
  "os_run env iv w = (case os_proc env (w_tick w) (w_fs w) iv of
     (o', fs) \<Rightarrow> (o', (called (SysProcess iv) w)\<lparr>w_fs := fs, w_spawned := w_spawned w @ [iv]\<rparr>))"

text \<open>\<open>time.Since\<close>, which saturates.\<close>

definition since :: "int \<Rightarrow> int \<Rightarrow> int" where
  "since start now = max (- 9223372036854775808) (min 9223372036854775807 (now - start))"

section \<open>Reading an nsjail command line\<close>

fun opt_value :: "string \<Rightarrow> string list \<Rightarrow> string option" where
  "opt_value k (a # b # xs) = (if a = k then Some b else opt_value k (b # xs))"
| "opt_value k _ = None"

lemma append_neq_lastI: "s \<noteq> [] \<Longrightarrow> t \<noteq> [] \<Longrightarrow> last s \<noteq> last t \<Longrightarrow> x @ s \<noteq> t"
  by (metis last_appendR)

lemma mount_neq:
  "x @ '':/sandbox'' \<noteq> ''--time_limit''" "x @ '':/sandbox'' \<noteq> ''--rlimit_as''"
  "x @ '':/sandbox'' \<noteq> ''--user''" "x @ '':/sandbox'' \<noteq> ''--group''"
  "x @ '':/sandbox'' \<noteq> ''--rlimit_nproc''" "x @ '':/sandbox'' \<noteq> ''--rlimit_cpu''"
  by (rule append_neq_lastI; simp)+

lemma opt_value_Cons: "a \<noteq> k \<Longrightarrow> opt_value k (a # b # xs) = opt_value k (b # xs)"
  by simp

lemma opt_bindmount: "opt_value ''--bindmount'' (ns_args sp) = Some (sp_Cwd sp @ '':/sandbox'')"
  by (simp add: ns_args_def ns_opts_def)

lemma opt_user: "opt_value ''--user'' (ns_args sp) = Some (Itoa (sp_UID sp))"
  by (simp add: ns_args_def ns_opts_def mount_neq)

lemma opt_rlimit_as: "opt_value ''--rlimit_as'' (ns_args sp) = Some (Itoa (sp_MemoryKB sp sdiv 1024))"
  by (simp add: ns_args_def ns_opts_def mount_neq Itoa_neq_dashes)

lemma opt_time_limit: "opt_value ''--time_limit'' (ns_args sp) = Some (Itoa (trunc (Seconds (sp_WallTime sp))))"
  by (simp add: ns_args_def ns_opts_def mount_neq Itoa_neq_dashes)

section \<open>What a jailed process is documented to respect\<close>

text \<open>
  nsjail gives the process one writable directory, the one bind-mounted at \<open>/sandbox\<close>
  (\<open>--chroot /\<close> exposes the rest read-only): a path outside it is as it was before.
\<close>

definition jail_confined :: "os_env \<Rightarrow> bool" where
  "jail_confined env \<longleftrightarrow> (\<forall>t fs iv d q. opt_value ''--bindmount'' (iv_args iv) = Some (d @ '':/sandbox'') \<longrightarrow>
     \<not> under d q \<longrightarrow> snd (os_proc env t fs iv) q = fs q)"

text \<open>No call of \<open>RemoveAll\<close> leaves an entry behind.\<close>

definition removals_complete :: "os_env \<Rightarrow> bool" where
  "removals_complete env \<longleftrightarrow> (\<forall>t q. \<not> os_keep env t q)"

text \<open>\<open>uuid.NewString\<close> panics when the system's source of random numbers fails, which is not modelled
  (\<open>crypto/rand\<close> does not return an error on the platforms of the service); otherwise it yields hexadecimal digits and hyphens; a safe name is all that matters.\<close>

definition uuids_plain :: "os_env \<Rightarrow> bool" where
  "uuids_plain env \<longleftrightarrow> (\<forall>t. CHR ''/'' \<notin> set (os_uuid env t))"

section \<open>Frame facts\<close>

lemma in_dir_prefixes: "q \<in> set (dir_prefixes p) \<longleftrightarrow>
    (\<exists>i. 1 \<le> i \<and> i \<le> length p \<and> (i = length p \<or> p ! i = CHR ''/'') \<and> q = take i p)"
  by (auto simp: dir_prefixes_def)

text \<open>
  \<open>unchanged_outside d w w'\<close>: from \<open>w\<close> to \<open>w'\<close> nothing outside \<open>d\<close> was touched.
\<close>

definition unchanged_outside :: "string \<Rightarrow> filesys \<Rightarrow> filesys \<Rightarrow> bool" where
  "unchanged_outside d fs fs' \<longleftrightarrow> (\<forall>q. \<not> under d q \<longrightarrow> fs' q = fs q)"

named_theorems frame "operations that change nothing outside a directory"

lemma under_refl [simp]: "under p p"
  by (simp add: under_def)

lemma under_entry: "under d (d @ CHR ''/'' # n)"
  by (simp add: under_def)

lemma unchanged_refl [simp]: "unchanged_outside d fs fs"
  by (simp add: unchanged_outside_def)

lemma unchanged_trans [trans]:
  "unchanged_outside d a b \<Longrightarrow> unchanged_outside d b c \<Longrightarrow> unchanged_outside d a c"
  by (simp add: unchanged_outside_def)

lemma tick_simps [simp]: "w_fs (tick w) = w_fs w" "w_spawned (tick w) = w_spawned w" "w_calls (tick w) = w_calls w"
  by (simp_all add: tick_def)

lemma called_simps [simp]: "w_fs (called c w) = w_fs w" "w_spawned (called c w) = w_spawned w"
    "w_tick (called c w) = w_tick w + 1" "w_calls (called c w) = w_calls w @ [c]"
  by (simp_all add: called_def)

lemma os_call_frame:
  "(\<And>fs'. f (w_fs w) = Inr fs' \<Longrightarrow> unchanged_outside d (w_fs w) fs') \<Longrightarrow>
     unchanged_outside d (w_fs w) (w_fs (snd (os_call env c f w)))"
  by (simp add: os_call_def split: option.split sum.split)

lemma Chown_frame [frame]: "under d p \<Longrightarrow> unchanged_outside d (w_fs w) (w_fs (snd (Chown env p u w)))"
  unfolding Chown_def
  by (rule os_call_frame) (auto simp: fs_chown_def unchanged_outside_def split: option.splits node.splits)

lemma WriteFile_frame [frame]:
  "under d p \<Longrightarrow> unchanged_outside d (w_fs w) (w_fs (snd (WriteFile env p data perm w)))"
proof -
  assume d: "under d p"
  have "unchanged_outside d (w_fs w)
      (w_fs (snd (os_call env (SysWriteFile p data perm) (fs_write_file (os_self env) p data perm) w)))"
    by (rule os_call_frame)
       (use d in \<open>auto simp: fs_write_file_def unchanged_outside_def split: option.splits node.splits\<close>)
  then show ?thesis
    using d by (auto simp: WriteFile_def unchanged_outside_def split: option.split)
qed

lemma MkdirAll_frame [frame]:
  "\<forall>q \<in> set (dir_prefixes d). q \<noteq> d \<longrightarrow> w_fs w q \<noteq> None \<Longrightarrow>
     unchanged_outside d (w_fs w) (w_fs (snd (MkdirAll env d perm w)))"
  unfolding MkdirAll_def
  by (rule os_call_frame)
     (fastforce simp: fs_mkdir_all_def unchanged_outside_def under_def split: if_splits)

lemma os_run_frame [frame]:
  "jail_confined env \<Longrightarrow> opt_value ''--bindmount'' (iv_args iv) = Some (d @ '':/sandbox'') \<Longrightarrow>
     unchanged_outside d (w_fs w) (w_fs (snd (os_run env iv w)))"
  by (auto simp: os_run_def unchanged_outside_def jail_confined_def split: prod.split)
     (metis snd_conv)

lemma RemoveAll_restores:
  assumes "removals_complete env" "unchanged_outside d fs (w_fs w)" "\<forall>q. under d q \<longrightarrow> fs q = None"
  shows "w_fs (RemoveAll env d w) = fs"
  using assms by (auto simp: RemoveAll_def fs_remove_all_def removals_complete_def unchanged_outside_def)

text \<open>Each call is logged with its error, and a process as it is started.\<close>

lemma logged_calls [simp]:
  "w_calls (snd (os_call env c f w)) = w_calls w @ [c (fst (os_call env c f w))]"
  "w_calls (snd (MkdirAll env p m w)) = w_calls w @ [SysMkdirAll p m (fst (MkdirAll env p m w))]"
  "w_calls (snd (Chown env p u w)) = w_calls w @ [SysChown p u (fst (Chown env p u w))]"
  "w_calls (snd (WriteFile env p data m w)) = w_calls w @ [SysWriteFile p data m (fst (WriteFile env p data m w))]"
  "w_calls (RemoveAll env p w) = w_calls w @ [SysRemoveAll p]"
  "w_calls (snd (os_run env iv w)) = w_calls w @ [SysProcess iv]"
  by (simp_all add: os_call_def MkdirAll_def Chown_def WriteFile_def RemoveAll_def os_run_def
      split: option.split sum.split prod.split)

text \<open>The file calls start no process; a process run appends its invocation to the log.\<close>

lemma spawned_calls [simp]:
  "w_spawned (snd (os_call env c f w)) = w_spawned w"
  "w_spawned (snd (MkdirAll env p m w)) = w_spawned w"
  "w_spawned (snd (Chown env p u w)) = w_spawned w"
  "w_spawned (snd (WriteFile env p data m w)) = w_spawned w"
  "w_spawned (RemoveAll env p w) = w_spawned w"
  "w_spawned (snd (os_run env iv w)) = w_spawned w @ [iv]"
  by (simp_all add: os_call_def MkdirAll_def Chown_def WriteFile_def RemoveAll_def os_run_def
      split: option.split sum.split prod.split)

lemma sandbox_Run_os:
  "sp_NsjailPath sp \<noteq> [] \<Longrightarrow> sp_Command sp \<noteq> [] \<Longrightarrow>
     sandbox_Run (os_run env) ctx sp w =
       (finish_run sp (fst (os_run env (make_invocation ctx sp) w)), snd (os_run env (make_invocation ctx sp) w))"
  by (simp add: sandbox_Run_def split: prod.split)

lemma sandbox_Run_frame [frame]:
  "jail_confined env \<Longrightarrow>
     unchanged_outside (sp_Cwd sp) (w_fs w) (w_fs (snd (sandbox_Run (os_run env) ctx sp w)))"
  using os_run_frame [of env "make_invocation ctx sp" "sp_Cwd sp" w] opt_bindmount [of sp]
  by (cases "sp_NsjailPath sp = [] \<or> sp_Command sp = []")
     (auto simp: sandbox_Run_def make_invocation_def split: prod.split)

end
