(* ===== verification/Executor_Run.thy ===== *)
theory Executor_Run
  imports Executor Os
begin

text \<open>
  \<open>Executor.Run\<close> of \<open>internal/executor/executor.go\<close>: admission by the semaphore, the checks, the
  job directory, the build and the test runs, the rollup, and the deferred cleanup in the
  order Go runs it. The executor's state is the number of semaphore slots taken, the
  statistics and the world.
\<close>

section \<open>The executor\<close>

record exec_state =
  ex_sem :: nat
  ex_stats :: stats
  ex_world :: world

text \<open>The capacity of the semaphore channel; \<open>make\<close> panics on a negative one.\<close>

definition sem_capacity :: "config \<Rightarrow> int" where
  "sem_capacity cfg = wrap64 (cf_MaxConcurrency cfg + cf_QueueDepth cfg)"

definition New_Executor :: "config \<Rightarrow> world \<Rightarrow> exec_state go" where
  "New_Executor cfg w =
     (if sem_capacity cfg < 0 then Panic MakeChanSize
      else Ret \<lparr>ex_sem = 0, ex_stats = NewStats, ex_world = w\<rparr>)"

definition Executor_Stats :: "config \<Rightarrow> exec_state \<Rightarrow> stats_snapshot go" where
  "Executor_Stats cfg st = Snapshot (cf_MaxConcurrency cfg) (cf_QueueDepth cfg) (ex_stats st)"

definition error_response :: response where
  "error_response = \<lparr>rp_Status = StatusInternalError, rp_Build = None, rp_Tests = []\<rparr>"

section \<open>The checks, in the order of the code\<close>

definition check_request :: "config \<Rightarrow> registry \<Rightarrow> request \<Rightarrow> (exec_error + language) go" where
  "check_request cfg reg req =
     (case Get reg (rq_Language req) of
        None \<Rightarrow> Ret (Inl ErrUnknownLanguage)
      | Some lang \<Rightarrow>
          if int (length (rq_Source req)) > cf_MaxSourceBytes cfg then Ret (Inl ErrSourceTooLarge)
          else if int (length (rq_TestCases req)) > cf_MaxTestCases cfg then Ret (Inl ErrTooManyTests)
          else if \<not> safeName (l_SourceFile lang) then Ret (Inl UnsafeSourceFile)
          else if l_Artifact lang \<noteq> [] \<and> \<not> safeName (l_Artifact lang) then Ret (Inl UnsafeArtifact)
          else case (case l_Build lang of None \<Rightarrow> None
                     | Some b \<Rightarrow> filterFlags (rq_BuildFlags req) (ph_AllowedFlags b)) of
            Some e \<Rightarrow> Ret (Inl e)
          | None \<Rightarrow> (case (case l_Run lang of None \<Rightarrow> None
                           | Some r \<Rightarrow> filterFlags (rq_RunFlags req) (ph_AllowedFlags r)) of
              Some e \<Rightarrow> Ret (Inl e)
            | None \<Rightarrow> (case boundOverrides lang req of
                Panic p \<Rightarrow> Panic p
              | Ret (Some e) \<Rightarrow> Ret (Inl e)
              | Ret None \<Rightarrow> Ret (Inr lang))))"

section \<open>Build and tests\<close>

text \<open>The loop over the test cases; a panic ends it.\<close>

fun run_tests ::
  "(invocation \<Rightarrow> 'w \<Rightarrow> proc_outcome \<times> 'w) \<Rightarrow> config \<Rightarrow> int list \<Rightarrow> language \<Rightarrow> string \<Rightarrow>
   string list \<Rightarrow> test_case list \<Rightarrow> 'w \<Rightarrow> test_result list go \<times> 'w" where
  "run_tests proc cfg ctx lang jobDir flags [] w = (Ret [], w)"
| "run_tests proc cfg ctx lang jobDir flags (tc # tcs) w =
     (case runTest proc cfg ctx lang jobDir flags tc w of
        (Panic p, w') \<Rightarrow> (Panic p, w')
      | (Ret tr, w') \<Rightarrow>
          (case run_tests proc cfg ctx lang jobDir flags tcs w' of
             (Panic p, w'') \<Rightarrow> (Panic p, w'')
           | (Ret trs, w'') \<Rightarrow> (Ret (tr # trs), w'')))"

text \<open>On the smoke path there is no expected output: a mismatch counts as accepted.\<close>

definition smoke_result :: "test_result \<Rightarrow> test_result" where
  "smoke_result tr =
     (if tr_Status tr = StatusWrongOutput \<or> tr_Status tr = StatusWhitespaceMismatch
      then tr\<lparr>tr_Status := StatusAccepted\<rparr> else tr)"

definition run_phase ::
  "(invocation \<Rightarrow> 'w \<Rightarrow> proc_outcome \<times> 'w) \<Rightarrow> config \<Rightarrow> int list \<Rightarrow> language \<Rightarrow> string \<Rightarrow> request \<Rightarrow>
   build_phase option \<Rightarrow> 'w \<Rightarrow> (response \<times> exec_error option) go \<times> 'w" where
  "run_phase proc cfg ctx lang jobDir req build w =
     (case (if rq_TestCases req = [] then
              (case runOne proc cfg ctx lang jobDir (rq_RunFlags req) [] (rq_TimeLimitS req) (rq_MemoryKB req) w of
                 (Ret tr, w') \<Rightarrow> (Ret [smoke_result tr], w')
               | (Panic p, w') \<Rightarrow> (Panic p, w'))
            else run_tests proc cfg ctx lang jobDir (rq_RunFlags req) (rq_TestCases req) w) of
        (Panic p, w') \<Rightarrow> (Panic p, w')
      | (Ret trs, w') \<Rightarrow>
          (let resp = \<lparr>rp_Status = StatusAccepted, rp_Build = build, rp_Tests = trs\<rparr>
           in (Ret (resp\<lparr>rp_Status := rollup resp\<rparr>, None), w')))"

definition not_executed :: test_result where
  "not_executed = \<lparr>tr_Status = StatusNotExecuted, tr_Stdout = [], tr_Stderr = [], tr_ExitCode = 0,
     tr_Signal = [], tr_DurationMS = 0, tr_MemoryKB = 0\<rparr>"

definition build_and_run ::
  "(invocation \<Rightarrow> 'w \<Rightarrow> proc_outcome \<times> 'w) \<Rightarrow> config \<Rightarrow> int list \<Rightarrow> language \<Rightarrow> string \<Rightarrow> request \<Rightarrow>
   'w \<Rightarrow> (response \<times> exec_error option) go \<times> 'w" where
  "build_and_run proc cfg ctx lang jobDir req w =
     (if l_Build lang = None then run_phase proc cfg ctx lang jobDir req None w
      else case runBuild proc cfg ctx lang jobDir (rq_BuildFlags req) w of
        (Panic p, w') \<Rightarrow> (Panic p, w')
      | (Ret (b, Some err), w') \<Rightarrow>
          (Ret (\<lparr>rp_Status = StatusInternalError, rp_Build = Some b, rp_Tests = []\<rparr>, Some err), w')
      | (Ret (b, None), w') \<Rightarrow>
          if bp_Status b \<noteq> BuildOK
          then (Ret (\<lparr>rp_Status = StatusBuildFailed, rp_Build = Some b,
                     rp_Tests = map (\<lambda>_. not_executed) (rq_TestCases req)\<rparr>, None), w')
          else run_phase proc cfg ctx lang jobDir req (Some b) w')"

section \<open>The job directory\<close>

definition job_dir :: "config \<Rightarrow> string \<Rightarrow> string" where
  "job_dir cfg jobID = filepath_Join [cf_JobRoot cfg, ''job-'' @ jobID]"

text \<open>Between \<open>MkdirAll\<close> and the deferred \<open>RemoveAll\<close>.\<close>

definition in_job_dir ::
  "os_env \<Rightarrow> config \<Rightarrow> int list \<Rightarrow> language \<Rightarrow> string \<Rightarrow> request \<Rightarrow> world \<Rightarrow>
   (response \<times> exec_error option) go \<times> world" where
  "in_job_dir env cfg ctx lang jobDir req w =
     (let srcPath = filepath_Join [jobDir, l_SourceFile lang];
          owner = (cf_JailUID cfg, cf_JailGID cfg)
      in case WriteFile env srcPath (rq_Source req) 0x1A4 w of
        (Some e, w) \<Rightarrow> (Ret (error_response, Some (WriteSource e)), w)
      | (None, w) \<Rightarrow>
        (case Chown env jobDir owner w of
          (Some e, w) \<Rightarrow> (Ret (error_response, Some (ChownJobDir e)), w)
        | (None, w) \<Rightarrow>
          (case Chown env srcPath owner w of
            (Some e, w) \<Rightarrow> (Ret (error_response, Some (ChownSource e)), w)
          | (None, w) \<Rightarrow> build_and_run (os_run env) cfg ctx lang jobDir req w)))"

definition with_job_dir ::
  "os_env \<Rightarrow> config \<Rightarrow> int list \<Rightarrow> language \<Rightarrow> request \<Rightarrow> world \<Rightarrow>
   (response \<times> exec_error option) go \<times> world" where
  "with_job_dir env cfg ctx lang req w =
     (let jobDir = job_dir cfg (os_uuid env (w_tick w))
      in case MkdirAll env jobDir 0x1ED (tick w) of
        (Some e, w) \<Rightarrow> (Ret (error_response, Some (MkdirJob e)), w)
      | (None, w) \<Rightarrow>
          (case in_job_dir env cfg ctx lang jobDir req w of
             (r, w) \<Rightarrow> (r, RemoveAll env jobDir w)))"

definition run_checked ::
  "os_env \<Rightarrow> config \<Rightarrow> registry \<Rightarrow> int list \<Rightarrow> request \<Rightarrow> world \<Rightarrow>
   (response \<times> exec_error option) go \<times> world" where
  "run_checked env cfg reg ctx req w =
     (case check_request cfg reg req of
        Panic p \<Rightarrow> (Panic p, w)
      | Ret (Inl e) \<Rightarrow> (Ret (error_response, Some e), w)
      | Ret (Inr lang) \<Rightarrow> with_job_dir env cfg ctx lang req w)"

section \<open>Run\<close>

text \<open>
  The deferred calls, last registered first: \<open>Observe\<close>, \<open>DecInFlight\<close>, then the slot is given
  back. A panic in one of them does not stop the others.
\<close>

definition run_deferred :: "int \<Rightarrow> exec_state \<Rightarrow> panic option \<times> exec_state" where
  "run_deferred d st =
     (case (case Observe d (ex_stats st) of Ret s \<Rightarrow> (None, s) | Panic p \<Rightarrow> (Some p, ex_stats st)) of
        (p, s) \<Rightarrow> (p, st\<lparr>ex_stats := DecInFlight s, ex_sem := ex_sem st - 1\<rparr>))"

definition Run ::
  "os_env \<Rightarrow> config \<Rightarrow> registry \<Rightarrow> int list \<Rightarrow> request \<Rightarrow> exec_state \<Rightarrow>
   (response \<times> exec_error option) go \<times> exec_state" where
  "Run env cfg reg ctx req st =
     (if int (ex_sem st) < sem_capacity cfg then
        (let st = st\<lparr>ex_sem := ex_sem st + 1, ex_stats := IncInFlight (ex_stats st)\<rparr>;
             start = os_now env (w_tick (ex_world st))
         in case run_checked env cfg reg ctx req (tick (ex_world st)) of
              (r, w) \<Rightarrow>
                (case run_deferred (since start (os_now env (w_tick w))) (st\<lparr>ex_world := tick w\<rparr>) of
                   (None, st') \<Rightarrow> (r, st')
                 | (Some p, st') \<Rightarrow> (Panic p, st')))
      else (Ret (error_response, Some ErrOverloaded),
            st\<lparr>ex_stats := IncRejected (ex_stats st)\<rparr>))"

section \<open>Laws of the checks\<close>

lemma check_request_accepts:
  assumes "check_request cfg reg req = Ret (Inr lang)"
  shows "Get reg (rq_Language req) = Some lang"
    and "int (length (rq_Source req)) \<le> cf_MaxSourceBytes cfg"
    and "int (length (rq_TestCases req)) \<le> cf_MaxTestCases cfg"
    and "safeName (l_SourceFile lang)" and "l_Artifact lang = [] \<or> safeName (l_Artifact lang)"
    and "l_Build lang = Some b \<Longrightarrow> set (rq_BuildFlags req) \<subseteq> set (ph_AllowedFlags b)"
    and "l_Run lang = Some r \<Longrightarrow> set (rq_RunFlags req) \<subseteq> set (ph_AllowedFlags r)"
    and "boundOverrides lang req = Ret None"
  using assms
  by (auto simp: check_request_def filterFlags_None_iff [symmetric]
      split: option.splits if_splits go.splits)

lemma check_request_no_panic:
  assumes "reg_ok reg" shows "\<exists>r. check_request cfg reg req = Ret r"
proof (cases "Get reg (rq_Language req)")
  case (Some lang)
  then obtain run where "l_Run lang = Some run" using reg.get_run [OF assms] by blast
  then show ?thesis using Some
    by (simp add: check_request_def boundOverrides_def Let_def split: option.split)
qed (simp add: check_request_def)

section \<open>The phases return\<close>

lemma runOne_Ret:
  "l_Run lang = Some run \<Longrightarrow> \<exists>tr w'. runOne proc cfg ctx lang jobDir flags stdin tlim mem w = (Ret tr, w')"
  by (auto simp: runOne_def split: prod.split option.split)

lemma runTest_Ret:
  "l_Run lang = Some run \<Longrightarrow> \<exists>tr w'. runTest proc cfg ctx lang jobDir flags tc w = (Ret tr, w')"
  using runOne_Ret [of lang run proc cfg ctx jobDir flags "tc_Input tc" "tc_TimeLimitS tc" "tc_MemoryKB tc" w]
  by (auto simp: runTest_def)

lemma run_tests_Ret:
  assumes "l_Run lang = Some run"
  shows "\<exists>trs w'. run_tests proc cfg ctx lang jobDir flags tcs w = (Ret trs, w') \<and> length trs = length tcs"
proof (induction tcs arbitrary: w)
  case (Cons tc tcs)
  obtain tr w1 where "runTest proc cfg ctx lang jobDir flags tc w = (Ret tr, w1)"
    using runTest_Ret [OF assms, of proc cfg ctx jobDir flags tc w] by blast
  then show ?case using Cons.IH [of w1] by auto
qed simp

text \<open>
  The test cases that are run: without any, one run with empty input under the request's own
  limits. (With test cases the request's own limits play no part.)
\<close>

definition effective_tests :: "request \<Rightarrow> test_case list" where
  "effective_tests req = (if rq_TestCases req = [] then
     [\<lparr>tc_Input = [], tc_ExpectedOutput = [], tc_TimeLimitS = rq_TimeLimitS req,
       tc_MemoryKB = rq_MemoryKB req\<rparr>] else rq_TestCases req)"

lemma rollup_cong:
  "rp_Build r = rp_Build r' \<Longrightarrow> rp_Tests r = rp_Tests r' \<Longrightarrow> rollup r = rollup r'"
  by (simp only: rollup_eq)

lemma run_phase_Ret:
  assumes "l_Run lang = Some run"
  shows "\<exists>resp w'. run_phase proc cfg ctx lang jobDir req b w = (Ret (resp, None), w') \<and>
    rp_Build resp = b \<and> rp_Status resp = rollup resp \<and> length (rp_Tests resp) = length (effective_tests req)"
proof (cases "rq_TestCases req = []")
  case True
  then show ?thesis
    using runOne_Ret [OF assms, of proc cfg ctx jobDir "rq_RunFlags req" "[]" "rq_TimeLimitS req" "rq_MemoryKB req" w]
    by (auto simp: run_phase_def Let_def effective_tests_def intro!: rollup_cong)
next
  case False
  then show ?thesis
    using run_tests_Ret [OF assms, of proc cfg ctx jobDir "rq_RunFlags req" "rq_TestCases req" w]
    by (auto simp: run_phase_def Let_def effective_tests_def intro!: rollup_cong)
qed

text \<open>The shape of an answer without error: a failed build, or one result per test.\<close>

definition answer_ok :: "request \<Rightarrow> response \<Rightarrow> bool" where
  "answer_ok req resp \<longleftrightarrow>
     (rp_Status resp = StatusBuildFailed \<and> (\<exists>b. rp_Build resp = Some b \<and> bp_Status b = BuildFailed) \<and>
        rp_Tests resp = map (\<lambda>_. not_executed) (rq_TestCases req)) \<or>
     ((\<forall>b. rp_Build resp = Some b \<longrightarrow> bp_Status b = BuildOK) \<and> rp_Status resp = rollup resp \<and>
        length (rp_Tests resp) = length (effective_tests req))"

lemma runBuild_Ret:
  "l_Build lang = Some ph \<Longrightarrow>
     \<exists>b err w'. runBuild proc cfg ctx lang jobDir flags w = (Ret (b, err), w') \<and>
       (err = None \<longleftrightarrow> bp_Status b \<noteq> BuildInternalError)"
  by (auto simp: runBuild_def split: prod.split option.split)

lemma build_and_run_Ret:
  assumes "l_Run lang = Some run"
  shows "\<exists>resp err w'. build_and_run proc cfg ctx lang jobDir req w = (Ret (resp, err), w') \<and>
    (err = None \<longrightarrow> answer_ok req resp)"
proof (cases "l_Build lang")
  case None
  obtain resp w' where "run_phase proc cfg ctx lang jobDir req None w = (Ret (resp, None), w')"
    "rp_Build resp = None" "rp_Status resp = rollup resp" "length (rp_Tests resp) = length (effective_tests req)"
    using run_phase_Ret [OF assms, of proc cfg ctx jobDir req None w] by blast
  with None show ?thesis by (simp add: build_and_run_def answer_ok_def)
next
  case (Some ph)
  obtain b err w1 where b: "runBuild proc cfg ctx lang jobDir (rq_BuildFlags req) w = (Ret (b, err), w1)"
    "err = None \<longleftrightarrow> bp_Status b \<noteq> BuildInternalError"
    using runBuild_Ret [OF Some, of proc cfg ctx jobDir "rq_BuildFlags req" w] by blast
  obtain resp w' where r: "run_phase proc cfg ctx lang jobDir req (Some b) w1 = (Ret (resp, None), w')"
    "rp_Build resp = Some b" "rp_Status resp = rollup resp" "length (rp_Tests resp) = length (effective_tests req)"
    using run_phase_Ret [OF assms, of proc cfg ctx jobDir req "Some b" w1] by blast
  show ?thesis
  proof (cases err)
    case None
    then have "bp_Status b = BuildOK \<or> bp_Status b = BuildFailed" using b(2) by (cases "bp_Status b") auto
    then show ?thesis
    proof
      assume "bp_Status b = BuildOK"
      then show ?thesis using Some None b(1) r by (simp add: build_and_run_def answer_ok_def)
    next
      assume "bp_Status b = BuildFailed"
      then show ?thesis using Some None b(1) by (simp add: build_and_run_def answer_ok_def)
    qed
  next
    case err: (Some e)
    then show ?thesis using Some b(1) by (simp add: build_and_run_def)
  qed
qed

section \<open>The phases stay inside the job directory\<close>

lemma runOne_frame [frame]:
  "jail_confined env \<Longrightarrow> unchanged_outside jobDir (w_fs w)
     (w_fs (snd (runOne (os_run env) cfg ctx lang jobDir flags stdin tlim mem w)))"
  using sandbox_Run_frame [of env "one_spec cfg (the (l_Run lang)) lang jobDir flags stdin tlim mem" w ctx]
  by (auto simp: runOne_def one_spec_def Let_def split: option.split prod.split)

lemma runTest_frame [frame]:
  "jail_confined env \<Longrightarrow> unchanged_outside jobDir (w_fs w)
     (w_fs (snd (runTest (os_run env) cfg ctx lang jobDir flags tc w)))"
  using runOne_frame [of env jobDir w cfg ctx lang flags "tc_Input tc" "tc_TimeLimitS tc" "tc_MemoryKB tc"]
  by (auto simp: runTest_def split: prod.split go.split)

lemma run_tests_frame [frame]:
  assumes "jail_confined env"
  shows "unchanged_outside jobDir (w_fs w) (w_fs (snd (run_tests (os_run env) cfg ctx lang jobDir flags tcs w)))"
proof (induction tcs arbitrary: w)
  case (Cons tc tcs)
  obtain r w1 where r: "runTest (os_run env) cfg ctx lang jobDir flags tc w = (r, w1)" by fastforce
  then have "unchanged_outside jobDir (w_fs w) (w_fs w1)"
    using runTest_frame [OF assms, of jobDir w cfg ctx lang flags tc] by simp
  moreover note Cons.IH [of w1]
  ultimately show ?case
    using r by (auto split: prod.split go.split intro: unchanged_trans)
qed simp

lemma run_phase_frame [frame]:
  assumes "jail_confined env"
  shows "unchanged_outside jobDir (w_fs w) (w_fs (snd (run_phase (os_run env) cfg ctx lang jobDir req b w)))"
  using run_tests_frame [OF assms, of jobDir w cfg ctx lang "rq_RunFlags req" "rq_TestCases req"]
    runOne_frame [OF assms, of jobDir w cfg ctx lang "rq_RunFlags req" "[]" "rq_TimeLimitS req" "rq_MemoryKB req"]
  by (auto simp: run_phase_def Let_def split: prod.split go.split)

lemma runBuild_frame [frame]:
  "jail_confined env \<Longrightarrow> unchanged_outside jobDir (w_fs w)
     (w_fs (snd (runBuild (os_run env) cfg ctx lang jobDir flags w)))"
  using sandbox_Run_frame [of env "build_spec cfg (the (l_Build lang)) lang jobDir flags" w ctx]
  by (auto simp: runBuild_def build_spec_def Let_def split: option.split prod.split)

lemma build_and_run_frame [frame]:
  assumes "jail_confined env"
  shows "unchanged_outside jobDir (w_fs w) (w_fs (snd (build_and_run (os_run env) cfg ctx lang jobDir req w)))"
proof -
  obtain r w1 where r: "runBuild (os_run env) cfg ctx lang jobDir (rq_BuildFlags req) w = (r, w1)" by fastforce
  then have "unchanged_outside jobDir (w_fs w) (w_fs w1)"
    using runBuild_frame [OF assms, of jobDir w cfg ctx lang "rq_BuildFlags req"] by simp
  moreover note run_phase_frame [OF assms, of jobDir w1 cfg ctx lang req]
    run_phase_frame [OF assms, of jobDir w cfg ctx lang req None]
  ultimately show ?thesis
    using r by (auto simp: build_and_run_def split: prod.split go.split option.split intro: unchanged_trans)
qed

section \<open>The processes of a run\<close>

definition test_spec :: "config \<Rightarrow> phase \<Rightarrow> language \<Rightarrow> string \<Rightarrow> request \<Rightarrow> test_case \<Rightarrow> run_spec" where
  "test_spec cfg run lang jobDir req tc =
     one_spec cfg run lang jobDir (rq_RunFlags req) (tc_Input tc) (tc_TimeLimitS tc) (tc_MemoryKB tc)"

definition build_part :: "config \<Rightarrow> int list \<Rightarrow> language \<Rightarrow> string \<Rightarrow> request \<Rightarrow> invocation list" where
  "build_part cfg ctx lang jobDir req = (case l_Build lang of None \<Rightarrow> []
     | Some ph \<Rightarrow> [make_invocation ctx (build_spec cfg ph lang jobDir (rq_BuildFlags req))])"

definition test_part :: "config \<Rightarrow> int list \<Rightarrow> language \<Rightarrow> string \<Rightarrow> request \<Rightarrow> invocation list" where
  "test_part cfg ctx lang jobDir req = (case l_Run lang of None \<Rightarrow> []
     | Some run \<Rightarrow> map (\<lambda>tc. make_invocation ctx (test_spec cfg run lang jobDir req tc)) (effective_tests req))"

lemma runOne_spawned:
  assumes "l_Run lang = Some run" "cf_NsjailPath cfg \<noteq> []" "ph_Command run \<noteq> []"
  shows "w_spawned (snd (runOne (os_run env) cfg ctx lang jobDir flags stdin tlim mem w)) =
    w_spawned w @ [make_invocation ctx (one_spec cfg run lang jobDir flags stdin tlim mem)]"
proof -
  let ?iv = "make_invocation ctx (one_spec cfg run lang jobDir flags stdin tlim mem)"
  obtain o' w' where "os_run env ?iv w = (o', w')" by fastforce
  then show ?thesis
    using assms spawned_calls(6) [of env ?iv w] by (simp add: runOne_eq)
qed

lemma snd_runTest: "snd (runTest proc cfg ctx lang jobDir flags tc w) =
    snd (runOne proc cfg ctx lang jobDir flags (tc_Input tc) (tc_TimeLimitS tc) (tc_MemoryKB tc) w)"
  by (simp add: runTest_def split: prod.split go.split)

lemma run_tests_spawned:
  assumes "l_Run lang = Some run" "cf_NsjailPath cfg \<noteq> []" "ph_Command run \<noteq> []"
  shows "w_spawned (snd (run_tests (os_run env) cfg ctx lang jobDir flags tcs w)) = w_spawned w @
    map (\<lambda>tc. make_invocation ctx (one_spec cfg run lang jobDir flags (tc_Input tc) (tc_TimeLimitS tc) (tc_MemoryKB tc))) tcs"
proof (induction tcs arbitrary: w)
  case (Cons tc tcs)
  obtain tr w1 where r: "runTest (os_run env) cfg ctx lang jobDir flags tc w = (Ret tr, w1)"
    using runTest_Ret [OF assms(1), of "os_run env" cfg ctx jobDir flags tc w] by blast
  then have "w_spawned w1 = w_spawned w @ [make_invocation ctx
      (one_spec cfg run lang jobDir flags (tc_Input tc) (tc_TimeLimitS tc) (tc_MemoryKB tc))]"
    using runOne_spawned [OF assms, of env ctx jobDir flags "tc_Input tc" "tc_TimeLimitS tc" "tc_MemoryKB tc" w]
    by (simp flip: snd_runTest)
  moreover obtain trs w2 where "run_tests (os_run env) cfg ctx lang jobDir flags tcs w1 = (Ret trs, w2)"
    using run_tests_Ret [OF assms(1), of "os_run env" cfg ctx jobDir flags tcs w1] by blast
  ultimately show ?case using r Cons.IH [of w1] by simp
qed simp

lemma run_phase_spawned:
  assumes "l_Run lang = Some run" "cf_NsjailPath cfg \<noteq> []" "ph_Command run \<noteq> []"
  shows "w_spawned (snd (run_phase (os_run env) cfg ctx lang jobDir req b w)) =
    w_spawned w @ test_part cfg ctx lang jobDir req"
proof (cases "rq_TestCases req = []")
  case True
  obtain tr w1 where "runOne (os_run env) cfg ctx lang jobDir (rq_RunFlags req) []
      (rq_TimeLimitS req) (rq_MemoryKB req) w = (Ret tr, w1)"
    using runOne_Ret [OF assms(1), of "os_run env" cfg ctx jobDir "rq_RunFlags req" "[]"
        "rq_TimeLimitS req" "rq_MemoryKB req" w] by blast
  then show ?thesis
    using True runOne_spawned [OF assms, of env ctx jobDir "rq_RunFlags req" "[]" "rq_TimeLimitS req" "rq_MemoryKB req" w]
    by (simp add: run_phase_def test_part_def assms(1) effective_tests_def test_spec_def Let_def)
next
  case False
  obtain trs w1 where "run_tests (os_run env) cfg ctx lang jobDir (rq_RunFlags req) (rq_TestCases req) w = (Ret trs, w1)"
    using run_tests_Ret [OF assms(1), of "os_run env" cfg ctx jobDir "rq_RunFlags req" "rq_TestCases req" w]
    by blast
  then show ?thesis
    using False run_tests_spawned [OF assms, of env ctx jobDir "rq_RunFlags req" "rq_TestCases req" w]
    by (simp add: run_phase_def test_part_def assms(1) effective_tests_def test_spec_def Let_def)
qed

text \<open>The build, and unless it fails one process per test, in the order of the request.\<close>

definition build_passed :: "language \<Rightarrow> response \<Rightarrow> bool" where
  "build_passed lang resp \<longleftrightarrow>
     l_Build lang = None \<or> (\<exists>b. rp_Build resp = Some b \<and> bp_Status b = BuildOK)"

lemma runBuild_spawned:
  assumes "l_Build lang = Some ph" "cf_NsjailPath cfg \<noteq> []" "ph_Command ph \<noteq> []"
  shows "w_spawned (snd (runBuild (os_run env) cfg ctx lang jobDir (rq_BuildFlags req) w)) =
    w_spawned w @ build_part cfg ctx lang jobDir req"
proof -
  let ?iv = "make_invocation ctx (build_spec cfg ph lang jobDir (rq_BuildFlags req))"
  obtain o' w' where "os_run env ?iv w = (o', w')" by fastforce
  then show ?thesis
    using assms spawned_calls(6) [of env ?iv w] by (simp add: runBuild_eq build_part_def)
qed

lemma validate_commands:
  assumes "validate lang = None"
  obtains run where "l_Run lang = Some run" "ph_Command run \<noteq> []"
    "\<And>b. l_Build lang = Some b \<Longrightarrow> ph_Command b \<noteq> []"
  using assms by (auto simp: validate_def split: if_splits option.splits)

lemma build_and_run_spawned:
  assumes v: "validate lang = None" and p: "cf_NsjailPath cfg \<noteq> []"
    and r: "build_and_run (os_run env) cfg ctx lang jobDir req w = (Ret (resp, err), w')"
  shows "w_spawned w' = w_spawned w @ build_part cfg ctx lang jobDir req @
    (if build_passed lang resp then test_part cfg ctx lang jobDir req else [])"
proof -
  obtain run where run: "l_Run lang = Some run" "ph_Command run \<noteq> []"
    and bc: "\<And>b. l_Build lang = Some b \<Longrightarrow> ph_Command b \<noteq> []"
    using validate_commands [OF v] by blast
  note phase = run_phase_spawned [OF run(1) p run(2), of env ctx jobDir req]
  note phase_Ret = run_phase_Ret [OF run(1), of "os_run env" cfg ctx jobDir req]
  show ?thesis
  proof (cases "l_Build lang")
    case None
    then show ?thesis
      using r phase [of None w] by (simp add: build_and_run_def build_part_def build_passed_def)
  next
    case (Some ph)
    obtain b be w1 where b: "runBuild (os_run env) cfg ctx lang jobDir (rq_BuildFlags req) w = (Ret (b, be), w1)"
      "be = None \<longleftrightarrow> bp_Status b \<noteq> BuildInternalError"
      using runBuild_Ret [OF Some, of "os_run env" cfg ctx jobDir "rq_BuildFlags req" w] by blast
    have s1: "w_spawned w1 = w_spawned w @ build_part cfg ctx lang jobDir req"
      using runBuild_spawned [OF Some p bc [OF Some], of env ctx jobDir req w] b by simp
    show ?thesis
    proof (cases "bp_Status b = BuildOK")
      case True
      then have "run_phase (os_run env) cfg ctx lang jobDir req (Some b) w1 = (Ret (resp, err), w')"
        using r Some b by (simp add: build_and_run_def)
      then show ?thesis
        using phase [of "Some b" w1] phase_Ret [of "Some b" w1] s1 True
        by (auto simp: build_passed_def)
    next
      case False
      then have "w' = w1" "rp_Build resp = Some b"
        using r Some b by (auto simp: build_and_run_def split: option.splits)
      then show ?thesis using False s1 Some by (simp add: build_passed_def)
    qed
  qed
qed

section \<open>The job directory comes and goes\<close>

lemma job_dir_entry:
  assumes "CHR ''/'' \<notin> set u"
  shows "job_dir cfg u = entry_of (filepath_Clean (cf_JobRoot cfg)) (''job-'' @ u)"
  unfolding job_dir_def by (rule filepath_Join_plain) (use assms in \<open>simp add: plain_def\<close>)

lemma Clean_job_dir:
  assumes "CHR ''/'' \<notin> set u"
  shows "filepath_Clean (job_dir cfg u) = job_dir cfg u"
proof (cases "cf_JobRoot cfg = []")
  case True
  have "plain (''job-'' @ u)" using assms by (simp add: plain_def)
  moreover from True have "job_dir cfg u = filepath_Clean (''job-'' @ u)"
    by (simp add: job_dir_def filepath_Join_def)
  ultimately show ?thesis by (simp add: Clean_plain)
next
  case False
  then show ?thesis by (simp add: job_dir_def)
qed

lemma entry_of_neq: "plain n \<Longrightarrow> entry_of d n \<noteq> ''/'' \<and> entry_of d n \<noteq> ''.''"
  by (auto simp: entry_of_def plain_def append_eq_Cons_conv)

text \<open>A safe source name other than a dot or two is a file directly in the job directory.\<close>

lemma source_path:
  assumes u: "CHR ''/'' \<notin> set u" and n: "plain n"
  shows "filepath_Join [job_dir cfg u, n] = job_dir cfg u @ CHR ''/'' # n"
proof -
  have "plain (''job-'' @ u)" using u by (simp add: plain_def)
  then have "job_dir cfg u \<noteq> ''/''" "job_dir cfg u \<noteq> ''.''"
    unfolding job_dir_entry [OF u] using entry_of_neq by blast+
  then show ?thesis
    using filepath_Join_plain [OF n, of "job_dir cfg u"] Clean_job_dir [OF u, of cfg]
    by (simp add: entry_of_def)
qed

lemma in_job_dir_frame:
  assumes jc: "jail_confined env" and u: "CHR ''/'' \<notin> set u" and n: "plain (l_SourceFile lang)"
  shows "unchanged_outside (job_dir cfg u) (w_fs w)
    (w_fs (snd (in_job_dir env cfg ctx lang (job_dir cfg u) req w)))"
proof -
  let ?d = "job_dir cfg u" and ?src = "job_dir cfg u @ CHR ''/'' # l_SourceFile lang"
  let ?o = "(cf_JailUID cfg, cf_JailGID cfg)"
  have s: "under ?d ?src" by (rule under_entry)
  obtain e1 w1 where 1: "WriteFile env ?src (rq_Source req) 0x1A4 w = (e1, w1)" by fastforce
  obtain e2 w2 where 2: "Chown env ?d ?o w1 = (e2, w2)" by fastforce
  obtain e3 w3 where 3: "Chown env ?src ?o w2 = (e3, w3)" by fastforce
  have f: "unchanged_outside ?d (w_fs w) (w_fs w1)" "unchanged_outside ?d (w_fs w1) (w_fs w2)"
    "unchanged_outside ?d (w_fs w2) (w_fs w3)"
    using WriteFile_frame [OF s, of w env "rq_Source req" "0x1A4"] Chown_frame [OF under_refl, of ?d w1 env ?o]
      Chown_frame [OF s, of w2 env ?o] 1 2 3 by simp_all
  note f4 = build_and_run_frame [OF jc, of ?d w3 cfg ctx lang req]
  show ?thesis
    unfolding in_job_dir_def source_path [OF u n] Let_def 1
    by (cases e1; cases e2; cases e3)
       (simp_all add: 2 3 f f4 unchanged_trans [OF f(1) f(2)]
         unchanged_trans [OF f(1) unchanged_trans [OF f(2) f(3)]]
         unchanged_trans [OF f(1) unchanged_trans [OF f(2) unchanged_trans [OF f(3) f4]]])
qed

text \<open>
  The job directory the next run will use does not exist yet, and its parents do
  (\<open>main\<close> creates the job root before anything else).
\<close>

definition next_job_dir :: "os_env \<Rightarrow> config \<Rightarrow> world \<Rightarrow> string" where
  "next_job_dir env cfg w = job_dir cfg (os_uuid env (w_tick w + 1))"

definition job_ready :: "os_env \<Rightarrow> config \<Rightarrow> world \<Rightarrow> bool" where
  "job_ready env cfg w \<longleftrightarrow> (let d = next_job_dir env cfg w in
     (\<forall>q. under d q \<longrightarrow> w_fs w q = None) \<and> (\<forall>q \<in> set (dir_prefixes d). q \<noteq> d \<longrightarrow> w_fs w q \<noteq> None))"

lemma with_job_dir_cleanup:
  assumes jc: "jail_confined env" and rc: "removals_complete env" and u: "uuids_plain env"
    and n: "plain (l_SourceFile lang)"
    and fresh: "\<forall>q. under (job_dir cfg (os_uuid env (w_tick w))) q \<longrightarrow> w_fs w q = None"
    and par: "\<forall>q \<in> set (dir_prefixes (job_dir cfg (os_uuid env (w_tick w)))).
      q \<noteq> job_dir cfg (os_uuid env (w_tick w)) \<longrightarrow> w_fs w q \<noteq> None"
  shows "w_fs (snd (with_job_dir env cfg ctx lang req w)) = w_fs w"
proof -
  define id where "id = os_uuid env (w_tick w)"
  let ?d = "job_dir cfg id"
  have uid: "CHR ''/'' \<notin> set id" using u by (simp add: uuids_plain_def id_def)
  obtain e1 w1 where 1: "MkdirAll env ?d 0x1ED (tick w) = (e1, w1)" by fastforce
  obtain r w2 where 2: "in_job_dir env cfg ctx lang ?d req w1 = (r, w2)" by fastforce
  have f1: "unchanged_outside ?d (w_fs w) (w_fs w1)"
    using MkdirAll_frame [of ?d "tick w" env "0x1ED"] par 1 by (simp add: id_def)
  have f2: "unchanged_outside ?d (w_fs w1) (w_fs w2)"
    using in_job_dir_frame [OF jc uid n, of cfg w1 ctx req] 2 by simp
  show ?thesis
  proof (cases e1)
    case None
    have "w_fs (RemoveAll env ?d w2) = w_fs w"
      using RemoveAll_restores [OF rc unchanged_trans [OF f1 f2]] fresh by (simp add: id_def)
    then show ?thesis
      using 1 2 None by (simp add: with_job_dir_def Let_def flip: id_def)
  next
    case (Some e)
    have "w_fs w1 = w_fs (tick w)" using 1 Some
      by (auto simp: MkdirAll_def os_call_def split: option.splits sum.splits)
    then show ?thesis
      using 1 Some by (simp add: with_job_dir_def Let_def flip: id_def)
  qed
qed

section \<open>Run as a whole\<close>

lemma run_deferred_ok:
  assumes "ring_ok (ex_stats st)"
  obtains s where "Observe d (ex_stats st) = Ret s" "ring_ok s"
    "ring_window s = last_n ringCap (ring_window (ex_stats st) @ [d])"
    "run_deferred d st = (None, st\<lparr>ex_stats := DecInFlight s, ex_sem := ex_sem st - 1\<rparr>)"
proof -
  obtain s where s: "Observe d (ex_stats st) = Ret s" "ring_ok s"
    "ring_window s = last_n ringCap (ring_window (ex_stats st) @ [d])"
    using ring.obs_step [OF assms] by blast
  then have "run_deferred d st = (None, st\<lparr>ex_stats := DecInFlight s, ex_sem := ex_sem st - 1\<rparr>)"
    by (simp add: run_deferred_def)
  with s show thesis by (rule that)
qed

lemma Run_overloaded:
  "sem_capacity cfg \<le> int (ex_sem st) \<Longrightarrow> Run env cfg reg ctx req st =
     (Ret (error_response, Some ErrOverloaded), st\<lparr>ex_stats := IncRejected (ex_stats st)\<rparr>)"
  by (simp add: Run_def)

lemma Run_admitted:
  assumes adm: "int (ex_sem st) < sem_capacity cfg" and ok: "ring_ok (ex_stats st)"
    and rc: "run_checked env cfg reg ctx req (tick (ex_world st)) = (r, w)"
  obtains d s where "Run env cfg reg ctx req st =
      (r, \<lparr>ex_sem = ex_sem st, ex_stats = DecInFlight s, ex_world = tick w\<rparr>)"
    "Observe d (IncInFlight (ex_stats st)) = Ret s" "ring_ok s"
    "ring_window s = last_n ringCap (ring_window (ex_stats st) @ [d])"
proof -
  let ?st = "st\<lparr>ex_sem := ex_sem st + 1, ex_stats := IncInFlight (ex_stats st), ex_world := tick w\<rparr>"
  let ?d = "since (os_now env (w_tick (ex_world st))) (os_now env (w_tick w))"
  have "ring_ok (ex_stats ?st)" using ok by simp
  then obtain s where s: "Observe ?d (ex_stats ?st) = Ret s" "ring_ok s"
    "ring_window s = last_n ringCap (ring_window (ex_stats ?st) @ [?d])"
    "run_deferred ?d ?st = (None, ?st\<lparr>ex_stats := DecInFlight s, ex_sem := ex_sem ?st - 1\<rparr>)"
    by (rule run_deferred_ok)
  have "Run env cfg reg ctx req st = (r, ?st\<lparr>ex_stats := DecInFlight s, ex_sem := ex_sem ?st - 1\<rparr>)"
    using adm rc s(4) by (simp add: Run_def Let_def)
  then have "Run env cfg reg ctx req st =
      (r, \<lparr>ex_sem = ex_sem st, ex_stats = DecInFlight s, ex_world = tick w\<rparr>)"
    by (cases st) simp
  with s show thesis by (intro that) simp_all
qed

text \<open>What every run keeps: the slots, the in-flight count and the shape of the ring.\<close>

definition exec_ok :: "config \<Rightarrow> exec_state \<Rightarrow> bool" where
  "exec_ok cfg st \<longleftrightarrow> int (ex_sem st) \<le> sem_capacity cfg \<and> ring_ok (ex_stats st) \<and>
     i64 (st_inFlight (ex_stats st))"

lemma Run_state:
  fixes env :: os_env and cfg reg ctx req st
  assumes ok: "exec_ok cfg st"
  defines "st' \<equiv> snd (Run env cfg reg ctx req st)"
  shows "exec_ok cfg st' \<and> ex_sem st' = ex_sem st \<and> st_inFlight (ex_stats st') = st_inFlight (ex_stats st)"
proof (cases "int (ex_sem st) < sem_capacity cfg")
  case False
  then have "st' = st\<lparr>ex_stats := IncRejected (ex_stats st)\<rparr>" by (simp add: st'_def Run_overloaded)
  with ok show ?thesis by (simp add: exec_ok_def IncRejected_def ring_ok_def)
next
  case True
  obtain r w where rc: "run_checked env cfg reg ctx req (tick (ex_world st)) = (r, w)" by fastforce
  have ro: "ring_ok (ex_stats st)" and i: "i64 (st_inFlight (ex_stats st))"
    using ok by (simp_all add: exec_ok_def)
  obtain d s where s: "Run env cfg reg ctx req st =
      (r, \<lparr>ex_sem = ex_sem st, ex_stats = DecInFlight s, ex_world = tick w\<rparr>)"
    "Observe d (IncInFlight (ex_stats st)) = Ret s" "ring_ok s"
    using Run_admitted [OF True ro rc] by blast
  have "st_inFlight s = wrap64 (st_inFlight (ex_stats st) + 1)"
    using Observe_counters [OF s(2)] by (simp add: IncInFlight_def)
  then have "st_inFlight (DecInFlight s) = st_inFlight (ex_stats st)"
    using wrap64_inc_dec [OF i] by (simp add: DecInFlight_def)
  with s ok show ?thesis by (simp add: st'_def exec_ok_def)
qed

lemma in_job_dir_Ret:
  assumes run: "l_Run lang = Some run"
  shows "\<exists>resp err. fst (in_job_dir env cfg ctx lang d req w) = Ret (resp, err) \<and>
    (err = None \<longrightarrow> answer_ok req resp)"
proof -
  let ?src = "filepath_Join [d, l_SourceFile lang]" and ?o = "(cf_JailUID cfg, cf_JailGID cfg)"
  obtain e1 w1 where 1: "WriteFile env ?src (rq_Source req) 0x1A4 w = (e1, w1)" by fastforce
  obtain e2 w2 where 2: "Chown env d ?o w1 = (e2, w2)" by fastforce
  obtain e3 w3 where 3: "Chown env ?src ?o w2 = (e3, w3)" by fastforce
  obtain resp err w' where b: "build_and_run (os_run env) cfg ctx lang d req w3 = (Ret (resp, err), w')"
    "err = None \<longrightarrow> answer_ok req resp"
    using build_and_run_Ret [OF run, of "os_run env" cfg ctx d req w3] by blast
  show ?thesis
    unfolding in_job_dir_def Let_def 1
    by (cases e1; cases e2; cases e3) (simp_all add: 2 3 b)
qed

lemma with_job_dir_Ret:
  assumes run: "l_Run lang = Some run"
  shows "\<exists>resp err. fst (with_job_dir env cfg ctx lang req w) = Ret (resp, err) \<and>
    (err = None \<longrightarrow> answer_ok req resp)"
proof -
  let ?d = "job_dir cfg (os_uuid env (w_tick w))"
  obtain e1 w1 where 1: "MkdirAll env ?d 0x1ED (tick w) = (e1, w1)" by fastforce
  obtain r w2 where 2: "in_job_dir env cfg ctx lang ?d req w1 = (r, w2)" by fastforce
  from in_job_dir_Ret [OF run, of env cfg ctx ?d req w1] show ?thesis
    unfolding with_job_dir_def Let_def 1 by (cases e1) (simp_all add: 2)
qed

lemma run_checked_Ret:
  assumes "reg_ok reg"
  shows "\<exists>resp err. fst (run_checked env cfg reg ctx req w) = Ret (resp, err) \<and> (err = None \<longrightarrow> answer_ok req resp)"
proof -
  obtain c where c: "check_request cfg reg req = Ret c" using check_request_no_panic [OF assms] by blast
  show ?thesis
  proof (cases c)
    case (Inr lang)
    then obtain run where "l_Run lang = Some run"
      using check_request_accepts(1) [of cfg reg req lang] c reg.get_run [OF assms] by blast
    then show ?thesis using c Inr with_job_dir_Ret [of lang run env cfg ctx req w]
      by (simp add: run_checked_def)
  qed (simp add: run_checked_def c)
qed

lemma Run_Ret:
  assumes "reg_ok reg" "exec_ok cfg st"
  shows "\<exists>resp err. fst (Run env cfg reg ctx req st) = Ret (resp, err) \<and> (err = None \<longrightarrow> answer_ok req resp)"
proof (cases "int (ex_sem st) < sem_capacity cfg")
  case True
  obtain r w where rc: "run_checked env cfg reg ctx req (tick (ex_world st)) = (r, w)" by fastforce
  have "ring_ok (ex_stats st)" using assms(2) by (simp add: exec_ok_def)
  then have "fst (Run env cfg reg ctx req st) = r"
    using Run_admitted [OF True _ rc] by (metis fst_conv)
  then show ?thesis using run_checked_Ret [OF assms(1), of env cfg ctx req "tick (ex_world st)"] rc by simp
qed (simp add: Run_overloaded)

end
