(* ===== verification/Run_Correct.thy ===== *)
theory Run_Correct
  imports Executor_Run
begin

text \<open>
  The properties of \<open>Executor.Run\<close> as a whole: it returns, leaves the file system and the
  semaphore as they were, starts exactly the processes the request asks for under the limits
  of the language, and refuses a request without any effect. The sample environment at the
  end of the laws is where the witnesses evaluate it.
\<close>

section \<open>More laws of Run\<close>

lemma check_request_safe: "check_request cfg reg req = Ret (Inr lang) \<Longrightarrow>
    l_SourceFile lang \<noteq> ''.'' \<Longrightarrow> l_SourceFile lang \<noteq> ''..'' \<Longrightarrow> plain (l_SourceFile lang)"
  using check_request_accepts(4) safeName_plain by blast

lemma run_checked_cleanup:
  assumes jc: "jail_confined env" "removals_complete env" "uuids_plain env"
    and n: "\<And>lang. Get reg (rq_Language req) = Some lang \<Longrightarrow> l_SourceFile lang \<noteq> ''.'' \<and> l_SourceFile lang \<noteq> ''..''"
    and ready: "job_ready env cfg w"
  shows "w_fs (snd (run_checked env cfg reg ctx req (tick w))) = w_fs w"
proof -
  have t: "w_tick (tick w) = w_tick w + 1" by (simp add: tick_def)
  have "w_fs (snd (with_job_dir env cfg ctx lang req (tick w))) = w_fs w"
    if c: "check_request cfg reg req = Ret (Inr lang)" for lang
  proof -
    have "plain (l_SourceFile lang)"
      using check_request_safe [OF c] n [OF check_request_accepts(1) [OF c]] by blast
    then show ?thesis
      using with_job_dir_cleanup [OF jc, of lang cfg "tick w" ctx req] ready
      by (simp add: job_ready_def next_job_dir_def t Let_def)
  qed
  then show ?thesis by (simp add: run_checked_def split: go.split sum.split)
qed

text \<open>The processes a run leaves in the log, whatever happens on the way.\<close>

lemma in_job_dir_spawned:
  assumes v: "validate lang = None" and p: "cf_NsjailPath cfg \<noteq> []"
    and r: "in_job_dir env cfg ctx lang d req w = (Ret (resp, None), w')"
  shows "w_spawned w' = w_spawned w @ build_part cfg ctx lang d req @
    (if build_passed lang resp then test_part cfg ctx lang d req else [])"
proof -
  let ?src = "filepath_Join [d, l_SourceFile lang]" and ?o = "(cf_JailUID cfg, cf_JailGID cfg)"
  obtain e1 w1 where 1: "WriteFile env ?src (rq_Source req) 0x1A4 w = (e1, w1)" by fastforce
  obtain e2 w2 where 2: "Chown env d ?o w1 = (e2, w2)" by fastforce
  obtain e3 w3 where 3: "Chown env ?src ?o w2 = (e3, w3)" by fastforce
  have "w_spawned w3 = w_spawned w"
    using spawned_calls(3) [of env d ?o w1] spawned_calls(3) [of env ?src ?o w2]
      spawned_calls(4) [of env ?src "rq_Source req" "0x1A4" w] 1 2 3 by simp
  moreover have "build_and_run (os_run env) cfg ctx lang d req w3 = (Ret (resp, None), w')"
    using r unfolding in_job_dir_def Let_def 1
    by (cases e1; cases e2; cases e3) (simp_all add: 2 3)
  ultimately show ?thesis using build_and_run_spawned [OF v p] by metis
qed

lemma with_job_dir_spawned:
  assumes v: "validate lang = None" and p: "cf_NsjailPath cfg \<noteq> []"
    and r: "with_job_dir env cfg ctx lang req w = (Ret (resp, None), w')"
  defines "d \<equiv> job_dir cfg (os_uuid env (w_tick w))"
  shows "w_spawned w' = w_spawned w @ build_part cfg ctx lang d req @
    (if build_passed lang resp then test_part cfg ctx lang d req else [])"
proof -
  obtain e1 w1 where 1: "MkdirAll env d 0x1ED (tick w) = (e1, w1)" by fastforce
  obtain x w2 where 2: "in_job_dir env cfg ctx lang d req w1 = (x, w2)" by fastforce
  have "w_spawned w1 = w_spawned w" using spawned_calls(2) [of env d "0x1ED" "tick w"] 1 by simp
  moreover have "x = Ret (resp, None)" "w' = RemoveAll env d w2"
    using r unfolding with_job_dir_def Let_def d_def [symmetric] 1 by (cases e1; simp add: 2)+
  ultimately show ?thesis using in_job_dir_spawned [OF v p, of env ctx d req w1 resp w2] 2 by simp
qed

lemma DecInFlight_kept: "st_total (DecInFlight s) = st_total s" "st_rejected (DecInFlight s) = st_rejected s"
  by (simp_all add: DecInFlight_def)

text \<open>The checks succeed exactly under these conditions.\<close>

definition acceptable :: "config \<Rightarrow> language \<Rightarrow> phase \<Rightarrow> request \<Rightarrow> bool" where
  "acceptable cfg lang run req \<longleftrightarrow>
     int (length (rq_Source req)) \<le> cf_MaxSourceBytes cfg \<and>
     int (length (rq_TestCases req)) \<le> cf_MaxTestCases cfg \<and>
     safeName (l_SourceFile lang) \<and> (l_Artifact lang = [] \<or> safeName (l_Artifact lang)) \<and>
     (\<forall>b. l_Build lang = Some b \<longrightarrow> set (rq_BuildFlags req) \<subseteq> set (ph_AllowedFlags b)) \<and>
     set (rq_RunFlags req) \<subseteq> set (ph_AllowedFlags run) \<and>
     rq_TimeLimitS req \<le> ph_TimeLimitS run \<and> rq_MemoryKB req \<le> ph_MemoryKB run \<and>
     (\<forall>tc \<in> set (rq_TestCases req). tc_TimeLimitS tc \<le> ph_TimeLimitS run \<and> tc_MemoryKB tc \<le> ph_MemoryKB run)"

lemma check_request_acceptable:
  assumes g: "Get reg (rq_Language req) = Some lang" and run: "l_Run lang = Some run"
  shows "check_request cfg reg req = Ret (Inr lang) \<longleftrightarrow> acceptable cfg lang run req"
proof
  assume c: "check_request cfg reg req = Ret (Inr lang)"
  show "acceptable cfg lang run req"
    using check_request_accepts [OF c] boundOverrides_accepts_iff [OF run, of req] run
    by (simp add: acceptable_def)
next
  assume a: "acceptable cfg lang run req"
  then have "boundOverrides lang req = Ret None" by (simp add: boundOverrides_accepts_iff [OF run] acceptable_def)
  moreover have "filterFlags (rq_RunFlags req) (ph_AllowedFlags run) = None"
    using a by (simp add: filterFlags_None_iff acceptable_def)
  moreover have "l_Build lang = Some b \<Longrightarrow> filterFlags (rq_BuildFlags req) (ph_AllowedFlags b) = None" for b
    using a by (simp add: filterFlags_None_iff acceptable_def)
  ultimately show "check_request cfg reg req = Ret (Inr lang)"
    using a g run by (simp add: check_request_def acceptable_def split: option.split)
qed

lemma Run_restores:
  assumes "jail_confined env" "removals_complete env" "uuids_plain env"
    and "\<forall>lang. Get reg (rq_Language req) = Some lang \<longrightarrow> l_SourceFile lang \<noteq> ''.'' \<and> l_SourceFile lang \<noteq> ''..''"
    and "job_ready env cfg (ex_world st)" "exec_ok cfg st"
  shows "w_fs (ex_world (snd (Run env cfg reg ctx req st))) = w_fs (ex_world st)"
proof (cases "int (ex_sem st) < sem_capacity cfg")
  case True
  obtain r w where rc: "run_checked env cfg reg ctx req (tick (ex_world st)) = (r, w)" by fastforce
  have "w_fs w = w_fs (ex_world st)"
    using run_checked_cleanup [OF assms(1-3) _ assms(5), of reg req ctx] assms(4) rc by simp
  moreover have "ring_ok (ex_stats st)" using assms(6) by (simp add: exec_ok_def)
  ultimately show ?thesis using Run_admitted [OF True _ rc] by (metis exec_state.select_convs(3) snd_conv tick_simps(1))
qed (simp add: Run_overloaded)

section \<open>A sample run\<close>

definition sample_env :: "os_env" where
  "sample_env = \<lparr>os_fail = (\<lambda>_. None), os_torn = (\<lambda>_. None), os_keep = (\<lambda>_ _. False), os_self = (0, 0),
     os_proc = (\<lambda>t fs iv. (fst (prints_42 iv ()), fs)), os_uuid = (\<lambda>_. ''u''), os_now = (\<lambda>t. int t)\<rparr>"

definition sample_world :: world where
  "sample_world = \<lparr>w_fs = [''/tmp'' \<mapsto> DirNode 0x1FF (0, 0), ''/tmp/goboxd'' \<mapsto> DirNode 0x1ED (0, 0)],
     w_tick = 0, w_spawned = [], w_calls = []\<rparr>"

definition sample_registry :: registry where
  "sample_registry = \<lparr>reg_languages = [''python'' \<mapsto> sample_language]\<rparr>"

definition sample_state :: exec_state where
  "sample_state = \<lparr>ex_sem = 0, ex_stats = NewStats, ex_world = sample_world\<rparr>"

lemma sample_env_ok: "jail_confined sample_env" "removals_complete sample_env" "uuids_plain sample_env"
  by (simp_all add: jail_confined_def removals_complete_def uuids_plain_def sample_env_def)

lemma sample_next_job_dir: "next_job_dir sample_env sample_config sample_world = ''/tmp/goboxd/job-u''"
  by code_simp

lemma sample_ready: "job_ready sample_env sample_config sample_world"
proof -
  have "dir_prefixes ''/tmp/goboxd/job-u'' = [''/tmp'', ''/tmp/goboxd'', ''/tmp/goboxd/job-u'']" by code_simp
  then show ?thesis
    unfolding job_ready_def sample_next_job_dir
    by (auto simp: Let_def sample_world_def under_def)
qed

lemma sample_Get: "Get sample_registry ''python'' = Some sample_language"
  by (simp add: Get_def sample_registry_def)

lemma sample_reg_ok: "reg_ok sample_registry"
  by (auto simp: reg_ok_def sample_registry_def sample_defs validate_def split: if_splits)

lemma sample_capacity: "sem_capacity sample_config = 2"
  by (simp add: sem_capacity_def sample_config_def wrap64_small)

lemma sample_exec_ok: "exec_ok sample_config sample_state"
  by (simp add: exec_ok_def sample_state_def ring_ok_NewStats sample_capacity) (simp add: NewStats_def i64_def)

definition modest_request :: request where
  "modest_request = sample_request\<lparr>rq_TestCases := [sample_test]\<rparr>"

lemma sample_accepted:
  assumes "rq_Language req = ''python''" "rq_Source req = ''print(42)''" "rq_BuildFlags req = []" "rq_RunFlags req = []"
    and "rq_TimeLimitS req = 0" "rq_MemoryKB req = 0" "set (rq_TestCases req) \<subseteq> {sample_test}" "length (rq_TestCases req) \<le> 1"
  shows "check_request sample_config sample_registry req = Ret (Inr sample_language)"
proof -
  have "cf_MaxSourceBytes sample_config = 262144" "cf_MaxTestCases sample_config = 100" "safeName ''main.py''" by code_simp+
  then have "acceptable sample_config sample_language sample_run req"
    using assms by (auto simp: acceptable_def sample_language_def sample_run_def sample_test_def)
  then show ?thesis
    using check_request_acceptable [of sample_registry req sample_language sample_run sample_config] sample_Get assms(1)
    by (simp add: sample_language_def)
qed

lemma modest_accepted: "check_request sample_config sample_registry modest_request = Ret (Inr sample_language)"
  by (rule sample_accepted) (simp_all add: modest_request_def sample_request_def)

text \<open>Every system call of the sample run succeeds.\<close>

lemma sample_in_job_dir:
  assumes fs: "is_dir (w_fs w ''/tmp/goboxd/job-u'')" "w_fs w ''/tmp/goboxd/job-u/main.py'' = None"
  shows "\<exists>resp w'. in_job_dir sample_env sample_config ctx sample_language ''/tmp/goboxd/job-u'' req w =
    (Ret (resp, None), w') \<and> rp_Build resp = None"
proof -
  let ?d = "''/tmp/goboxd/job-u''" and ?src = "''/tmp/goboxd/job-u/main.py''"
  let ?o = "(cf_JailUID sample_config, cf_JailGID sample_config)"
  obtain m u where dir: "w_fs w ?d = Some (DirNode m u)" using fs(1) by (cases "w_fs w ?d" rule: is_dir.cases) auto
  have fail: "os_fail sample_env t = None" for t by (simp add: sample_env_def)
  have src: "filepath_Join [?d, l_SourceFile sample_language] = ?src" by code_simp
  obtain w1 where 1: "WriteFile sample_env ?src (rq_Source req) 0x1A4 w = (None, w1)"
    "w_fs w1 = (w_fs w)(?src \<mapsto> FileNode (rq_Source req) 0x1A4 (0, 0))"
    using fs(2) by (simp add: WriteFile_def os_call_def fail fs_write_file_def) (simp add: sample_env_def)
  obtain w2 where 2: "Chown sample_env ?d ?o w1 = (None, w2)" "w_fs w2 = (w_fs w1)(?d \<mapsto> DirNode m ?o)"
    using dir 1 by (simp add: Chown_def os_call_def fail fs_chown_def)
  obtain w3 where 3: "Chown sample_env ?src ?o w2 = (None, w3)"
    using 1 2 by (simp add: Chown_def os_call_def fail fs_chown_def)
  obtain resp w' where "build_and_run (os_run sample_env) sample_config ctx sample_language ?d req w3 = (Ret (resp, None), w')" "rp_Build resp = None"
    using run_phase_Ret [of sample_language sample_run "os_run sample_env" sample_config ctx ?d req None w3]
    by (auto simp: build_and_run_def sample_language_def)
  then show ?thesis unfolding in_job_dir_def Let_def src 1 by (simp add: 2 3)
qed

lemma sample_answer:
  assumes accepted: "check_request sample_config sample_registry req = Ret (Inr sample_language)"
  shows "\<exists>resp st'. Run sample_env sample_config sample_registry ctx req sample_state = (Ret (resp, None), st') \<and> rp_Build resp = None"
proof -
  let ?d = "''/tmp/goboxd/job-u''" and ?w = "tick (tick sample_world)"
  have jd: "job_dir sample_config (os_uuid sample_env n) = ?d" for n
    using sample_next_job_dir by (simp add: next_job_dir_def sample_env_def)
  have dp: "dir_prefixes ?d = [''/tmp'', ''/tmp/goboxd'', ?d]" by code_simp
  have fail: "os_fail sample_env t = None" and self: "os_self sample_env = (0, 0)" for t
    by (simp_all add: sample_env_def)
  obtain w1 where 1: "MkdirAll sample_env ?d 0x1ED ?w = (None, w1)"
    "is_dir (w_fs w1 ?d)" "w_fs w1 ''/tmp/goboxd/job-u/main.py'' = None"
  proof -
    have "\<not> (\<exists>q \<in> set (dir_prefixes ?d). is_file (w_fs ?w q))"
      unfolding dp by (simp add: sample_world_def)
    then have "MkdirAll sample_env ?d 0x1ED ?w = (None, (called (SysMkdirAll ?d 0x1ED None) ?w)\<lparr>w_fs :=
        (\<lambda>q. if w_fs ?w q = None \<and> q \<in> set (dir_prefixes ?d) then Some (DirNode 0x1ED (0, 0)) else w_fs ?w q)\<rparr>)"
      by (simp add: MkdirAll_def os_call_def fail fs_mkdir_all_def self cong: if_cong)
    then show thesis by (rule that) (unfold dp, simp_all add: sample_world_def)
  qed
  obtain resp w2 where "in_job_dir sample_env sample_config ctx sample_language ?d req w1 = (Ret (resp, None), w2)" "rp_Build resp = None"
    using sample_in_job_dir [OF 1(2,3), of ctx req] by blast
  then have "run_checked sample_env sample_config sample_registry ctx req (tick sample_world) =
      (Ret (resp, None), RemoveAll sample_env ?d w2)"
    using 1 by (simp add: run_checked_def accepted with_job_dir_def Let_def jd)
  then have rc: "run_checked sample_env sample_config sample_registry ctx req (tick (ex_world sample_state)) =
      (Ret (resp, None), RemoveAll sample_env ?d w2)" by (simp add: sample_state_def)
  have adm: "int (ex_sem sample_state) < sem_capacity sample_config" "ring_ok (ex_stats sample_state)"
    using sample_exec_ok sample_capacity by (simp_all add: sample_state_def exec_ok_def)
  show ?thesis using Run_admitted [OF adm rc] \<open>rp_Build resp = None\<close> by blast
qed

lemmas modest_answer = sample_answer [OF modest_accepted]

section \<open>Properties\<close>

text \<open>C1. A run cleans up after itself: whatever the operating system, the program and the request
  do - calls that fail, a build that fails, a program that writes in its directory - the file
  system is afterwards what it was before. (The jailed process writes nowhere but in the
  mounted job directory, removals succeed, and the language's source file is not a dot name.)\<close>

theorem run_restores_the_file_system:
  assumes "jail_confined env" "removals_complete env" "uuids_plain env"
    and "\<forall>lang. Get reg (rq_Language req) = Some lang \<longrightarrow> l_SourceFile lang \<noteq> ''.'' \<and> l_SourceFile lang \<noteq> ''..''"
    and "job_ready env cfg (ex_world st)" "exec_ok cfg st"
  shows "w_fs (ex_world (snd (Run env cfg reg ctx req st))) = w_fs (ex_world st)"
  by (rule Run_restores [OF assms])

theorem run_restores_the_file_system_witness:
  "w_fs (ex_world (snd (Run sample_env sample_config sample_registry [] sample_request sample_state))) =
   w_fs sample_world"
  using run_restores_the_file_system [OF sample_env_ok, of sample_registry sample_request sample_config sample_state "[]"]
    sample_ready sample_exec_ok sample_Get
  by (simp add: sample_state_def sample_request_def sample_language_def)

text \<open>C5. A call of Run always gives its slot back and leaves the in-flight count as it found it.
  An admitted call adds one to the total and one observation to the latency window; a call
  that finds the semaphore full adds one to the rejections and does nothing else.\<close>

theorem run_accounts_for_itself:
  assumes "exec_ok cfg st"
  shows "let st' = snd (Run env cfg reg ctx req st) in
    exec_ok cfg st' \<and> ex_sem st' = ex_sem st \<and> st_inFlight (ex_stats st') = st_inFlight (ex_stats st) \<and>
    (if int (ex_sem st) < sem_capacity cfg
     then st_total (ex_stats st') = wrap64 (st_total (ex_stats st) + 1) \<and>
       st_rejected (ex_stats st') = st_rejected (ex_stats st) \<and>
       (\<exists>d. ring_window (ex_stats st') = last_n 1024 (ring_window (ex_stats st) @ [d]))
     else fst (Run env cfg reg ctx req st) = Ret (error_response, Some ErrOverloaded) \<and>
       ex_world st' = ex_world st \<and> ex_stats st' = (ex_stats st)\<lparr>st_rejected := wrap64 (st_rejected (ex_stats st) + 1)\<rparr>)"
proof (cases "int (ex_sem st) < sem_capacity cfg")
  case True
  obtain r w where rc: "run_checked env cfg reg ctx req (tick (ex_world st)) = (r, w)" by fastforce
  have "ring_ok (ex_stats st)" using assms by (simp add: exec_ok_def)
  then obtain d s where s: "Run env cfg reg ctx req st =
      (r, \<lparr>ex_sem = ex_sem st, ex_stats = DecInFlight s, ex_world = tick w\<rparr>)"
    "Observe d (IncInFlight (ex_stats st)) = Ret s"
    "ring_window s = last_n ringCap (ring_window (ex_stats st) @ [d])"
    using Run_admitted [OF True _ rc] by blast
  then show ?thesis
    using True Run_state [OF assms, of env reg ctx req] Observe_counters [OF s(2)]
    by (auto simp: Let_def IncInFlight_def DecInFlight_kept ringCap_def)
next
  case False
  then show ?thesis
    using Run_state [OF assms, of env reg ctx req] by (simp add: Let_def Run_overloaded IncRejected_def)
qed

theorem run_accounts_for_itself_witness:
  "ex_sem (snd (Run sample_env sample_config sample_registry [] sample_request sample_state)) = 0"
  using run_accounts_for_itself [OF sample_exec_ok, of sample_env sample_registry "[]" sample_request]
  by (simp add: Let_def) (simp add: sample_state_def)

text \<open>C6. With a loaded registry Run never panics, and an answer without an error is well formed:
  either the build failed, the status says so and every test case is listed as not executed, or
  the build (if any) passed, there is one result per test run and the status is their rollup.\<close>

theorem run_returns_a_complete_answer:
  assumes "reg_ok reg" "exec_ok cfg st"
  shows "\<exists>resp err. fst (Run env cfg reg ctx req st) = Ret (resp, err) \<and>
    (err = None \<longrightarrow>
      rp_Status resp = StatusBuildFailed \<and> (\<exists>b. rp_Build resp = Some b \<and> bp_Status b = BuildFailed) \<and>
        length (rp_Tests resp) = length (rq_TestCases req) \<and>
        (\<forall>t \<in> set (rp_Tests resp). tr_Status t = StatusNotExecuted) \<or>
      (\<forall>b. rp_Build resp = Some b \<longrightarrow> bp_Status b = BuildOK) \<and> rp_Status resp = rollup resp \<and>
        length (rp_Tests resp) = max 1 (length (rq_TestCases req)))"
proof -
  obtain resp err where r: "fst (Run env cfg reg ctx req st) = Ret (resp, err)" "err = None \<longrightarrow> answer_ok req resp"
    using Run_Ret [OF assms] by blast
  have "length (effective_tests req) = max 1 (length (rq_TestCases req))"
    by (cases "rq_TestCases req") (simp_all add: effective_tests_def)
  with r show ?thesis by (auto simp: answer_ok_def not_executed_def)
qed

theorem run_returns_a_complete_answer_witness:
  "\<exists>resp err. fst (Run sample_env sample_config sample_registry [] sample_request sample_state) = Ret (resp, err)"
  using run_returns_a_complete_answer [OF sample_reg_ok sample_exec_ok, of sample_env "[]" sample_request] by blast

text \<open>C2. The processes of a run that answers without an error: the build if the language has one,
  and then, unless it failed, one process per test case in the order of the request (one with
  empty input when there is none), all in the run's own job directory, and nothing else.\<close>

theorem run_starts_exactly_these_processes:
  assumes ok: "reg_ok reg" "exec_ok cfg st" "cf_NsjailPath cfg \<noteq> []"
    and r: "Run env cfg reg ctx req st = (Ret (resp, None), st')"
  shows "\<exists>lang. Get reg (rq_Language req) = Some lang \<and>
    (let d = next_job_dir env cfg (ex_world st) in
     w_spawned (ex_world st') = w_spawned (ex_world st) @
       (case l_Build lang of None \<Rightarrow> []
        | Some ph \<Rightarrow> [make_invocation ctx (build_spec cfg ph lang d (rq_BuildFlags req))]) @
       (if l_Build lang = None \<or> (\<exists>b. rp_Build resp = Some b \<and> bp_Status b = BuildOK) then
          map (\<lambda>tc. make_invocation ctx (one_spec cfg (the (l_Run lang)) lang d (rq_RunFlags req)
            (tc_Input tc) (tc_TimeLimitS tc) (tc_MemoryKB tc))) (effective_tests req)
        else []))"
proof -
  have adm: "int (ex_sem st) < sem_capacity cfg"
    using r Run_overloaded [of cfg st env reg ctx req] by (cases "sem_capacity cfg \<le> int (ex_sem st)") auto
  obtain r' w where rc: "run_checked env cfg reg ctx req (tick (ex_world st)) = (r', w)" by fastforce
  have "ring_ok (ex_stats st)" using ok(2) by (simp add: exec_ok_def)
  then have st': "r' = Ret (resp, None)" "ex_world st' = tick w"
    using Run_admitted [OF adm _ rc] r by (metis exec_state.select_convs(3) prod.inject)+
  then obtain lang where c: "check_request cfg reg req = Ret (Inr lang)"
    using rc by (auto simp: run_checked_def split: go.splits sum.splits)
  then have g: "Get reg (rq_Language req) = Some lang" by (rule check_request_accepts(1))
  then have v: "validate lang = None" and run: "\<exists>run. l_Run lang = Some run"
    using reg.get_valid [OF ok(1)] reg.get_run [OF ok(1)] by blast+
  have "with_job_dir env cfg ctx lang req (tick (ex_world st)) = (Ret (resp, None), w)"
    using rc c st'(1) by (simp add: run_checked_def)
  from with_job_dir_spawned [OF v ok(3) this] show ?thesis
    using g st'(2) run
    by (auto simp: Let_def build_part_def test_part_def test_spec_def build_passed_def next_job_dir_def tick_def)
qed

theorem run_starts_exactly_these_processes_witness:
  "\<exists>st'. snd (Run sample_env sample_config sample_registry [] modest_request sample_state) = st' \<and>
     length (w_spawned (ex_world st')) = 1"
proof -
  obtain resp st' where r: "Run sample_env sample_config sample_registry [] modest_request sample_state = (Ret (resp, None), st')"
    using modest_answer by blast
  have "cf_NsjailPath sample_config \<noteq> []" by code_simp
  from run_starts_exactly_these_processes [OF sample_reg_ok sample_exec_ok this r] show ?thesis
    using r sample_Get
    by (auto simp: Let_def modest_request_def sample_request_def effective_tests_def sample_state_def
        sample_world_def sample_language_def)
qed

text \<open>C8. A request is let through exactly when the language is known, the source and the number of
  test cases are within the limits, the registry's file names are safe, every build and run flag
  is allowed and no override exceeds the language's limits.\<close>

theorem request_checks_decide:
  assumes "reg_ok reg"
  shows "check_request cfg reg req = Ret (Inr lang) \<longleftrightarrow>
    Get reg (rq_Language req) = Some lang \<and> (\<exists>run. l_Run lang = Some run \<and>
      int (length (rq_Source req)) \<le> cf_MaxSourceBytes cfg \<and>
      int (length (rq_TestCases req)) \<le> cf_MaxTestCases cfg \<and>
      safeName (l_SourceFile lang) \<and> (l_Artifact lang = [] \<or> safeName (l_Artifact lang)) \<and>
      (\<forall>b. l_Build lang = Some b \<longrightarrow> set (rq_BuildFlags req) \<subseteq> set (ph_AllowedFlags b)) \<and>
      set (rq_RunFlags req) \<subseteq> set (ph_AllowedFlags run) \<and>
      rq_TimeLimitS req \<le> ph_TimeLimitS run \<and> rq_MemoryKB req \<le> ph_MemoryKB run \<and>
      (\<forall>tc \<in> set (rq_TestCases req). tc_TimeLimitS tc \<le> ph_TimeLimitS run \<and> tc_MemoryKB tc \<le> ph_MemoryKB run))"
proof (cases "Get reg (rq_Language req) = Some lang")
  case True
  then obtain run where "l_Run lang = Some run" using reg.get_run [OF assms] by blast
  then show ?thesis using check_request_acceptable [OF True, of run cfg] True by (simp add: acceptable_def)
qed (use check_request_accepts(1) in blast)

theorem request_checks_decide_witness:
  "check_request sample_config sample_registry sample_request \<noteq> Ret (Inr sample_language)"
  using request_checks_decide [OF sample_reg_ok, of sample_config sample_request sample_language]
  by (simp add: sample_request_def sample_defs)

text \<open>C7. A request that is refused, by overload or by the checks, gets the error and an otherwise
  empty response; no process is started for it and no file is touched.\<close>

theorem refused_request_has_no_effect:
  assumes ok: "reg_ok reg" "exec_ok cfg st"
    and refused: "sem_capacity cfg \<le> int (ex_sem st) \<or> (\<forall>lang. check_request cfg reg req \<noteq> Ret (Inr lang))"
  shows "\<exists>e st'. Run env cfg reg ctx req st = (Ret (error_response, Some e), st') \<and>
    (if sem_capacity cfg \<le> int (ex_sem st) then e = ErrOverloaded else check_request cfg reg req = Ret (Inl e)) \<and>
    w_fs (ex_world st') = w_fs (ex_world st) \<and> w_spawned (ex_world st') = w_spawned (ex_world st)"
proof (cases "sem_capacity cfg \<le> int (ex_sem st)")
  case False
  then have adm: "int (ex_sem st) < sem_capacity cfg" by simp
  obtain c where c: "check_request cfg reg req = Ret c" using check_request_no_panic [OF ok(1)] by blast
  then obtain e where e: "c = Inl e" using refused False by (cases c) auto
  have "run_checked env cfg reg ctx req (tick (ex_world st)) = (Ret (error_response, Some e), tick (ex_world st))"
    using c e by (simp add: run_checked_def)
  moreover have "ring_ok (ex_stats st)" using ok(2) by (simp add: exec_ok_def)
  ultimately obtain d s where "Run env cfg reg ctx req st = (Ret (error_response, Some e),
      \<lparr>ex_sem = ex_sem st, ex_stats = DecInFlight s, ex_world = tick (tick (ex_world st))\<rparr>)"
    using Run_admitted [OF adm] by metis
  then show ?thesis using False c e by simp
qed (simp add: Run_overloaded)

theorem refused_request_has_no_effect_witness:
  "\<exists>e st'. Run sample_env sample_config sample_registry [] sample_request sample_state = (Ret (error_response, Some e), st')"
proof -
  have "check_request sample_config sample_registry sample_request \<noteq> Ret (Inr lang)" for lang
    using check_request_accepts(1,8) [of sample_config sample_registry sample_request lang] sample_Get
      boundOverrides_accepts_iff [of sample_language sample_run sample_request]
    by (auto simp: sample_request_def sample_defs)
  then show ?thesis
    using refused_request_has_no_effect [OF sample_reg_ok sample_exec_ok, of sample_request sample_env "[]"] by blast
qed

text \<open>C4. A request that is let through never runs a test with more time or memory than its language
  grants: on every command line nsjail's time limit is at most the language's, its memory limit
  at most the language's in whole megabytes, and the hard deadline is two seconds after it.\<close>

theorem limits_are_never_raised:
  assumes c: "check_request cfg reg req = Ret (Inr lang)" and run: "l_Run lang = Some run"
    and t: "0 \<le> ph_TimeLimitS run" "ph_TimeLimitS run < 9223372034"
    and tc: "tc \<in> set (effective_tests req)"
  shows "\<exists>secs mb. let iv = make_invocation ctx (one_spec cfg run lang d (rq_RunFlags req)
        (tc_Input tc) (tc_TimeLimitS tc) (tc_MemoryKB tc)) in
    opt_value ''--time_limit'' (iv_args iv) = Some (Itoa secs) \<and> 0 \<le> secs \<and> secs \<le> ph_TimeLimitS run \<and>
    opt_value ''--rlimit_as'' (iv_args iv) = Some (Itoa mb) \<and> mb \<le> ph_MemoryKB run sdiv 1024 \<and>
    iv_timeouts iv = (secs + 2) * 1000000000 # ctx"
proof -
  have le: "tc_TimeLimitS tc \<le> ph_TimeLimitS run" "tc_MemoryKB tc \<le> ph_MemoryKB run"
    using check_request_accepts(8) [OF c] boundOverrides_accepts_iff [OF run, of req] tc
    by (auto simp: effective_tests_def split: if_splits)
  define secs where "secs = (if tc_TimeLimitS tc > 0 then tc_TimeLimitS tc else ph_TimeLimitS run)"
  define kb where "kb = (if tc_MemoryKB tc > 0 then tc_MemoryKB tc else ph_MemoryKB run)"
  let ?sp = "one_spec cfg run lang d (rq_RunFlags req) (tc_Input tc) (tc_TimeLimitS tc) (tc_MemoryKB tc)"
  have secs: "0 \<le> secs" "secs \<le> ph_TimeLimitS run" using le t by (simp_all add: secs_def)
  then have wall: "sp_WallTime ?sp = secs * 1000000000"
    using t by (simp add: one_spec_def Let_def secs_def wrap64_small)
  have "kb \<le> ph_MemoryKB run" using le by (simp add: kb_def)
  then have "kb sdiv 1024 \<le> ph_MemoryKB run sdiv 1024" by (rule sdiv_mono) simp
  moreover have "sp_MemoryKB ?sp = kb" by (simp add: one_spec_def Let_def kb_def)
  moreover have "trunc (Seconds (sp_WallTime ?sp)) = secs"
    using secs t unfolding wall by (intro trunc_Seconds_whole) simp
  moreover have "wrap64 (sp_WallTime ?sp + 2 * 1000000000) = (secs + 2) * 1000000000"
    using secs t unfolding wall by (subst wrap64_small) simp_all
  ultimately show ?thesis
    using secs opt_time_limit [of ?sp] opt_rlimit_as [of ?sp]
    by (intro exI [of _ secs] exI [of _ "kb sdiv 1024"]) (simp add: make_invocation_def Let_def)
qed

theorem limits_are_never_raised_witness:
  "\<exists>secs. opt_value ''--time_limit'' (iv_args (make_invocation [] (one_spec sample_config sample_run sample_language
     ''/j'' [] ''1'' 2 0))) = Some (Itoa secs) \<and> secs \<le> 5"
  using limits_are_never_raised [OF modest_accepted, of sample_run sample_test "[]" "''/j''"]
  by (auto simp: Let_def modest_request_def effective_tests_def sample_request_def sample_language_def
      sample_run_def sample_test_def)

text \<open>C39. Limits that vanish on the way to nsjail: an accepted request whose test asks for less than a
  megabyte (or whose language grants less) puts a memory limit of zero on the command line, and
  a language without a run time limit puts a time limit of zero there, with a hard deadline of
  two seconds; only a build without a time limit gets a default, thirty seconds.\<close>

theorem limits_can_vanish:
  fixes ctx d
  assumes c: "check_request cfg reg req = Ret (Inr lang)" and run: "l_Run lang = Some run"
    and tc: "tc \<in> set (effective_tests req)"
  defines "iv \<equiv> make_invocation ctx (one_spec cfg run lang d (rq_RunFlags req) (tc_Input tc) (tc_TimeLimitS tc) (tc_MemoryKB tc))"
  shows "((if 0 < tc_MemoryKB tc then tc_MemoryKB tc else ph_MemoryKB run) \<in> {0..<1024} \<longrightarrow>
      opt_value ''--rlimit_as'' (iv_args iv) = Some ''0'') \<and>
    (ph_TimeLimitS run = 0 \<longrightarrow>
      opt_value ''--time_limit'' (iv_args iv) = Some ''0'' \<and> iv_timeouts iv = 2000000000 # ctx) \<and>
    (\<forall>b. l_Build lang = Some b \<longrightarrow> ph_TimeLimitS b = 0 \<longrightarrow>
      opt_value ''--time_limit'' (iv_args (make_invocation ctx (build_spec cfg b lang d fs))) = Some ''30'')"
proof -
  have le: "tc_TimeLimitS tc \<le> ph_TimeLimitS run"
    using check_request_accepts(8) [OF c] boundOverrides_accepts_iff [OF run, of req] tc
    by (auto simp: effective_tests_def split: if_splits)
  have z: "Itoa 0 = ''0''" "Itoa 30 = ''30''" by code_simp+
  have t: "trunc (Seconds 0) = 0" "trunc (Seconds 30000000000) = 30"
    using trunc_Seconds_whole [of 0] trunc_Seconds_whole [of 30] by simp_all
  have "kb sdiv 1024 = 0" if "kb \<in> {0..<1024}" for kb :: int
    using that by (simp add: signed_divide_int_def)
  then show ?thesis
    using le opt_rlimit_as opt_time_limit
    by (auto simp: iv_def make_invocation_def one_spec_def build_spec_def Let_def wrap64_small z t)
qed

theorem limits_can_vanish_witness:
  "opt_value ''--rlimit_as'' (iv_args (make_invocation [] (one_spec sample_config sample_run sample_language ''/j''
     [] [] 0 1))) = Some ''0''"
proof -
  let ?req = "modest_request\<lparr>rq_TestCases := [], rq_MemoryKB := 1\<rparr>"
  have "cf_MaxSourceBytes sample_config = 262144" "cf_MaxTestCases sample_config = 100" "safeName ''main.py''" by code_simp+
  then have "acceptable sample_config sample_language sample_run ?req"
    by (simp add: acceptable_def sample_language_def sample_run_def modest_request_def sample_request_def)
  then have c: "check_request sample_config sample_registry ?req = Ret (Inr sample_language)"
    using check_request_acceptable [of sample_registry ?req sample_language sample_run sample_config] sample_Get
    by (simp add: sample_language_def modest_request_def sample_request_def)
  show ?thesis
    using limits_can_vanish [OF c, of sample_run "\<lparr>tc_Input = [], tc_ExpectedOutput = [], tc_TimeLimitS = 0, tc_MemoryKB = 1\<rparr>"
        "[]" "''/j''" "[]"]
    by (simp add: effective_tests_def modest_request_def sample_request_def sample_language_def)
qed

text \<open>A safe source file name other than a dot or two dots stays inside the job directory, as
  an entry of it. The pattern does accept two dots, and those name the job root itself.\<close>

theorem source_file_stays_in_the_job_directory:
  assumes u: "CHR ''/'' \<notin> set u"
  shows "(safeName s \<longrightarrow> s \<noteq> ''.'' \<longrightarrow> s \<noteq> ''..'' \<longrightarrow>
      filepath_Join [job_dir cfg u, s] = job_dir cfg u @ ''/'' @ s) \<and>
    safeName ''..'' \<and> safeName ''.'' \<and>
    filepath_Join [''/tmp/goboxd/job-u'', ''..''] = ''/tmp/goboxd'' \<and>
    filepath_Join [''/tmp/goboxd/job-u'', ''.''] = ''/tmp/goboxd/job-u''"
proof -
  have "safeName ''..''" "safeName ''.''" by code_simp+
  moreover have "filepath_Join [''/tmp/goboxd/job-u'', ''..''] = ''/tmp/goboxd''"
    "filepath_Join [''/tmp/goboxd/job-u'', ''.''] = ''/tmp/goboxd/job-u''" by code_simp+
  ultimately show ?thesis using source_path [OF u safeName_plain] by simp
qed

theorem source_file_stays_in_the_job_directory_witness:
  "filepath_Join [job_dir sample_config ''u'', ''main.py''] = job_dir sample_config ''u'' @ ''/main.py''"
proof -
  have "safeName ''main.py''" by code_simp
  then show ?thesis
    using source_file_stays_in_the_job_directory [of "''u''" "''main.py''" sample_config] by simp
qed

end
