(* ===== verification/Admission.thy ===== *)
theory Admission
  imports Run_Correct Transitions
begin

text \<open>
  Many goroutines inside \<open>Executor.Run\<close> at once. They share the semaphore channel and the
  counters; everything else a call does is its own. Each goroutine is at one of the points
  of \<open>call_pc\<close>, between two accesses to the shared state, and \<open>admission_step\<close> is one such
  access: the non-blocking acquire or the rejection, the two atomic additions of
  \<open>IncInFlight\<close>, \<open>Observe\<close> under its mutex, \<open>DecInFlight\<close>, and the release of the slot, in
  the order in which \<open>Run\<close> registers its deferred calls. The section of \<open>Observe\<close> under the mutex is
  one step: it writes three fields and calls nothing, so a wait for the mutex always ends and is
  not shown. A goroutine that has returned is
  \<open>Idle\<close> and may serve another request.
\<close>

section \<open>States and steps\<close>

datatype call_pc = Idle | Acquired | Counted | Executing | Observed | Uncounted

record admission =
  ad_pcs :: "call_pc list"
  ad_sem :: nat
  ad_stats :: stats

text \<open>The first half of \<open>IncInFlight\<close>; the second is \<open>add_inFlight\<close>.\<close>

definition add_total :: "stats \<Rightarrow> stats" where
  "add_total s = s\<lparr>st_total := wrap64 (st_total s + 1)\<rparr>"

definition add_inFlight :: "stats \<Rightarrow> stats" where
  "add_inFlight s = s\<lparr>st_inFlight := wrap64 (st_inFlight s + 1)\<rparr>"

inductive admission_step :: "int \<Rightarrow> nat \<Rightarrow> admission \<Rightarrow> admission \<Rightarrow> bool"
  for cap :: int and i :: nat where
  acquire: "i < length (ad_pcs a) \<Longrightarrow> ad_pcs a ! i = Idle \<Longrightarrow> int (ad_sem a) < cap \<Longrightarrow>
    admission_step cap i a (a\<lparr>ad_pcs := (ad_pcs a)[i := Acquired], ad_sem := ad_sem a + 1\<rparr>)"
| reject: "i < length (ad_pcs a) \<Longrightarrow> ad_pcs a ! i = Idle \<Longrightarrow> cap \<le> int (ad_sem a) \<Longrightarrow>
    admission_step cap i a (a\<lparr>ad_stats := IncRejected (ad_stats a)\<rparr>)"
| total: "i < length (ad_pcs a) \<Longrightarrow> ad_pcs a ! i = Acquired \<Longrightarrow>
    admission_step cap i a (a\<lparr>ad_pcs := (ad_pcs a)[i := Counted], ad_stats := add_total (ad_stats a)\<rparr>)"
| in_flight: "i < length (ad_pcs a) \<Longrightarrow> ad_pcs a ! i = Counted \<Longrightarrow>
    admission_step cap i a (a\<lparr>ad_pcs := (ad_pcs a)[i := Executing], ad_stats := add_inFlight (ad_stats a)\<rparr>)"
| observe: "i < length (ad_pcs a) \<Longrightarrow> ad_pcs a ! i = Executing \<Longrightarrow> Observe d (ad_stats a) = Ret s \<Longrightarrow>
    admission_step cap i a (a\<lparr>ad_pcs := (ad_pcs a)[i := Observed], ad_stats := s\<rparr>)"
| uncount: "i < length (ad_pcs a) \<Longrightarrow> ad_pcs a ! i = Observed \<Longrightarrow>
    admission_step cap i a (a\<lparr>ad_pcs := (ad_pcs a)[i := Uncounted], ad_stats := DecInFlight (ad_stats a)\<rparr>)"
| release: "i < length (ad_pcs a) \<Longrightarrow> ad_pcs a ! i = Uncounted \<Longrightarrow> 0 < ad_sem a \<Longrightarrow>
    admission_step cap i a (a\<lparr>ad_pcs := (ad_pcs a)[i := Idle], ad_sem := ad_sem a - 1\<rparr>)"

inductive_cases admission_stepE: "admission_step cap i a b"

definition admission_steps :: "int \<Rightarrow> admission \<Rightarrow> admission \<Rightarrow> bool" where
  "admission_steps cap a b \<longleftrightarrow> (\<exists>i. admission_step cap i a b)"

text \<open>\<open>executor.New\<close>: no slot is taken, and \<open>n\<close> goroutines are about to call \<open>Run\<close>.\<close>

definition admission_init :: "nat \<Rightarrow> admission \<Rightarrow> bool" where
  "admission_init n a \<longleftrightarrow> a = \<lparr>ad_pcs = replicate n Idle, ad_sem = 0, ad_stats = NewStats\<rparr>"

section \<open>The invariant\<close>

definition holds_slot :: "call_pc \<Rightarrow> bool" where
  "holds_slot p \<longleftrightarrow> p \<noteq> Idle"

definition in_flight_pc :: "call_pc \<Rightarrow> bool" where
  "in_flight_pc p \<longleftrightarrow> p = Executing \<or> p = Observed"

text \<open>
  The slots taken are those of the goroutines inside \<open>Run\<close>; the in-flight counter counts the
  ones between their two updates of it, so it never exceeds the slots.
\<close>

definition admission_ok :: "int \<Rightarrow> nat \<Rightarrow> admission \<Rightarrow> bool" where
  "admission_ok cap n a \<longleftrightarrow> length (ad_pcs a) = n \<and> ad_sem a = count_if holds_slot (ad_pcs a) \<and>
     int (ad_sem a) \<le> cap \<and> st_inFlight (ad_stats a) = int (count_if in_flight_pc (ad_pcs a)) \<and>
     ring_ok (ad_stats a)"

lemma in_flight_le_slots: "count_if in_flight_pc ps \<le> count_if holds_slot ps"
  by (rule count_if_mono) (auto simp: in_flight_pc_def holds_slot_def)

lemma admission_ok_init: "0 \<le> cap \<Longrightarrow> admission_init n a \<Longrightarrow> admission_ok cap n a"
  by (simp add: admission_init_def admission_ok_def holds_slot_def in_flight_pc_def ring_ok_NewStats)
     (simp add: NewStats_def)

lemma ring_ok_halves [simp]: "ring_ok (add_total s) = ring_ok s" "ring_ok (add_inFlight s) = ring_ok s"
  by (simp_all add: ring_ok_def add_total_def add_inFlight_def)

lemma Observe_ring_ok: "ring_ok s \<Longrightarrow> Observe d s = Ret t \<Longrightarrow> ring_ok t"
  using ring.obs_step [of s d] by auto

lemmas admission_defs = admission_ok_def holds_slot_def in_flight_pc_def

lemma admission_ok_step:
  assumes cap: "cap < 2 ^ 63" and ok: "admission_ok cap n a" and st: "admission_step cap i a b"
  shows "admission_ok cap n b"
proof -
  let ?k = "count_if in_flight_pc (ad_pcs a)"
  have i: "i < length (ad_pcs a)" using st by cases
  note slots = count_if_update [OF i, of holds_slot] and flight = count_if_update [OF i, of in_flight_pc]
  have le: "count_if in_flight_pc (ad_pcs b) \<le> count_if holds_slot (ad_pcs b)" by (rule in_flight_le_slots)
  have k: "int ?k \<le> cap" using in_flight_le_slots [of "ad_pcs a"] ok by (simp add: admission_ok_def)
  show ?thesis
    using st
  proof cases
    case acquire
    then show ?thesis using ok slots [of Acquired] flight [of Acquired] by (simp add: admission_defs)
  next
    case reject
    then show ?thesis using ok by (simp add: admission_defs IncRejected_def ring_ok_def)
  next
    case total
    then show ?thesis using ok slots [of Counted] flight [of Counted]
      by (simp add: admission_defs) (simp add: add_total_def)
  next
    case in_flight
    have "?k < count_if holds_slot (ad_pcs a)"
      using in_flight le slots [of Executing] flight [of Executing] by (simp add: holds_slot_def in_flight_pc_def)
    then have "wrap64 (int ?k + 1) = int ?k + 1"
      using cap ok by (intro wrap64_small) (simp_all add: admission_ok_def)
    then show ?thesis using ok in_flight slots [of Executing] flight [of Executing]
      by (simp add: admission_defs) (simp add: add_inFlight_def)
  next
    case (observe d s)
    then show ?thesis using ok Observe_counters [OF observe(4)] Observe_ring_ok [OF _ observe(4)]
        slots [of Observed] flight [of Observed]
      by (simp add: admission_defs)
  next
    case uncount
    have "0 < ?k" using uncount by (intro count_if_pos [of i]) (simp_all add: in_flight_pc_def)
    then have "wrap64 (int ?k - 1) = int ?k - 1" using k cap by (intro wrap64_small) simp_all
    then show ?thesis using ok uncount slots [of Uncounted] flight [of Uncounted]
      by (simp add: admission_defs) (simp add: DecInFlight_def)
  next
    case release
    then show ?thesis using ok slots [of Idle] flight [of Idle] by (simp add: admission_defs)
  qed
qed

text \<open>The capacities \<open>make(chan struct\{\}, n)\<close> accepts.\<close>

definition valid_capacity :: "int \<Rightarrow> bool" where
  "valid_capacity cap \<longleftrightarrow> 0 \<le> cap \<and> cap < 2 ^ 63"

interpretation adm: transition_system "admission_init n" "admission_steps cap"
  "\<lambda>a. valid_capacity cap \<longrightarrow> admission_ok cap n a" for n cap
  by unfold_locales
     (auto simp: valid_capacity_def admission_steps_def intro: admission_ok_init admission_ok_step)

abbreviation admission_reachable :: "int \<Rightarrow> nat \<Rightarrow> admission \<Rightarrow> bool" where
  "admission_reachable cap n \<equiv> reachable (admission_init n) (admission_steps cap)"

section \<open>Progress and saturation\<close>


lemma replicate_update:
  "k < n \<Longrightarrow> (replicate k x @ replicate (n - k) y)[k := x] = replicate (Suc k) x @ replicate (n - Suc k) y"
proof -
  assume "k < n"
  then have "n - k = Suc (n - Suc k)" by simp
  then show ?thesis by (simp add: list_update_append replicate_app_Cons_same)
qed

text \<open>All slots can be executing at once, those of the queue depth included.\<close>

lemma admission_saturates:
  "k \<le> n \<Longrightarrow> int k \<le> cap \<Longrightarrow> \<exists>s. admission_reachable cap n
     \<lparr>ad_pcs = replicate k Executing @ replicate (n - k) Idle, ad_sem = k, ad_stats = s\<rparr>"
proof (induction k)
  case 0
  then show ?case by (auto simp: admission_init_def intro!: reachable.start)
next
  case (Suc k)
  let ?ps = "replicate k Executing @ replicate (n - k) Idle"
  have len: "length ?ps = n" "?ps ! k = Idle" using Suc.prems by (simp_all add: nth_append)
  have upd: "?ps[k := Executing] = replicate (Suc k) Executing @ replicate (n - Suc k) Idle"
    using replicate_update [of k n Executing Idle] Suc.prems by simp
  obtain s where r: "admission_reachable cap n \<lparr>ad_pcs = ?ps, ad_sem = k, ad_stats = s\<rparr>"
    using Suc by auto
  have "admission_steps cap \<lparr>ad_pcs = ?ps, ad_sem = k, ad_stats = s\<rparr>
      \<lparr>ad_pcs = ?ps[k := Acquired], ad_sem = Suc k, ad_stats = s\<rparr>"
    using acquire [of k "\<lparr>ad_pcs = ?ps, ad_sem = k, ad_stats = s\<rparr>" cap] Suc.prems len
    by (auto simp: admission_steps_def)
  moreover have "admission_steps cap \<lparr>ad_pcs = ?ps[k := Acquired], ad_sem = Suc k, ad_stats = s\<rparr>
      \<lparr>ad_pcs = ?ps[k := Counted], ad_sem = Suc k, ad_stats = add_total s\<rparr>"
    using total [of k "\<lparr>ad_pcs = ?ps[k := Acquired], ad_sem = Suc k, ad_stats = s\<rparr>" cap] Suc.prems len
    by (auto simp: admission_steps_def)
  moreover have "admission_steps cap \<lparr>ad_pcs = ?ps[k := Counted], ad_sem = Suc k, ad_stats = add_total s\<rparr>
      \<lparr>ad_pcs = ?ps[k := Executing], ad_sem = Suc k, ad_stats = add_inFlight (add_total s)\<rparr>"
    using in_flight [of k "\<lparr>ad_pcs = ?ps[k := Counted], ad_sem = Suc k, ad_stats = add_total s\<rparr>" cap]
      Suc.prems len by (auto simp: admission_steps_def)
  ultimately show ?case unfolding upd using r by (blast intro: reachable.step)
qed

section \<open>A sequential call is one path of the steps\<close>

lemma IncInFlight_halves: "add_inFlight (add_total s) = IncInFlight s"
  by (simp add: add_inFlight_def add_total_def IncInFlight_def)

lemma step_into: "step\<^sup>*\<^sup>* a b \<Longrightarrow> step b c \<Longrightarrow> step\<^sup>*\<^sup>* a c"
  by (rule rtranclp.rtrancl_into_rtrancl)

lemma admitted_path:
  assumes i: "i < length ps" "ps ! i = Idle" and c: "int k < cap"
    and o': "Observe d (IncInFlight s) = Ret t"
  shows "(admission_step cap i)\<^sup>*\<^sup>* \<lparr>ad_pcs = ps, ad_sem = k, ad_stats = s\<rparr>
    \<lparr>ad_pcs = ps, ad_sem = k, ad_stats = DecInFlight t\<rparr>"
proof -
  let ?st = "\<lambda>p k s. \<lparr>ad_pcs = ps[i := p], ad_sem = k, ad_stats = s\<rparr>"
  have ps: "ps[i := Idle] = ps" using i list_update_id [of ps i] by simp
  have "admission_step cap i (?st Idle k s) (?st Acquired (k + 1) s)"
    using acquire [of i "?st Idle k s" cap] i c by simp
  moreover have "admission_step cap i (?st Acquired (k + 1) s) (?st Counted (k + 1) (add_total s))"
    using total [of i "?st Acquired (k + 1) s" cap] i by simp
  moreover have "admission_step cap i (?st Counted (k + 1) (add_total s)) (?st Executing (k + 1) (IncInFlight s))"
    using in_flight [of i "?st Counted (k + 1) (add_total s)" cap] i by (simp add: IncInFlight_halves)
  moreover have "admission_step cap i (?st Executing (k + 1) (IncInFlight s)) (?st Observed (k + 1) t)"
    using observe [of i "?st Executing (k + 1) (IncInFlight s)" d t cap] i o' by simp
  moreover have "admission_step cap i (?st Observed (k + 1) t) (?st Uncounted (k + 1) (DecInFlight t))"
    using uncount [of i "?st Observed (k + 1) t" cap] i by simp
  moreover have "admission_step cap i (?st Uncounted (k + 1) (DecInFlight t)) (?st Idle k (DecInFlight t))"
    using release [of i "?st Uncounted (k + 1) (DecInFlight t)" cap] i by simp
  ultimately have "(admission_step cap i)\<^sup>*\<^sup>* (?st Idle k s) (?st Idle k (DecInFlight t))"
    by (meson rtranclp.rtrancl_refl step_into)
  then show ?thesis unfolding ps .
qed

lemma Run_path:
  fixes env :: os_env and cfg reg ctx req st
  assumes ok: "exec_ok cfg st" and i: "i < length ps" "ps ! i = Idle"
  defines "st' \<equiv> snd (Run env cfg reg ctx req st)"
  shows "(admission_step (sem_capacity cfg) i)\<^sup>*\<^sup>*
    \<lparr>ad_pcs = ps, ad_sem = ex_sem st, ad_stats = ex_stats st\<rparr>
    \<lparr>ad_pcs = ps, ad_sem = ex_sem st', ad_stats = ex_stats st'\<rparr>"
proof (cases "int (ex_sem st) < sem_capacity cfg")
  case True
  obtain r w where rc: "run_checked env cfg reg ctx req (tick (ex_world st)) = (r, w)" by fastforce
  have "ring_ok (ex_stats st)" using ok by (simp add: exec_ok_def)
  then obtain d s where s: "Run env cfg reg ctx req st =
      (r, \<lparr>ex_sem = ex_sem st, ex_stats = DecInFlight s, ex_world = tick w\<rparr>)"
    "Observe d (IncInFlight (ex_stats st)) = Ret s"
    using Run_admitted [OF True _ rc] by blast
  then show ?thesis using admitted_path [OF i True s(2)] by (simp add: st'_def)
next
  case False
  let ?a = "\<lparr>ad_pcs = ps, ad_sem = ex_sem st, ad_stats = ex_stats st\<rparr>"
  have "admission_step (sem_capacity cfg) i ?a (?a\<lparr>ad_stats := IncRejected (ex_stats st)\<rparr>)"
    using reject [of i ?a "sem_capacity cfg"] i False by simp
  then show ?thesis using False by (simp add: st'_def Run_overloaded r_into_rtranclp)
qed

section \<open>Properties\<close>

text \<open>C14. However the calls interleave, the slots taken are exactly the calls inside Run and never
  more than the capacity of the semaphore, and the in-flight number reported by the metrics is
  the number of calls between their two updates of it, never negative and never more than the
  slots; when no call is inside, both are zero.\<close>

theorem admission_stays_in_bounds:
  assumes "0 \<le> cap" "cap < 2 ^ 63" and r: "reachable (admission_init n) (admission_steps cap) a"
  shows "ad_sem a = count_if (\<lambda>p. p \<noteq> Idle) (ad_pcs a) \<and> int (ad_sem a) \<le> cap \<and>
    st_inFlight (ad_stats a) = int (count_if (\<lambda>p. p = Executing \<or> p = Observed) (ad_pcs a)) \<and>
    0 \<le> st_inFlight (ad_stats a) \<and> st_inFlight (ad_stats a) \<le> int (ad_sem a) \<and>
    ((\<forall>p \<in> set (ad_pcs a). p = Idle) \<longrightarrow> ad_sem a = 0 \<and> st_inFlight (ad_stats a) = 0)"
proof -
  have ok: "admission_ok cap n a" using adm.inv_reachable [OF r] assms by (simp add: valid_capacity_def)
  have eqs: "holds_slot = (\<lambda>p. p \<noteq> Idle)" "in_flight_pc = (\<lambda>p. p = Executing \<or> p = Observed)"
    by (simp_all add: fun_eq_iff holds_slot_def in_flight_pc_def)
  have "count_if holds_slot (ad_pcs a) = 0" if "\<forall>p \<in> set (ad_pcs a). p = Idle"
    using that by (simp add: count_if_def filter_empty_conv holds_slot_def)
  then show ?thesis
    using ok in_flight_le_slots [of "ad_pcs a"] unfolding eqs [symmetric] by (auto simp: admission_ok_def)
qed

theorem admission_stays_in_bounds_witness:
  "\<exists>a. reachable (admission_init 3) (admission_steps 2) a \<and> ad_sem a = 2 \<and> st_inFlight (ad_stats a) \<le> 2"
proof -
  obtain s where r: "admission_reachable 2 3 \<lparr>ad_pcs = replicate 2 Executing @ replicate (3 - 2) Idle, ad_sem = 2, ad_stats = s\<rparr>"
    (is "admission_reachable 2 3 ?a") using admission_saturates [of 2 3 2] by auto
  have "st_inFlight s \<le> 2" using admission_stays_in_bounds [OF _ _ r] by simp
  then have "admission_reachable 2 3 ?a \<and> ad_sem ?a = 2 \<and> st_inFlight (ad_stats ?a) \<le> 2" using r by simp
  then show ?thesis by (rule exI)
qed



text \<open>The number of executions at one time is bounded by MaxConcurrency + QueueDepth only: a
  state is reachable in which that many calls are executing at once, the queue depth's share
  included. Nothing holds executions to MaxConcurrency.\<close>

theorem all_slots_execute_at_once:
  assumes "0 \<le> cf_MaxConcurrency cfg" "0 \<le> cf_QueueDepth cfg" "cf_MaxConcurrency cfg + cf_QueueDepth cfg < 2 ^ 63"
    and n: "nat (cf_MaxConcurrency cfg + cf_QueueDepth cfg) \<le> n"
  shows "\<exists>a. reachable (admission_init n) (admission_steps (sem_capacity cfg)) a \<and>
    int (count_if (\<lambda>p. p = Executing) (ad_pcs a)) = cf_MaxConcurrency cfg + cf_QueueDepth cfg"
proof -
  have "sem_capacity cfg = cf_MaxConcurrency cfg + cf_QueueDepth cfg"
    using assms unfolding sem_capacity_def by (intro wrap64_small) simp_all
  then obtain s where "admission_reachable (sem_capacity cfg) n
      \<lparr>ad_pcs = replicate (nat (sem_capacity cfg)) Executing @ replicate (n - nat (sem_capacity cfg)) Idle,
       ad_sem = nat (sem_capacity cfg), ad_stats = s\<rparr>"
    using admission_saturates [of "nat (sem_capacity cfg)" n "sem_capacity cfg"] assms by auto
  then show ?thesis using \<open>sem_capacity cfg = _\<close> assms(1,2) by (intro exI [of _ "\<lparr>ad_pcs =
      replicate (nat (sem_capacity cfg)) Executing @ replicate (n - nat (sem_capacity cfg)) Idle,
      ad_sem = nat (sem_capacity cfg), ad_stats = s\<rparr>"]) simp
qed

theorem all_slots_execute_at_once_witness:
  "\<exists>a. reachable (admission_init 5) (admission_steps 2) a \<and> int (count_if (\<lambda>p. p = Executing) (ad_pcs a)) = 2"
proof -
  have "cf_MaxConcurrency sample_config = 1" "cf_QueueDepth sample_config = 1" by (simp_all add: sample_config_def)
  then show ?thesis using all_slots_execute_at_once [of sample_config 5] sample_capacity by simp
qed

text \<open>C35. The sequential model of Run refines the concurrent one: on the semaphore and the
  statistics a whole call is a sequence of steps of its own caller, whatever the other callers
  are doing at the time.\<close>

theorem run_refines_admission:
  assumes "exec_ok cfg st" "i < length ps" "ps ! i = Idle"
  shows "(admission_step (sem_capacity cfg) i)\<^sup>*\<^sup>*
    \<lparr>ad_pcs = ps, ad_sem = ex_sem st, ad_stats = ex_stats st\<rparr>
    (let st' = snd (Run env cfg reg ctx req st) in \<lparr>ad_pcs = ps, ad_sem = ex_sem st', ad_stats = ex_stats st'\<rparr>)"
  using Run_path [OF assms] by (simp add: Let_def)

theorem run_refines_admission_witness:
  "(admission_step 2 0)\<^sup>*\<^sup>* \<lparr>ad_pcs = [Idle], ad_sem = 0, ad_stats = NewStats\<rparr>
    (let st' = snd (Run sample_env sample_config sample_registry [] sample_request sample_state)
     in \<lparr>ad_pcs = [Idle], ad_sem = ex_sem st', ad_stats = ex_stats st'\<rparr>)"
  using run_refines_admission [OF sample_exec_ok, of 0 "[Idle]" sample_env sample_registry "[]" sample_request]
  by (simp add: sample_capacity) (simp add: sample_state_def)

end
