(* ===== verification/Concurrent_Jobs.thy ===== *)
theory Concurrent_Jobs
  imports Run_Correct Transitions
begin

text \<open>
  Many runs of \<open>internal/executor/executor.go\<close> on one file system. The jobs are those that have
  passed the checks of \<open>Run\<close>, each with the identifier \<open>uuid.NewString\<close> gave it. A job is at one
  of the stages of \<open>job_stage\<close>, between two calls of \<open>Run\<close> that touch the file system, and
  \<open>job_action\<close> is one such call, in the order of the code: \<open>MkdirAll\<close>, \<open>WriteFile\<close>, two times
  \<open>Chown\<close>, the jailed processes, the deferred \<open>RemoveAll\<close>. Any call may fail. Each step carries
  the calls it makes, in the form in which \<open>Os\<close> logs them, so that the log of the sequential code
  can be held against the path it is said to take (\<open>job_path\<close>). While the
  processes of a job run, any number of changes inside its own directory may happen; that the
  jail admits no others is what nsjail is configured for (\<open>jail_confined\<close>).
\<close>

section \<open>Jobs and their steps\<close>

record site_job =
  jr_id :: string
  jr_lang :: language
  jr_req :: request

datatype job_stage = Fresh | Made | Written | DirOwned | Owned | Running | Removing | Finished | LeftBehind

record job_site =
  js_stages :: "job_stage list"
  js_fs :: filesys

definition run_dir :: "config \<Rightarrow> site_job \<Rightarrow> string" where
  "run_dir cfg j = job_dir cfg (jr_id j)"

definition run_source :: "config \<Rightarrow> site_job \<Rightarrow> string" where
  "run_source cfg j = filepath_Join [run_dir cfg j, l_SourceFile (jr_lang j)]"

definition jail_owner :: "config \<Rightarrow> int \<times> int" where
  "jail_owner cfg = (cf_JailUID cfg, cf_JailGID cfg)"

text \<open>
  The processes a job may start: its build and one for each of its tests, in its own directory,
  under the timeouts of the context it runs in.
\<close>

definition job_processes :: "config \<Rightarrow> site_job \<Rightarrow> invocation set" where
  "job_processes cfg j = (\<Union>ctx. set (build_part cfg ctx (jr_lang j) (run_dir cfg j) (jr_req j) @
     test_part cfg ctx (jr_lang j) (run_dir cfg j) (jr_req j)))"

text \<open>
  A step carries the calls it makes, with their arguments and their errors. A job leaves a
  stage only by the call that the code makes there, or by its failure.
\<close>

inductive job_action ::
  "config \<Rightarrow> int \<times> int \<Rightarrow> site_job \<Rightarrow> job_stage \<Rightarrow> filesys \<Rightarrow> sys_call list \<Rightarrow> job_stage \<Rightarrow> filesys \<Rightarrow> bool"
  for cfg self j where
  mkdir: "fs_mkdir_all self (run_dir cfg j) 0x1ED fs = Inr fs' \<Longrightarrow>
    job_action cfg self j Fresh fs [SysMkdirAll (run_dir cfg j) 0x1ED None] Made fs'"
| mkdir_failed: "job_action cfg self j Fresh fs [SysMkdirAll (run_dir cfg j) 0x1ED (Some e)] Finished fs"
| write_source: "fs_write_file self (run_source cfg j) (rq_Source (jr_req j)) 0x1A4 fs = Inr fs' \<Longrightarrow>
    job_action cfg self j Made fs [SysWriteFile (run_source cfg j) (rq_Source (jr_req j)) 0x1A4 None] Written fs'"
| write_failed:
    "job_action cfg self j Made fs [SysWriteFile (run_source cfg j) (rq_Source (jr_req j)) 0x1A4 (Some e)] Removing fs"
| write_torn: "\<not> is_dir (fs (run_source cfg j)) \<Longrightarrow>
    job_action cfg self j Made fs [SysWriteFile (run_source cfg j) (rq_Source (jr_req j)) 0x1A4 (Some e)]
      Removing (fs(run_source cfg j := n))"
| own_dir: "fs_chown (run_dir cfg j) (jail_owner cfg) fs = Inr fs' \<Longrightarrow>
    job_action cfg self j Written fs [SysChown (run_dir cfg j) (jail_owner cfg) None] DirOwned fs'"
| own_dir_failed: "job_action cfg self j Written fs [SysChown (run_dir cfg j) (jail_owner cfg) (Some e)] Removing fs"
| own_source: "fs_chown (run_source cfg j) (jail_owner cfg) fs = Inr fs' \<Longrightarrow>
    job_action cfg self j DirOwned fs [SysChown (run_source cfg j) (jail_owner cfg) None] Owned fs'"
| own_source_failed:
    "job_action cfg self j DirOwned fs [SysChown (run_source cfg j) (jail_owner cfg) (Some e)] Removing fs"
| start: "job_action cfg self j Owned fs [] Running fs"
| process: "iv \<in> job_processes cfg j \<Longrightarrow> unchanged_outside (run_dir cfg j) fs fs' \<Longrightarrow>
    job_action cfg self j Running fs [SysProcess iv] Running fs'"
| working: "unchanged_outside (run_dir cfg j) fs fs' \<Longrightarrow> job_action cfg self j Running fs [] Running fs'"
| processes_over: "job_action cfg self j Running fs [] Removing fs"
| remove: "job_action cfg self j Removing fs [SysRemoveAll (run_dir cfg j)]
    Finished (fs_remove_all (\<lambda>_. False) (run_dir cfg j) fs)"
| remove_failed: "job_action cfg self j Removing fs [SysRemoveAll (run_dir cfg j)]
    LeftBehind (fs_remove_all keep (run_dir cfg j) fs)"

inductive site_step :: "config \<Rightarrow> int \<times> int \<Rightarrow> site_job list \<Rightarrow> nat \<Rightarrow> job_site \<Rightarrow> job_site \<Rightarrow> bool"
  for cfg self jobs i where
  "i < length jobs \<Longrightarrow> i < length (js_stages s) \<Longrightarrow>
   job_action cfg self (jobs ! i) (js_stages s ! i) (js_fs s) cs st fs' \<Longrightarrow>
   site_step cfg self jobs i s \<lparr>js_stages = (js_stages s)[i := st], js_fs = fs'\<rparr>"

text \<open>The steps of one job by itself, with the calls they make.\<close>

inductive job_path ::
  "config \<Rightarrow> int \<times> int \<Rightarrow> site_job \<Rightarrow> job_stage \<Rightarrow> filesys \<Rightarrow> sys_call list \<Rightarrow> job_stage \<Rightarrow> filesys \<Rightarrow> bool"
  for cfg self j where
  stay: "job_path cfg self j st fs [] st fs"
| action: "job_action cfg self j st fs cs st' fs' \<Longrightarrow> job_path cfg self j st' fs' tr st'' fs'' \<Longrightarrow>
    job_path cfg self j st fs (cs @ tr) st'' fs''"

definition any_step :: "config \<Rightarrow> int \<times> int \<Rightarrow> site_job list \<Rightarrow> job_site \<Rightarrow> job_site \<Rightarrow> bool" where
  "any_step cfg self jobs s t \<longleftrightarrow> (\<exists>i < length jobs. site_step cfg self jobs i s t)"

definition site_init :: "site_job list \<Rightarrow> filesys \<Rightarrow> job_site \<Rightarrow> bool" where
  "site_init jobs fs s \<longleftrightarrow> s = \<lparr>js_stages = replicate (length jobs) Fresh, js_fs = fs\<rparr>"

text \<open>
  What the code relies on: the identifiers are different and without a slash, the directories
  are not in use, the job root exists, and a source file has a plain name (a safe name other
  than a dot or two).
\<close>

definition site_ready :: "config \<Rightarrow> site_job list \<Rightarrow> filesys \<Rightarrow> bool" where
  "site_ready cfg jobs fs \<longleftrightarrow> distinct (map jr_id jobs) \<and>
     (\<forall>j \<in> set jobs. CHR ''/'' \<notin> set (jr_id j) \<and> plain (l_SourceFile (jr_lang j)) \<and>
        (\<forall>q. under (run_dir cfg j) q \<longrightarrow> fs q = None) \<and>
        (\<forall>q \<in> set (dir_prefixes (run_dir cfg j)). q \<noteq> run_dir cfg j \<longrightarrow> fs q \<noteq> None))"

section \<open>Different jobs have disjoint directories\<close>

lemma run_dir_entry:
  assumes "CHR ''/'' \<notin> set (jr_id j)"
  shows "run_dir cfg j = entry_of (filepath_Clean (cf_JobRoot cfg)) (''job-'' @ jr_id j)"
  unfolding run_dir_def by (rule job_dir_entry [OF assms])

lemma entry_of_append: "\<exists>P. \<forall>n. entry_of d n = P @ n"
  by (cases "d = ''/'' \<or> d = ''.''") (auto simp: entry_of_def intro: exI [of _ "''/''"] exI [of _ "[]"] exI [of _ "d @ ''/''"])

lemma under_append:
  assumes "under (P @ n) q" "CHR ''/'' \<notin> set n"
  shows "takeWhile (\<lambda>c. c \<noteq> CHR ''/'') (drop (length P) q) = n"
proof -
  obtain r where "q = P @ n @ r" "r = [] \<or> hd r = CHR ''/''"
    using assms(1) by (auto simp: under_def prefix_def)
  moreover have "takeWhile (\<lambda>c. c \<noteq> CHR ''/'') (n @ r) = n" if "r = [] \<or> hd r = CHR ''/''"
    using that assms(2) by (cases r) (auto simp: takeWhile_append takeWhile_eq_all_conv)
  ultimately show ?thesis by simp
qed

lemma run_dirs_disjoint:
  assumes "CHR ''/'' \<notin> set (jr_id j)" "CHR ''/'' \<notin> set (jr_id k)"
    and "under (run_dir cfg j) q" "under (run_dir cfg k) q"
  shows "jr_id j = jr_id k"
proof -
  obtain P where P: "\<And>n. entry_of (filepath_Clean (cf_JobRoot cfg)) n = P @ n"
    using entry_of_append by blast
  have "''job-'' @ jr_id j = ''job-'' @ jr_id k"
    using under_append [of P "''job-'' @ jr_id j" q] under_append [of P "''job-'' @ jr_id k" q] assms
    unfolding run_dir_entry [OF assms(1)] run_dir_entry [OF assms(2)] P by simp
  then show ?thesis by simp
qed

text \<open>The directories above a job's directory are in no job's directory.\<close>

lemma dir_prefixes_short:
  assumes "q \<in> set (dir_prefixes (P @ n))" "q \<noteq> P @ n" "CHR ''/'' \<notin> set n"
  shows "length q < length P"
proof -
  obtain i where i: "i \<le> length (P @ n)" "i = length (P @ n) \<or> (P @ n) ! i = CHR ''/''" "q = take i (P @ n)"
    using assms(1) unfolding in_dir_prefixes by blast
  then have l: "i < length (P @ n)" "(P @ n) ! i = CHR ''/''"
    using assms(2) by (metis le_neq_implies_less order_refl take_all)+
  have "i < length P"
  proof (rule ccontr)
    assume g: "\<not> i < length P"
    then have "n ! (i - length P) = CHR ''/''" "i - length P < length n"
      using l by (simp_all add: nth_append)
    then show False using assms(3) by (metis nth_mem)
  qed
  then show ?thesis using i(3) by simp
qed

lemma parents_outside:
  assumes s: "CHR ''/'' \<notin> set (jr_id j)" "CHR ''/'' \<notin> set (jr_id k)"
    and q: "q \<in> set (dir_prefixes (run_dir cfg j))" "q \<noteq> run_dir cfg j"
  shows "\<not> under (run_dir cfg k) q"
proof -
  obtain P where P: "\<And>n. entry_of (filepath_Clean (cf_JobRoot cfg)) n = P @ n"
    using entry_of_append by blast
  have "length q < length P"
    using dir_prefixes_short [of q P "''job-'' @ jr_id j"] q s(1) unfolding run_dir_entry [OF s(1)] P by simp
  then show ?thesis unfolding run_dir_entry [OF s(2)] P under_def
    by (auto dest: prefix_length_le)
qed

section \<open>What a step touches\<close>

lemma run_source_eq:
  "CHR ''/'' \<notin> set (jr_id j) \<Longrightarrow> plain (l_SourceFile (jr_lang j)) \<Longrightarrow>
     run_source cfg j = run_dir cfg j @ CHR ''/'' # l_SourceFile (jr_lang j)"
  by (simp add: run_source_def run_dir_def source_path)

lemma job_action_frame:
  assumes st: "job_action cfg self j st fs cs st' fs'"
    and j: "CHR ''/'' \<notin> set (jr_id j)" "plain (l_SourceFile (jr_lang j))"
    and par: "\<forall>q \<in> set (dir_prefixes (run_dir cfg j)). q \<noteq> run_dir cfg j \<longrightarrow> fs q \<noteq> None"
  shows "unchanged_outside (run_dir cfg j) fs fs'"
proof -
  have s: "under (run_dir cfg j) (run_source cfg j)" unfolding run_source_eq [OF j] by (rule under_entry)
  from st show ?thesis
  proof cases
    case mkdir
    then show ?thesis using par
      by (fastforce simp: fs_mkdir_all_def unchanged_outside_def under_def split: if_splits)
  qed (use s in \<open>auto simp: fs_write_file_def fs_chown_def fs_remove_all_def unchanged_outside_def
      split: option.splits node.splits\<close>)
qed

text \<open>What each stage has established in the job's own directory.\<close>

definition tidy :: "string \<Rightarrow> string \<Rightarrow> filesys \<Rightarrow> bool" where
  "tidy d src fs \<longleftrightarrow> (\<forall>q. under d q \<longrightarrow> q \<noteq> d \<longrightarrow> q \<noteq> src \<longrightarrow> fs q = None)"

fun stage_content :: "config \<Rightarrow> int \<times> int \<Rightarrow> site_job \<Rightarrow> job_stage \<Rightarrow> filesys \<Rightarrow> bool" where
  "stage_content cfg self j Made fs \<longleftrightarrow> tidy (run_dir cfg j) (run_source cfg j) fs \<and>
     fs (run_dir cfg j) = Some (DirNode 0x1ED self) \<and> fs (run_source cfg j) = None"
| "stage_content cfg self j Written fs \<longleftrightarrow> tidy (run_dir cfg j) (run_source cfg j) fs \<and>
     fs (run_dir cfg j) = Some (DirNode 0x1ED self) \<and>
     fs (run_source cfg j) = Some (FileNode (rq_Source (jr_req j)) 0x1A4 self)"
| "stage_content cfg self j DirOwned fs \<longleftrightarrow> tidy (run_dir cfg j) (run_source cfg j) fs \<and>
     fs (run_dir cfg j) = Some (DirNode 0x1ED (jail_owner cfg)) \<and>
     fs (run_source cfg j) = Some (FileNode (rq_Source (jr_req j)) 0x1A4 self)"
| "stage_content cfg self j Owned fs \<longleftrightarrow> tidy (run_dir cfg j) (run_source cfg j) fs \<and>
     fs (run_dir cfg j) = Some (DirNode 0x1ED (jail_owner cfg)) \<and>
     fs (run_source cfg j) = Some (FileNode (rq_Source (jr_req j)) 0x1A4 (jail_owner cfg))"
| "stage_content cfg self j Fresh fs \<longleftrightarrow> (\<forall>q. under (run_dir cfg j) q \<longrightarrow> fs q = None)"
| "stage_content cfg self j Finished fs \<longleftrightarrow> (\<forall>q. under (run_dir cfg j) q \<longrightarrow> fs q = None)"
| "stage_content cfg self j _ fs \<longleftrightarrow> True"

lemma source_neq_dir:
  "CHR ''/'' \<notin> set (jr_id j) \<Longrightarrow> plain (l_SourceFile (jr_lang j)) \<Longrightarrow>
     run_source cfg j \<noteq> run_dir cfg j \<and> under (run_dir cfg j) (run_source cfg j)"
  by (simp add: run_source_eq under_entry)

lemma stage_content_cong:
  assumes "\<And>q. under (run_dir cfg j) q \<Longrightarrow> fs q = fs' q"
    and "CHR ''/'' \<notin> set (jr_id j)" "plain (l_SourceFile (jr_lang j))"
  shows "stage_content cfg self j st fs \<longleftrightarrow> stage_content cfg self j st fs'"
proof -
  have "fs (run_dir cfg j) = fs' (run_dir cfg j)" "fs (run_source cfg j) = fs' (run_source cfg j)"
    "tidy (run_dir cfg j) (run_source cfg j) fs = tidy (run_dir cfg j) (run_source cfg j) fs'"
    using assms source_neq_dir [OF assms(2,3)] by (simp_all add: tidy_def)
  then show ?thesis using assms(1) by (cases st) simp_all
qed

lemma dir_in_prefixes: "d \<noteq> [] \<Longrightarrow> d \<in> set (dir_prefixes d)"
  unfolding in_dir_prefixes by (intro exI [of _ "length d"]) (cases d; simp)

lemma stage_content_step:
  assumes st: "job_action cfg self j st fs cs st' fs'" and c: "stage_content cfg self j st fs"
    and j: "CHR ''/'' \<notin> set (jr_id j)" "plain (l_SourceFile (jr_lang j))"
  shows "stage_content cfg self j st' fs'"
proof -
  note n = source_neq_dir [OF j, of cfg]
  from st show ?thesis
  proof cases
    case mkdir
    have "run_dir cfg j \<noteq> []" using j by (auto simp: run_dir_entry entry_of_def)
    moreover have "q \<notin> set (dir_prefixes (run_dir cfg j))" if "under (run_dir cfg j) q" "q \<noteq> run_dir cfg j" for q
      using that parents_outside [OF j(1) j(1)] by blast
    ultimately show ?thesis
      using mkdir c n dir_in_prefixes [of "run_dir cfg j"]
      by (auto simp: fs_mkdir_all_def tidy_def split: if_splits)
  qed (use c n in \<open>auto simp: fs_write_file_def fs_chown_def fs_remove_all_def tidy_def\<close>)
qed

section \<open>The invariant\<close>

definition in_use :: "job_stage \<Rightarrow> bool" where
  "in_use st \<longleftrightarrow> st \<noteq> Fresh \<and> st \<noteq> Finished"

definition site_ok :: "config \<Rightarrow> int \<times> int \<Rightarrow> site_job list \<Rightarrow> filesys \<Rightarrow> job_site \<Rightarrow> bool" where
  "site_ok cfg self jobs fs s \<longleftrightarrow> site_ready cfg jobs fs \<and> length (js_stages s) = length jobs \<and>
     (\<forall>i < length jobs. stage_content cfg self (jobs ! i) (js_stages s ! i) (js_fs s)) \<and>
     (\<forall>q. (\<forall>i < length jobs. in_use (js_stages s ! i) \<longrightarrow> \<not> under (run_dir cfg (jobs ! i)) q) \<longrightarrow>
        js_fs s q = fs q)"

lemma site_readyD:
  assumes "site_ready cfg jobs fs" "i < length jobs"
  shows "CHR ''/'' \<notin> set (jr_id (jobs ! i))" "plain (l_SourceFile (jr_lang (jobs ! i)))"
    "under (run_dir cfg (jobs ! i)) q \<Longrightarrow> fs q = None"
    "q \<in> set (dir_prefixes (run_dir cfg (jobs ! i))) \<Longrightarrow> q \<noteq> run_dir cfg (jobs ! i) \<Longrightarrow> fs q \<noteq> None"
  using assms unfolding site_ready_def by (meson nth_mem)+

lemma site_ready_disjoint:
  assumes r: "site_ready cfg jobs fs" and i: "i < length jobs" "k < length jobs" "i \<noteq> k"
    and q: "under (run_dir cfg (jobs ! i)) q"
  shows "\<not> under (run_dir cfg (jobs ! k)) q"
proof
  assume "under (run_dir cfg (jobs ! k)) q"
  then have "jr_id (jobs ! i) = jr_id (jobs ! k)"
    using run_dirs_disjoint [of "jobs ! i" "jobs ! k" cfg q] q site_readyD(1) [OF r] i by blast
  then show False using r i by (auto simp: site_ready_def distinct_conv_nth)
qed

lemma site_ok_init: "site_ready cfg jobs fs \<Longrightarrow> site_init jobs fs s \<Longrightarrow> site_ok cfg self jobs fs s"
  by (simp add: site_ok_def site_init_def in_use_def site_readyD)

text \<open>A step of one job leaves everything outside its directory as it is.\<close>

lemma site_step_frame:
  assumes ok: "site_ok cfg self jobs fs s" and i: "i < length jobs"
    and st: "job_action cfg self (jobs ! i) (js_stages s ! i) (js_fs s) cs st fs'"
  shows "unchanged_outside (run_dir cfg (jobs ! i)) (js_fs s) fs'"
proof -
  have r: "site_ready cfg jobs fs" using ok by (simp add: site_ok_def)
  have "js_fs s q \<noteq> None"
    if q: "q \<in> set (dir_prefixes (run_dir cfg (jobs ! i)))" "q \<noteq> run_dir cfg (jobs ! i)" for q
  proof -
    have "\<not> under (run_dir cfg (jobs ! k)) q" if "k < length jobs" for k
      using parents_outside [OF _ _ q] site_readyD(1) [OF r] i that by blast
    then have "js_fs s q = fs q" using ok by (simp add: site_ok_def)
    then show ?thesis using site_readyD(4) [OF r i q] by simp
  qed
  then show ?thesis using job_action_frame [OF st site_readyD(1,2) [OF r i]] by blast
qed

lemma site_ok_action:
  assumes ok: "site_ok cfg self jobs fs s" and i: "i < length jobs"
    and st: "job_action cfg self (jobs ! i) (js_stages s ! i) (js_fs s) cs st fs'"
  shows "site_ok cfg self jobs fs \<lparr>js_stages = (js_stages s)[i := st], js_fs = fs'\<rparr>"
proof -
  have r: "site_ready cfg jobs fs" and len: "length (js_stages s) = length jobs"
    using ok by (simp_all add: site_ok_def)
  note f = site_step_frame [OF ok i st, unfolded unchanged_outside_def]
  have own: "stage_content cfg self (jobs ! i) st fs'"
    using ok i by (intro stage_content_step [OF st _ site_readyD(1,2) [OF r i]]) (simp add: site_ok_def)
  have "stage_content cfg self (jobs ! k) ((js_stages s)[i := st] ! k) fs'" if k: "k < length jobs" for k
  proof (cases "k = i")
    case False
    have "js_fs s q = fs' q" if "under (run_dir cfg (jobs ! k)) q" for q
      using f site_ready_disjoint [OF r k i False that] by simp
    then have "stage_content cfg self (jobs ! k) (js_stages s ! k) fs'"
      using stage_content_cong [of cfg "jobs ! k" "js_fs s" fs' self "js_stages s ! k"] site_readyD(1,2) [OF r k] ok k
      by (simp add: site_ok_def)
    then show ?thesis using False by simp
  qed (use own i len in simp)
  moreover have "fs' q = fs q"
    if q: "\<forall>k < length jobs. in_use ((js_stages s)[i := st] ! k) \<longrightarrow> \<not> under (run_dir cfg (jobs ! k)) q" for q
  proof (cases "under (run_dir cfg (jobs ! i)) q")
    case True
    then have "\<not> in_use st" using q i len by auto
    then have "fs' q = None" using own True by (auto simp: in_use_def)
    then show ?thesis using site_readyD(3) [OF r i True] by simp
  next
    case False
    have "\<forall>k < length jobs. in_use (js_stages s ! k) \<longrightarrow> \<not> under (run_dir cfg (jobs ! k)) q"
      using q False len by (metis nth_list_update_neq)
    then show ?thesis using ok f False by (simp add: site_ok_def)
  qed
  ultimately show ?thesis using r len by (simp add: site_ok_def)
qed

lemma site_ok_step:
  assumes ok: "site_ok cfg self jobs fs s" and st: "any_step cfg self jobs s t"
  shows "site_ok cfg self jobs fs t"
proof -
  obtain i where "i < length jobs" "site_step cfg self jobs i s t" using st by (auto simp: any_step_def)
  then show ?thesis using site_ok_action [OF ok] by (auto elim: site_step.cases)
qed

interpretation site: transition_system
  "\<lambda>s. site_ready cfg jobs fs \<and> site_init jobs fs s" "any_step cfg self jobs" "site_ok cfg self jobs fs"
  for cfg self jobs fs
  by unfold_locales (use site_ok_init in blast, fact site_ok_step)

lemma site_reachable_ok:
  assumes "site_ready cfg jobs fs" "reachable (site_init jobs fs) (any_step cfg self jobs) s"
  shows "site_ok cfg self jobs fs s"
  using assms(2) by induction (use site_ok_init [OF assms(1)] site_ok_step in blast)+

section \<open>The sequential run is a path\<close>

lemma job_path_steps:
  "job_path cfg self j st fs tr st' fs' \<Longrightarrow>
     (any_step cfg self [j])\<^sup>*\<^sup>* \<lparr>js_stages = [st], js_fs = fs\<rparr> \<lparr>js_stages = [st'], js_fs = fs'\<rparr>"
proof (induction rule: job_path.induct)
  case (action st fs cs st' fs' tr st'' fs'')
  then have "any_step cfg self [j] \<lparr>js_stages = [st], js_fs = fs\<rparr> \<lparr>js_stages = [st'], js_fs = fs'\<rparr>"
    using site_step.intros [of 0 "[j]" "\<lparr>js_stages = [st], js_fs = fs\<rparr>" cfg self cs st' fs'] by (simp add: any_step_def)
  then show ?case using action.IH by (rule converse_rtranclp_into_rtranclp)
qed simp

lemma job_path_append:
  "job_path cfg self j st fs tr st' fs' \<Longrightarrow> job_path cfg self j st' fs' tr' st'' fs'' \<Longrightarrow>
     job_path cfg self j st fs (tr @ tr') st'' fs''"
proof (induction rule: job_path.induct)
  case (action st fs cs st1 fs1 tr st2 fs2)
  then show ?case using job_path.action [OF action.hyps(1) action.IH [OF action.prems]] by simp
qed simp

lemma job_path_one: "job_action cfg self j st fs cs st' fs' \<Longrightarrow> job_path cfg self j st fs cs st' fs'"
  using job_path.action [OF _ job_path.stay] by fastforce

lemma os_call_cases:
  assumes "os_call env c f w = (e, w')"
  obtains "e = None" "f (w_fs w) = Inr (w_fs w')" | x where "e = Some x" "w_fs w' = w_fs w"
proof (cases "os_fail env (w_tick w)")
  case None
  then show thesis using assms that by (cases "f (w_fs w)") (auto simp: os_call_def)
next
  case (Some x)
  then show thesis using assms that(2) by (simp add: os_call_def) (metis called_simps(1))
qed

lemma MkdirAll_action:
  assumes "MkdirAll env (run_dir cfg j) 0x1ED w = (e, w')"
  shows "job_action cfg (os_self env) j Fresh (w_fs w) [SysMkdirAll (run_dir cfg j) 0x1ED e]
    (if e = None then Made else Finished) (w_fs w')"
  using assms unfolding MkdirAll_def by (elim os_call_cases) (auto intro: job_action.intros)

lemma WriteFile_action:
  assumes "WriteFile env (run_source cfg j) (rq_Source (jr_req j)) 0x1A4 w = (e, w')"
  shows "job_action cfg (os_self env) j Made (w_fs w) [SysWriteFile (run_source cfg j) (rq_Source (jr_req j)) 0x1A4 e]
    (if e = None then Written else Removing) (w_fs w')"
proof (cases "os_fail env (w_tick w)")
  case None
  then have "os_call env (SysWriteFile (run_source cfg j) (rq_Source (jr_req j)) 0x1A4)
      (fs_write_file (os_self env) (run_source cfg j) (rq_Source (jr_req j)) 0x1A4) w = (e, w')"
    using assms by (simp add: WriteFile_def)
  then show ?thesis by (elim os_call_cases) (auto intro: job_action.intros)
next
  case (Some x)
  then show ?thesis using assms
    by (auto simp: WriteFile_def intro: job_action.intros split: if_splits)
qed

lemma Chown_actions:
  assumes "Chown env p (jail_owner cfg) w = (e, w')"
  shows "p = run_dir cfg j \<Longrightarrow> job_action cfg self j Written (w_fs w) [SysChown p (jail_owner cfg) e]
      (if e = None then DirOwned else Removing) (w_fs w')"
    and "p = run_source cfg j \<Longrightarrow> job_action cfg self j DirOwned (w_fs w) [SysChown p (jail_owner cfg) e]
      (if e = None then Owned else Removing) (w_fs w')"
  using assms unfolding Chown_def by (auto elim!: os_call_cases intro: job_action.intros)

lemma RemoveAll_action:
  "\<exists>st. (st = Finished \<or> st = LeftBehind \<and> \<not> removals_complete env) \<and>
     job_action cfg self j Removing (w_fs w) [SysRemoveAll (run_dir cfg j)] st (w_fs (RemoveAll env (run_dir cfg j) w))"
proof (cases "removals_complete env")
  case True
  then have "w_fs (RemoveAll env (run_dir cfg j) w) = fs_remove_all (\<lambda>_. False) (run_dir cfg j) (w_fs w)"
    by (auto simp: RemoveAll_def fs_remove_all_def removals_complete_def)
  then show ?thesis using job_action.remove by metis
next
  case False
  have "w_fs (RemoveAll env (run_dir cfg j) w) = fs_remove_all (os_keep env (w_tick w)) (run_dir cfg j) (w_fs w)"
    by (simp add: RemoveAll_def)
  then show ?thesis using False job_action.remove_failed by metis
qed

section \<open>The processes of the phases\<close>

text \<open>A number of processes, one after the other, each from a given set.\<close>

inductive runs_of :: "os_env \<Rightarrow> invocation set \<Rightarrow> world \<Rightarrow> invocation list \<Rightarrow> world \<Rightarrow> bool"
  for env S where
  none: "runs_of env S w [] w"
| more: "iv \<in> S \<Longrightarrow> runs_of env S (snd (os_run env iv w)) ivs w' \<Longrightarrow> runs_of env S w (iv # ivs) w'"

lemma runs_of_append: "runs_of env S w ivs w' \<Longrightarrow> runs_of env S w' ivs' w'' \<Longrightarrow> runs_of env S w (ivs @ ivs') w''"
  by (induction rule: runs_of.induct) (auto intro: runs_of.more)

lemma runs_of_logs: "runs_of env S w ivs w' \<Longrightarrow>
    w_calls w' = w_calls w @ map SysProcess ivs \<and> w_spawned w' = w_spawned w @ ivs"
  by (induction rule: runs_of.induct) simp_all

lemma runs_of_one: "iv \<in> S \<Longrightarrow> runs_of env S w [iv] (snd (os_run env iv w))"
  by (intro runs_of.more runs_of.none)

lemma sandbox_Run_runs:
  assumes "make_invocation ctx sp \<in> S"
  shows "\<exists>ivs. runs_of env S w ivs (snd (sandbox_Run (os_run env) ctx sp w))"
proof (cases "sp_NsjailPath sp = [] \<or> sp_Command sp = []")
  case True
  then show ?thesis using runs_of.none by (auto simp: sandbox_Run_def)
next
  case False
  then show ?thesis using runs_of_one [OF assms] by (auto simp: sandbox_Run_os)
qed

lemma runOne_runs:
  assumes "\<And>run. l_Run lang = Some run \<Longrightarrow>
    make_invocation ctx (one_spec cfg run lang d flags stdin tlim mem) \<in> S"
  shows "\<exists>ivs. runs_of env S w ivs (snd (runOne (os_run env) cfg ctx lang d flags stdin tlim mem w))"
proof (cases "l_Run lang")
  case None
  then show ?thesis using runs_of.none by (auto simp: runOne_def)
next
  case (Some run)
  then have "snd (runOne (os_run env) cfg ctx lang d flags stdin tlim mem w) =
      snd (sandbox_Run (os_run env) ctx (one_spec cfg run lang d flags stdin tlim mem) w)"
    by (simp add: runOne_def Let_def split: prod.split option.split)
  then show ?thesis using sandbox_Run_runs [OF assms [OF Some]] by simp
qed

lemma run_tests_runs:
  assumes "\<And>run tc. l_Run lang = Some run \<Longrightarrow> tc \<in> set tcs \<Longrightarrow> make_invocation ctx
    (one_spec cfg run lang d flags (tc_Input tc) (tc_TimeLimitS tc) (tc_MemoryKB tc)) \<in> S"
  shows "\<exists>ivs. runs_of env S w ivs (snd (run_tests (os_run env) cfg ctx lang d flags tcs w))"
  using assms
proof (induction tcs arbitrary: w)
  case (Cons tc tcs)
  obtain r w1 where r: "runTest (os_run env) cfg ctx lang d flags tc w = (r, w1)" by fastforce
  obtain ivs where "runs_of env S w ivs w1"
    using runOne_runs [of lang ctx cfg d flags "tc_Input tc" "tc_TimeLimitS tc" "tc_MemoryKB tc" S env w] Cons.prems r
    by (auto simp flip: snd_runTest)
  moreover obtain ivs' where "runs_of env S w1 ivs' (snd (run_tests (os_run env) cfg ctx lang d flags tcs w1))"
    using Cons.IH [of w1] Cons.prems by auto
  ultimately show ?case using r runs_of_append by (fastforce split: prod.split go.split)
qed (use runs_of.none in auto)

lemma build_and_run_runs:
  assumes S: "set (build_part cfg ctx lang d req @ test_part cfg ctx lang d req) \<subseteq> S"
  shows "\<exists>ivs. runs_of env S w ivs (snd (build_and_run (os_run env) cfg ctx lang d req w))"
proof -
  have one: "make_invocation ctx (one_spec cfg run lang d (rq_RunFlags req) (tc_Input tc) (tc_TimeLimitS tc) (tc_MemoryKB tc)) \<in> S"
    if "l_Run lang = Some run" "tc \<in> set (effective_tests req)" for run tc
    using S that by (auto simp: test_part_def test_spec_def)
  have phase: "\<exists>ivs. runs_of env S v ivs (snd (run_phase (os_run env) cfg ctx lang d req b v))" for b v
  proof (cases "rq_TestCases req = []")
    case True
    then have "\<exists>ivs. runs_of env S v ivs (snd (runOne (os_run env) cfg ctx lang d (rq_RunFlags req) []
        (rq_TimeLimitS req) (rq_MemoryKB req) v))"
      using one by (intro runOne_runs) (simp add: effective_tests_def)
    then show ?thesis using True by (auto simp: run_phase_def Let_def split: prod.split go.split)
  next
    case False
    then have "\<exists>ivs. runs_of env S v ivs (snd (run_tests (os_run env) cfg ctx lang d (rq_RunFlags req) (rq_TestCases req) v))"
      using one by (intro run_tests_runs) (simp add: effective_tests_def)
    then show ?thesis using False by (auto simp: run_phase_def Let_def split: prod.split go.split)
  qed
  show ?thesis
  proof (cases "l_Build lang")
    case None
    then show ?thesis using phase by (simp add: build_and_run_def)
  next
    case (Some ph)
    obtain r w1 where r: "runBuild (os_run env) cfg ctx lang d (rq_BuildFlags req) w = (r, w1)" by fastforce
    have "make_invocation ctx (build_spec cfg ph lang d (rq_BuildFlags req)) \<in> S"
      using S Some by (simp add: build_part_def)
    moreover have "w1 = snd (sandbox_Run (os_run env) ctx (build_spec cfg ph lang d (rq_BuildFlags req)) w)"
      using r Some by (auto simp: runBuild_def Let_def split: prod.splits option.splits)
    ultimately have b: "\<exists>ivs. runs_of env S w ivs w1" using sandbox_Run_runs by metis
    have "snd (build_and_run (os_run env) cfg ctx lang d req w) = w1 \<or>
        (\<exists>b. snd (build_and_run (os_run env) cfg ctx lang d req w) = snd (run_phase (os_run env) cfg ctx lang d req b w1))"
      using r Some by (simp add: build_and_run_def split: prod.split go.split option.split) blast
    then show ?thesis using b phase [where v = w1] runs_of_append by metis
  qed
qed

lemma job_process_mounts:
  assumes "iv \<in> job_processes cfg j"
  shows "opt_value ''--bindmount'' (iv_args iv) = Some (run_dir cfg j @ '':/sandbox'')"
proof -
  have "opt_value ''--bindmount'' (iv_args (make_invocation ctx sp)) = Some (sp_Cwd sp @ '':/sandbox'')" for ctx sp
    using opt_bindmount [of sp] by (simp add: make_invocation_def)
  then show ?thesis using assms
    by (auto simp: job_processes_def build_part_def test_part_def test_spec_def build_spec_def one_spec_def Let_def
        split: option.splits)
qed

lemma runs_of_job:
  assumes "runs_of env (job_processes cfg j) w ivs w'" "jail_confined env"
  shows "job_path cfg self j Running (w_fs w) (map SysProcess ivs) Running (w_fs w')"
  using assms(1)
proof (induction rule: runs_of.induct)
  case (more iv w ivs w')
  have "unchanged_outside (run_dir cfg j) (w_fs w) (w_fs (snd (os_run env iv w)))"
    by (rule os_run_frame [OF assms(2) job_process_mounts [OF more.hyps(1)]])
  then show ?case using job_path.action [OF job_action.process [OF more.hyps(1)] more.IH] by simp
qed (simp add: job_path.stay)

section \<open>The sequential run is a path\<close>

text \<open>\<open>traced\<close>: the calls logged from one world to another are those of a path of the job.\<close>

definition traced ::
  "config \<Rightarrow> int \<times> int \<Rightarrow> site_job \<Rightarrow> job_stage \<Rightarrow> world \<Rightarrow> sys_call list \<Rightarrow> job_stage \<Rightarrow> world \<Rightarrow> bool" where
  "traced cfg self j st w tr st' w' \<longleftrightarrow>
     job_path cfg self j st (w_fs w) tr st' (w_fs w') \<and> w_calls w' = w_calls w @ tr"

lemma traced_trans: "traced cfg self j st w tr st' w' \<Longrightarrow> traced cfg self j st' w' tr' st'' w'' \<Longrightarrow>
    traced cfg self j st w (tr @ tr') st'' w''"
  by (auto simp: traced_def intro: job_path_append)

lemma traced_processes:
  assumes "jail_confined env"
  shows "\<exists>ivs. traced cfg self j Owned w (map SysProcess ivs) Removing
      (snd (build_and_run (os_run env) cfg ctx (jr_lang j) (run_dir cfg j) (jr_req j) w)) \<and>
    w_spawned (snd (build_and_run (os_run env) cfg ctx (jr_lang j) (run_dir cfg j) (jr_req j) w)) = w_spawned w @ ivs"
proof -
  let ?w = "snd (build_and_run (os_run env) cfg ctx (jr_lang j) (run_dir cfg j) (jr_req j) w)"
  have "set (build_part cfg ctx (jr_lang j) (run_dir cfg j) (jr_req j) @
      test_part cfg ctx (jr_lang j) (run_dir cfg j) (jr_req j)) \<subseteq> job_processes cfg j"
    unfolding job_processes_def by blast
  then obtain ivs where r: "runs_of env (job_processes cfg j) w ivs ?w" using build_and_run_runs by meson
  have "job_path cfg self j Owned (w_fs w) ([] @ map SysProcess ivs @ []) Removing (w_fs ?w)"
    by (intro job_path.action [OF job_action.start] job_path_append [OF runs_of_job [OF r assms]]
        job_path_one job_action.processes_over)
  then show ?thesis using runs_of_logs [OF r] by (auto simp: traced_def)
qed

text \<open>The calls of a run whose job directory could be made: the file calls up to the first that fails,
  the processes if none does, and the removal.\<close>

definition job_calls :: "config \<Rightarrow> site_job \<Rightarrow> sys_call list \<Rightarrow> invocation list \<Rightarrow> bool" where
  "job_calls cfg j tr ivs \<longleftrightarrow>
     (let d = run_dir cfg j; src = run_source cfg j; u = jail_owner cfg; made = SysMkdirAll d 0x1ED None;
          wrote = SysWriteFile src (rq_Source (jr_req j)) 0x1A4; owned = SysChown d u None; gone = SysRemoveAll d
      in (\<exists>e. tr = [SysMkdirAll d 0x1ED (Some e)] \<and> ivs = []) \<or>
         (\<exists>e. tr = [made, wrote (Some e), gone] \<and> ivs = []) \<or>
         (\<exists>e. tr = [made, wrote None, SysChown d u (Some e), gone] \<and> ivs = []) \<or>
         (\<exists>e. tr = [made, wrote None, owned, SysChown src u (Some e), gone] \<and> ivs = []) \<or>
         tr = [made, wrote None, owned, SysChown src u None] @ map SysProcess ivs @ [gone])"

lemma with_job_dir_traced:
  fixes req w lang
  assumes jc: "jail_confined env"
  defines "j \<equiv> \<lparr>jr_id = os_uuid env (w_tick w), jr_lang = lang, jr_req = req\<rparr>"
  shows "\<exists>st tr ivs. (st = Finished \<or> st = LeftBehind \<and> \<not> removals_complete env) \<and>
    traced cfg (os_self env) j Fresh w tr st (snd (with_job_dir env cfg ctx lang req w)) \<and>
    w_spawned (snd (with_job_dir env cfg ctx lang req w)) = w_spawned w @ ivs \<and> job_calls cfg j tr ivs"
proof -
  let ?T = "traced cfg (os_self env) j" and ?d = "run_dir cfg j" and ?src = "run_source cfg j" and ?o = "jail_owner cfg"
  have d: "job_dir cfg (os_uuid env (w_tick w)) = ?d" "filepath_Join [?d, l_SourceFile lang] = ?src"
    by (simp_all add: run_dir_def run_source_def j_def)
  have T: "?T st v tr st' v'" if "job_action cfg (os_self env) j st (w_fs v) tr st' (w_fs v')" "w_calls v' = w_calls v @ tr"
    for st st' v v' tr using that by (simp add: traced_def job_path_one)
  obtain e w1 where m: "MkdirAll env ?d 0x1ED (tick w) = (e, w1)" by fastforce
  have t0: "?T Fresh w [SysMkdirAll ?d 0x1ED e] (if e = None then Made else Finished) w1"
    using MkdirAll_action [OF m] logged_calls(2) [of env ?d "0x1ED" "tick w"] m by (intro T) simp_all
  show ?thesis
  proof (cases e)
    case (Some x)
    then have "snd (with_job_dir env cfg ctx lang req w) = w1" "w_spawned w1 = w_spawned w"
      using m spawned_calls(2) [of env ?d "0x1ED" "tick w"] by (simp_all add: with_job_dir_def d Let_def)
    then show ?thesis using t0 Some
      by (intro exI [of _ Finished] exI [of _ "[SysMkdirAll ?d 0x1ED e]"] exI [of _ "[]"]) (simp add: job_calls_def Let_def)
  next
    case None
    obtain e1 v1 where 1: "WriteFile env ?src (rq_Source req) 0x1A4 w1 = (e1, v1)" by fastforce
    obtain e2 v2 where 2: "Chown env ?d ?o v1 = (e2, v2)" by fastforce
    obtain e3 v3 where 3: "Chown env ?src ?o v2 = (e3, v3)" by fastforce
    let ?v4 = "snd (build_and_run (os_run env) cfg ctx lang ?d req v3)"
    have in_dir: "in_job_dir env cfg ctx lang ?d req w1 =
        (case e1 of Some e \<Rightarrow> (Ret (error_response, Some (WriteSource e)), v1) | None \<Rightarrow>
        (case e2 of Some e \<Rightarrow> (Ret (error_response, Some (ChownJobDir e)), v2) | None \<Rightarrow>
        (case e3 of Some e \<Rightarrow> (Ret (error_response, Some (ChownSource e)), v3) | None \<Rightarrow>
           build_and_run (os_run env) cfg ctx lang ?d req v3)))"
      by (cases e1; cases e2; cases e3) (simp_all add: in_job_dir_def d Let_def 1 2 3 flip: jail_owner_def)
    have run: "snd (with_job_dir env cfg ctx lang req w) = RemoveAll env ?d (snd (in_job_dir env cfg ctx lang ?d req w1))"
      using m None by (simp add: with_job_dir_def d Let_def split: prod.split)
    have t1: "?T Made w1 [SysWriteFile ?src (rq_Source req) 0x1A4 e1] (if e1 = None then Written else Removing) v1"
    proof (rule T)
      show "w_calls v1 = w_calls w1 @ [SysWriteFile ?src (rq_Source req) 0x1A4 e1]"
        using logged_calls(4) [of env ?src "rq_Source req" "0x1A4" w1] unfolding 1 by simp
    qed (use WriteFile_action [of env cfg j w1 e1 v1] 1 in \<open>simp add: j_def\<close>)
    have t2: "?T Written v1 [SysChown ?d ?o e2] (if e2 = None then DirOwned else Removing) v2"
      using Chown_actions(1) [OF 2] logged_calls(3) [of env ?d ?o v1] 2 by (intro T) simp_all
    have t3: "?T DirOwned v2 [SysChown ?src ?o e3] (if e3 = None then Owned else Removing) v3"
      using Chown_actions(2) [OF 3] logged_calls(3) [of env ?src ?o v2] 3 by (intro T) simp_all
    obtain ivs where t4: "?T Owned v3 (map SysProcess ivs) Removing ?v4" "w_spawned ?v4 = w_spawned v3 @ ivs"
      using traced_processes [OF jc, of cfg "os_self env" j v3 ctx] by (auto simp: j_def)
    have sp: "w_spawned w1 = w_spawned w" "w_spawned v1 = w_spawned w" "w_spawned v2 = w_spawned w" "w_spawned v3 = w_spawned w"
      using spawned_calls(2) [of env ?d "0x1ED" "tick w"] spawned_calls(4) [of env ?src "rq_Source req" "0x1A4" w1]
        spawned_calls(3) [of env ?d ?o v1] spawned_calls(3) [of env ?src ?o v2] m 1 2 3 by simp_all
    have final: "\<exists>st tr' ivs'. (st = Finished \<or> st = LeftBehind \<and> \<not> removals_complete env) \<and>
        ?T Fresh w tr' st (RemoveAll env ?d v) \<and> w_spawned (RemoveAll env ?d v) = w_spawned w @ ivs' \<and>
        job_calls cfg j tr' ivs'"
      if "?T Made w1 tr Removing v" "w_spawned v = w_spawned w @ ivs'"
        "job_calls cfg j (SysMkdirAll ?d 0x1ED None # tr @ [SysRemoveAll ?d]) ivs'" for tr v ivs'
    proof -
      obtain st where st: "st = Finished \<or> st = LeftBehind \<and> \<not> removals_complete env"
        "?T Removing v [SysRemoveAll ?d] st (RemoveAll env ?d v)"
        using RemoveAll_action [of env cfg "os_self env" j v] by (metis T logged_calls(5))
      have "?T Fresh w ([SysMkdirAll ?d 0x1ED None] @ tr @ [SysRemoveAll ?d]) st (RemoveAll env ?d v)"
        using t0 None that(1) st(2) by (intro traced_trans) (simp, assumption, assumption)
      then show ?thesis using st(1) that(2,3)
        by (intro exI [of _ st] exI [of _ "SysMkdirAll ?d 0x1ED None # tr @ [SysRemoveAll ?d]"] exI [of _ ivs']) simp
    qed
    show ?thesis
    proof (cases "e1 = None \<and> e2 = None \<and> e3 = None")
      case True
      have "?T Made w1 ([SysWriteFile ?src (rq_Source req) 0x1A4 None] @ [SysChown ?d ?o None] @ [SysChown ?src ?o None] @ map SysProcess ivs)
          Removing ?v4"
        using t1 t2 t3 t4(1) True by (intro traced_trans) simp_all
      from final [OF this, of ivs] show ?thesis using True t4(2) sp
        by (simp add: run in_dir job_calls_def Let_def) (simp add: j_def)
    next
      case False
      consider x where "e1 = Some x" | x where "e1 = None" "e2 = Some x" | x where "e1 = None" "e2 = None" "e3 = Some x"
        using False by (metis option.exhaust)
      then show ?thesis
      proof cases
        case 1
        then have "?T Made w1 [SysWriteFile ?src (rq_Source req) 0x1A4 e1] Removing v1" using t1 by simp
        from final [OF this, of "[]"] show ?thesis using 1 sp
          by (simp add: run in_dir job_calls_def Let_def) (simp add: j_def)
      next
        case 2
        then have "?T Made w1 ([SysWriteFile ?src (rq_Source req) 0x1A4 None] @ [SysChown ?d ?o e2]) Removing v2"
          using t1 t2 by (intro traced_trans) simp_all
        from final [OF this, of "[]"] show ?thesis using 2 sp
          by (simp add: run in_dir job_calls_def Let_def) (simp add: j_def)
      next
        case 3
        then have "?T Made w1 ([SysWriteFile ?src (rq_Source req) 0x1A4 None] @ [SysChown ?d ?o None] @ [SysChown ?src ?o e3])
            Removing v3" using t1 t2 t3 by (intro traced_trans) simp_all
        from final [OF this, of "[]"] show ?thesis using 3 sp
          by (simp add: run in_dir job_calls_def Let_def) (simp add: j_def)
      qed
    qed
  qed
qed

section \<open>Two jobs of the sample environment\<close>

definition sample_jobs :: "site_job list" where
  "sample_jobs = map (\<lambda>u. \<lparr>jr_id = u, jr_lang = sample_language, jr_req = sample_request\<rparr>) [''a'', ''b'']"

lemma sample_jobs_ready: "site_ready sample_config sample_jobs (w_fs sample_world)"
proof -
  have d: "job_dir sample_config ''a'' = ''/tmp/goboxd/job-a''" "job_dir sample_config ''b'' = ''/tmp/goboxd/job-b''"
    "dir_prefixes ''/tmp/goboxd/job-a'' = [''/tmp'', ''/tmp/goboxd'', ''/tmp/goboxd/job-a'']"
    "dir_prefixes ''/tmp/goboxd/job-b'' = [''/tmp'', ''/tmp/goboxd'', ''/tmp/goboxd/job-b'']" by code_simp+
  have "plain (l_SourceFile sample_language)" by code_simp
  then show ?thesis
    by (auto simp: site_ready_def sample_jobs_def run_dir_def d under_def sample_world_def)
qed

definition sample_site :: "job_stage list \<Rightarrow> filesys \<Rightarrow> job_site" where
  "sample_site sts fs = \<lparr>js_stages = sts, js_fs = fs\<rparr>"

abbreviation sample_reach :: "job_site \<Rightarrow> bool" where
  "sample_reach \<equiv> reachable (site_init sample_jobs (w_fs sample_world)) (any_step sample_config (0, 0) sample_jobs)"

lemma sample_reach_start: "sample_reach (sample_site [Fresh, Fresh] (w_fs sample_world))"
  by (rule reachable.start) (simp add: site_init_def sample_jobs_def sample_site_def)

lemma sample_reach_step:
  assumes "sample_reach (sample_site sts fs)" "job_action sample_config (0, 0) (sample_jobs ! i) (sts ! i) fs cs st fs'"
    and "length sts = 2" "i < 2"
  shows "sample_reach (sample_site (sts[i := st]) fs')"
proof -
  have "site_step sample_config (0, 0) sample_jobs i (sample_site sts fs) (sample_site (sts[i := st]) fs')"
    using site_step.intros [of i sample_jobs "sample_site sts fs" sample_config "(0, 0)" cs st fs'] assms(2-4)
    by (simp add: sample_site_def sample_jobs_def)
  moreover have "i < length sample_jobs" using assms(4) by (simp add: sample_jobs_def)
  ultimately show ?thesis using reachable.step [OF assms(1)] unfolding any_step_def by blast
qed

text \<open>The first job has its source file in place while the second has not begun.\<close>

lemma sample_owned: "\<exists>fs. sample_reach (sample_site [Owned, Fresh] fs)"
proof -
  let ?j = "sample_jobs ! 0" and ?A = "job_action sample_config (0, 0) (sample_jobs ! 0)"
  let ?content = "stage_content sample_config (0, 0) (sample_jobs ! 0)"
  have j: "CHR ''/'' \<notin> set (jr_id ?j)" "plain (l_SourceFile (jr_lang ?j))"
    using site_readyD(1,2) [OF sample_jobs_ready, of 0] by (simp_all add: sample_jobs_def)
  have c: "?content (sts ! 0) fs" if "sample_reach (sample_site sts fs)" for sts fs
  proof -
    have "0 < length sample_jobs" by (simp add: sample_jobs_def)
    then show ?thesis using site_reachable_ok [OF sample_jobs_ready that] by (auto simp: site_ok_def sample_site_def)
  qed
  have d: "run_dir sample_config ?j = ''/tmp/goboxd/job-a''" "dir_prefixes ''/tmp/goboxd/job-a'' = [''/tmp'', ''/tmp/goboxd'', ''/tmp/goboxd/job-a'']"
    by code_simp+
  obtain fs1 where "fs_mkdir_all (0, 0) (run_dir sample_config ?j) 0x1ED (w_fs sample_world) = Inr fs1"
    by (simp add: fs_mkdir_all_def d) (simp add: sample_world_def)
  then have "?A ([Fresh, Fresh] ! 0) (w_fs sample_world) [SysMkdirAll (run_dir sample_config ?j) 0x1ED None] Made fs1"
    by (simp add: job_action.mkdir)
  from sample_reach_step [OF sample_reach_start this] have r1: "sample_reach (sample_site [Made, Fresh] fs1)" by simp
  obtain fs2 where "fs_write_file (0, 0) (run_source sample_config ?j) (rq_Source (jr_req ?j)) 0x1A4 fs1 = Inr fs2"
    using c [OF r1] by (simp add: fs_write_file_def)
  then have "?A ([Made, Fresh] ! 0) fs1
      [SysWriteFile (run_source sample_config ?j) (rq_Source (jr_req ?j)) 0x1A4 None] Written fs2"
    by (simp add: job_action.write_source)
  from sample_reach_step [OF r1 this] have r2: "sample_reach (sample_site [Written, Fresh] fs2)" by simp
  obtain fs3 where "fs_chown (run_dir sample_config ?j) (jail_owner sample_config) fs2 = Inr fs3"
    using c [OF r2] by (simp add: fs_chown_def)
  then have "?A ([Written, Fresh] ! 0) fs2 [SysChown (run_dir sample_config ?j) (jail_owner sample_config) None] DirOwned fs3"
    by (simp add: job_action.own_dir)
  from sample_reach_step [OF r2 this] have r3: "sample_reach (sample_site [DirOwned, Fresh] fs3)" by simp
  obtain fs4 where "fs_chown (run_source sample_config ?j) (jail_owner sample_config) fs3 = Inr fs4"
    using c [OF r3] by (simp add: fs_chown_def)
  then have "?A ([DirOwned, Fresh] ! 0) fs3 [SysChown (run_source sample_config ?j) (jail_owner sample_config) None] Owned fs4"
    by (simp add: job_action.own_source)
  from sample_reach_step [OF r3 this] show ?thesis by auto
qed

lemma sample_finished: "\<exists>fs. sample_reach (sample_site [Finished, Finished] fs)"
proof -
  obtain fs where "sample_reach (sample_site [Owned, Fresh] fs)" using sample_owned by blast
  then have "sample_reach (sample_site [Running, Fresh] fs)"
    using sample_reach_step [of "[Owned, Fresh]" fs 0 "[]" Running fs] job_action.start by simp
  then have "sample_reach (sample_site [Removing, Fresh] fs)"
    using sample_reach_step [of "[Running, Fresh]" fs 0 "[]" Removing fs] job_action.processes_over by simp
  then obtain fs' where "sample_reach (sample_site [Finished, Fresh] fs')"
    using sample_reach_step [of "[Removing, Fresh]" fs 0 _ Finished] job_action.remove by simp blast
  then have "sample_reach (sample_site [Finished, Finished] fs')"
    using sample_reach_step [of "[Finished, Fresh]" fs' 1 "[SysMkdirAll (run_dir sample_config (sample_jobs ! 1)) 0x1ED (Some [])]" Finished fs']
      job_action.mkdir_failed by simp
  then show ?thesis by blast
qed

section \<open>Properties\<close>

text \<open>C10. Concurrent jobs are isolated from each other. In every interleaving of any number of
  jobs, a step of one leaves every path of the others' directories as it is, whatever its
  processes do; so when the processes of a job are about to start, its directory belongs to the
  jail's user and holds exactly the source of its own request, owned by the jail's user.\<close>

theorem concurrent_jobs_are_isolated:
  assumes "site_ready cfg jobs fs" "reachable (site_init jobs fs) (any_step cfg self jobs) s"
    and i: "i < length jobs"
  shows "(\<forall>k < length jobs. k \<noteq> i \<longrightarrow> (\<forall>t q. site_step cfg self jobs k s t \<longrightarrow>
        under (run_dir cfg (jobs ! i)) q \<longrightarrow> js_fs t q = js_fs s q)) \<and>
    (js_stages s ! i = Owned \<longrightarrow>
       js_fs s (run_dir cfg (jobs ! i)) = Some (DirNode 0x1ED (jail_owner cfg)) \<and>
       js_fs s (run_source cfg (jobs ! i)) = Some (FileNode (rq_Source (jr_req (jobs ! i))) 0x1A4 (jail_owner cfg)) \<and>
       (\<forall>q. under (run_dir cfg (jobs ! i)) q \<longrightarrow> js_fs s q \<noteq> None \<longrightarrow>
          q = run_dir cfg (jobs ! i) \<or> q = run_source cfg (jobs ! i)))"
proof -
  have ok: "site_ok cfg self jobs fs s" by (rule site_reachable_ok [OF assms(1,2)])
  have frame: "js_fs t q = js_fs s q"
    if k: "k < length jobs" "k \<noteq> i" and st: "site_step cfg self jobs k s t" and q: "under (run_dir cfg (jobs ! i)) q" for k t q
  proof -
    obtain cs st' where "job_action cfg self (jobs ! k) (js_stages s ! k) (js_fs s) cs st' (js_fs t)"
      using st by (auto elim: site_step.cases)
    from site_step_frame [OF ok k(1) this] site_ready_disjoint [OF assms(1) i k(1) _ q] k(2)
    show ?thesis by (auto simp: unchanged_outside_def)
  qed
  have "stage_content cfg self (jobs ! i) (js_stages s ! i) (js_fs s)" using ok i by (simp add: site_ok_def)
  then have "js_stages s ! i = Owned \<longrightarrow> stage_content cfg self (jobs ! i) Owned (js_fs s)" by auto
  then show ?thesis unfolding stage_content.simps tidy_def by (intro conjI) (use frame in blast, force)
qed

theorem concurrent_jobs_are_isolated_witness:
  "\<exists>fs. sample_reach (sample_site [Owned, Fresh] fs) \<and>
     fs (run_source sample_config (sample_jobs ! 0)) = Some (FileNode ''print(42)'' 0x1A4 (jail_owner sample_config))"
proof -
  obtain fs where r: "sample_reach (sample_site [Owned, Fresh] fs)" using sample_owned by blast
  from concurrent_jobs_are_isolated [OF sample_jobs_ready r, of 0] r show ?thesis
    by (auto simp: sample_jobs_def sample_site_def sample_request_def)
qed

text \<open>C11. Concurrent jobs leave nothing behind. In every interleaving, every path outside the
  directories of the jobs in work is as it was at the start; so when all jobs are over, each
  having removed its directory, the file system is what it was before the first began.\<close>

theorem concurrent_jobs_leave_nothing:
  assumes "site_ready cfg jobs fs" "reachable (site_init jobs fs) (any_step cfg self jobs) s"
  shows "(\<forall>q. (\<forall>i < length jobs. js_stages s ! i \<noteq> Fresh \<longrightarrow> js_stages s ! i \<noteq> Finished \<longrightarrow>
        \<not> under (run_dir cfg (jobs ! i)) q) \<longrightarrow> js_fs s q = fs q) \<and>
    ((\<forall>i < length jobs. js_stages s ! i = Finished) \<longrightarrow> js_fs s = fs)"
  using site_reachable_ok [OF assms] by (auto simp: site_ok_def in_use_def)

theorem concurrent_jobs_leave_nothing_witness:
  "\<exists>s. sample_reach s \<and> js_fs s = w_fs sample_world"
proof -
  obtain fs where r: "sample_reach (sample_site [Finished, Finished] fs)" using sample_finished by blast
  have "\<forall>i < length sample_jobs. js_stages (sample_site [Finished, Finished] fs) ! i = Finished"
    by (auto simp: sample_jobs_def sample_site_def less_Suc_eq)
  with concurrent_jobs_leave_nothing [OF sample_jobs_ready r] r show ?thesis by blast
qed

text \<open>C36. The sequential code takes exactly these steps, call by call: whatever calls fail and whatever
  the processes do in the directory, the system calls that a run logs from the creation of the
  job directory to its removal, with their arguments and errors, are the calls along a path of
  the step relation for its one job. They are the creation, the write of the source, the two
  changes of owner - up to the first that fails - then, only if none failed, the processes, and
  last the removal; with removals that succeed the job is then over.\<close>

theorem run_refines_job_steps:
  fixes env lang req w cfg ctx
  assumes "jail_confined env"
  defines "j \<equiv> \<lparr>jr_id = os_uuid env (w_tick w), jr_lang = lang, jr_req = req\<rparr>"
    and "w' \<equiv> snd (with_job_dir env cfg ctx lang req w)"
  shows "\<exists>st tr ivs. (st = Finished \<or> st = LeftBehind \<and> \<not> removals_complete env) \<and>
    job_path cfg (os_self env) j Fresh (w_fs w) tr st (w_fs w') \<and>
    (any_step cfg (os_self env) [j])\<^sup>*\<^sup>* \<lparr>js_stages = [Fresh], js_fs = w_fs w\<rparr> \<lparr>js_stages = [st], js_fs = w_fs w'\<rparr> \<and>
    w_calls w' = w_calls w @ tr \<and> w_spawned w' = w_spawned w @ ivs \<and>
    (let d = run_dir cfg j; src = run_source cfg j; u = jail_owner cfg; made = SysMkdirAll d 0x1ED None;
         wrote = SysWriteFile src (rq_Source req) 0x1A4; owned = SysChown d u None; gone = SysRemoveAll d
     in (\<exists>e. tr = [SysMkdirAll d 0x1ED (Some e)] \<and> ivs = []) \<or>
        (\<exists>e. tr = [made, wrote (Some e), gone] \<and> ivs = []) \<or>
        (\<exists>e. tr = [made, wrote None, SysChown d u (Some e), gone] \<and> ivs = []) \<or>
        (\<exists>e. tr = [made, wrote None, owned, SysChown src u (Some e), gone] \<and> ivs = []) \<or>
        tr = [made, wrote None, owned, SysChown src u None] @ map SysProcess ivs @ [gone])"
proof -
  obtain st tr ivs where "st = Finished \<or> st = LeftBehind \<and> \<not> removals_complete env"
    "traced cfg (os_self env) j Fresh w tr st w'" "w_spawned w' = w_spawned w @ ivs" "job_calls cfg j tr ivs"
    using with_job_dir_traced [OF assms(1), where w = w and lang = lang and req = req and cfg = cfg and ctx = ctx] unfolding j_def w'_def by blast
  moreover have "rq_Source (jr_req j) = rq_Source req" by (simp add: j_def)
  ultimately show ?thesis
    unfolding traced_def job_calls_def
    by (intro exI [of _ st] exI [of _ tr] exI [of _ ivs]) (auto intro: job_path_steps simp: Let_def)
qed

theorem run_refines_job_steps_witness:
  "\<exists>tr ivs. job_path sample_config (0, 0) \<lparr>jr_id = ''u'', jr_lang = sample_language, jr_req = sample_request\<rparr>
      Fresh (w_fs sample_world) tr Finished
      (w_fs (snd (with_job_dir sample_env sample_config [] sample_language sample_request sample_world))) \<and>
    w_calls (snd (with_job_dir sample_env sample_config [] sample_language sample_request sample_world)) = tr"
proof -
  have "os_self sample_env = (0, 0)" "os_uuid sample_env t = ''u''" for t by (simp_all add: sample_env_def)
  moreover have "w_calls sample_world = []" by (simp add: sample_world_def)
  ultimately show ?thesis
    using run_refines_job_steps [OF sample_env_ok(1), where lang = sample_language and cfg = sample_config and
        w = sample_world and req = sample_request and ctx = "[]"]
      sample_env_ok(2) by auto
qed

end
