(* ===== verification/Json.thy ===== *)
theory Json
  imports Run_Correct "HOL-Library.Char_ord" "HOL-Library.List_Lexorder" "HOL-Library.Multiset"
begin

text \<open>
  The JSON values the service emits, before \<open>encoding/json\<close> turns them into text: the body of
  every HTTP answer and the result the worker stores in Redis. A Go struct is an object with
  its fields in declaration order, less the \<open>omitempty\<close> ones that are empty; a Go map is an
  object with its keys sorted, which is how the encoder writes it.
\<close>

datatype json = JStr string | JInt int | JBool bool | JArr "json list" | JObj "(string \<times> json) list"

definition json_map :: "(string \<times> json) list \<Rightarrow> json" where
  "json_map kvs = JObj (sort_key fst kvs)"

fun json_field :: "string \<Rightarrow> json \<Rightarrow> json option" where
  "json_field k (JObj kvs) = map_of kvs k"
| "json_field k _ = None"

definition omit_empty :: "bool \<Rightarrow> string \<times> json \<Rightarrow> (string \<times> json) list" where
  "omit_empty e kv = (if e then [] else [kv])"

section \<open>The response types\<close>

definition build_json :: "build_phase \<Rightarrow> json" where
  "build_json b = JObj
     [(''status'', JStr (build_status_text (bp_Status b))),
      (''stdout'', JStr (bp_Stdout b)),
      (''stderr'', JStr (bp_Stderr b)),
      (''duration_ms'', JInt (bp_DurationMS b))]"

definition test_json :: "test_result \<Rightarrow> json" where
  "test_json t = JObj
     ([(''status'', JStr (status_text (tr_Status t))),
       (''stdout'', JStr (tr_Stdout t)),
       (''stderr'', JStr (tr_Stderr t)),
       (''exit_code'', JInt (tr_ExitCode t))]
      @ omit_empty (tr_Signal t = []) (''signal'', JStr (tr_Signal t))
      @ [(''duration_ms'', JInt (tr_DurationMS t))]
      @ omit_empty (tr_MemoryKB t = 0) (''memory_kb'', JInt (tr_MemoryKB t)))"

definition response_json :: "response \<Rightarrow> json" where
  "response_json r = JObj
     ([(''status'', JStr (status_text (rp_Status r)))]
      @ (case rp_Build r of None \<Rightarrow> [] | Some b \<Rightarrow> [(''build'', build_json b)])
      @ omit_empty (rp_Tests r = []) (''tests'', JArr (map test_json (rp_Tests r))))"

definition snapshot_json :: "stats_snapshot \<Rightarrow> json" where
  "snapshot_json s = JObj
     [(''total'', JInt (ss_Total s)), (''rejected'', JInt (ss_Rejected s)),
      (''in_flight'', JInt (ss_InFlight s)), (''max_concurrency'', JInt (ss_MaxConcurrency s)),
      (''queue_depth'', JInt (ss_QueueDepth s)), (''samples'', JInt (ss_Samples s)),
      (''p50_ms'', JInt (ss_P50MS s)), (''p95_ms'', JInt (ss_P95MS s)),
      (''p99_ms'', JInt (ss_P99MS s)), (''max_ms'', JInt (ss_MaxMS s))]"

section \<open>Laws\<close>

lemma json_map_order:
  assumes "mset kvs = mset kvs'" "distinct (map fst kvs)"
  shows "json_map kvs = json_map kvs'"
proof -
  have "inj_on fst (set kvs)" using assms(2) by (simp add: distinct_map)
  then show ?thesis
    using assms(1) sort_key_inj_key_eq [of kvs "sort_key fst kvs'" fst] by (simp add: json_map_def)
qed

lemma map_of_sort_key:
  assumes "distinct (map fst kvs)"
  shows "map_of (sort_key fst kvs) = map_of kvs"
proof -
  have "mset (map fst (sort_key fst kvs)) = mset (map fst kvs)" by simp
  then have "distinct (map fst (sort_key fst kvs))" using assms by (rule mset_eq_imp_distinct_iff [THEN iffD2])
  then show ?thesis using assms by (subst map_of_inject_set) simp_all
qed

lemma json_field_map: "distinct (map fst kvs) \<Longrightarrow> json_field k (json_map kvs) = map_of kvs k"
  by (simp add: json_map_def map_of_sort_key)

lemma status_text_inject: "status_text a = status_text b \<longleftrightarrow> a = b"
  by (cases a; cases b) simp_all

lemma response_json_fields:
  "json_field ''status'' (response_json r) = Some (JStr (status_text (rp_Status r)))"
  "json_field ''build'' (response_json r) = map_option build_json (rp_Build r)"
  "json_field ''tests'' (response_json r) =
     (if rp_Tests r = [] then None else Some (JArr (map test_json (rp_Tests r))))"
  by (simp_all add: response_json_def omit_empty_def split: option.split)

end
