(* ===== verification/Json_Text.thy ===== *)
theory Json_Text
  imports Json
begin

text \<open>
  The text of a JSON value as \<open>encoding/json\<close> writes it for \<open>writeJSON\<close> (an \<open>Encoder\<close>, which ends
  the text with a newline) and for \<open>writeRedis\<close> (\<open>Marshal\<close>): no white space, HTML characters
  escaped, bytes that are no UTF-8 replaced. \<open>read_json\<close> is a reader after RFC 8259 for the
  values the service writes (integers, no fractions or exponents); it is the specification the
  text is measured against, not code of the program.
\<close>

section \<open>Writing\<close>

text \<open>One rune of a string literal, given as its bytes.\<close>

definition json_rune :: "string \<Rightarrow> string" where
  "json_rune u =
     (if length u = 1 then
        (let b = byte (hd u) in
         if b < 0x80 then
           (if b = 0x22 \<or> b = 0x5C then [BSL, hd u]
            else if b = 0x08 then [BSL, CHR ''b'']
            else if b = 0x0C then [BSL, CHR ''f'']
            else if b = 0x0A then [BSL, CHR ''n'']
            else if b = 0x0D then [BSL, CHR ''r'']
            else if b = 0x09 then [BSL, CHR ''t'']
            else if b < 0x20 \<or> b = 0x3C \<or> b = 0x3E \<or> b = 0x26 then BSL # CHR ''u'' # hex_str 4 b
            else u)
         else BSL # ''ufffd'')
      else if rune_value u = 0x2028 \<or> rune_value u = 0x2029 then BSL # CHR ''u'' # hex_str 4 (rune_value u)
      else u)"

definition json_string :: "string \<Rightarrow> string" where
  "json_string s = DQT # concat (map json_rune (split_runes s)) @ [DQT]"

fun json_text :: "json \<Rightarrow> string" where
  "json_text (JStr s) = json_string s"
| "json_text (JInt i) = Itoa i"
| "json_text (JBool b) = (if b then ''true'' else ''false'')"
| "json_text (JArr vs) = CHR ''['' # Join (map json_text vs) '','' @ '']''"
| "json_text (JObj kvs) =
     CHR ''{'' # Join (map (\<lambda>(k, v). json_string k @ CHR '':'' # json_text v) kvs) '','' @ ''}''"

text \<open>\<open>Encoder.Encode\<close>.\<close>

definition Encode :: "json \<Rightarrow> string" where
  "Encode v = json_text v @ [LF]"

section \<open>Reading\<close>

definition hex_value :: "char \<Rightarrow> nat option" where
  "hex_value c = (let b = byte c in
     if 48 \<le> b \<and> b \<le> 57 then Some (b - 48) else if 97 \<le> b \<and> b \<le> 102 then Some (b - 87)
     else if 65 \<le> b \<and> b \<le> 70 then Some (b - 55) else None)"

fun hex4 :: "string \<Rightarrow> nat option" where
  "hex4 (a # b # c # d # s) =
     (case (hex_value a, hex_value b, hex_value c, hex_value d) of
        (Some x, Some y, Some z, Some w) \<Rightarrow> Some (((x * 16 + y) * 16 + z) * 16 + w)
      | _ \<Rightarrow> None)"
| "hex4 _ = None"

text \<open>The UTF-8 bytes of a code point of the basic plane; a lone surrogate is U+FFFD.\<close>

definition utf8 :: "nat \<Rightarrow> string" where
  "utf8 n =
     (let n = (if 0xD800 \<le> n \<and> n \<le> 0xDFFF then 0xFFFD else n) in
      if n < 0x80 then [char_of n]
      else if n < 0x800 then [char_of (0xC0 + n div 64), char_of (0x80 + n mod 64)]
      else [char_of (0xE0 + n div 4096), char_of (0x80 + n div 64 mod 64), char_of (0x80 + n mod 64)])"

definition simple_escape :: "char \<Rightarrow> char option" where
  "simple_escape e = map_of [(DQT, DQT), (BSL, BSL), (CHR ''/'', CHR ''/''), (CHR ''b'', CHR 0x08),
     (CHR ''f'', CHR 0x0C), (CHR ''n'', LF), (CHR ''r'', CR), (CHR ''t'', TAB)] e"

definition prepend :: "string \<Rightarrow> (string \<times> string) option \<Rightarrow> (string \<times> string) option" where
  "prepend p r = map_option (\<lambda>(a, b). (p @ a, b)) r"

text \<open>The rest of a string literal after its opening quote, and what follows it.\<close>

function unescape :: "string \<Rightarrow> (string \<times> string) option" where
  "unescape [] = None"
| "unescape (c # s) =
     (if c = DQT then Some ([], s)
      else if c = BSL then
        (case s of [] \<Rightarrow> None
         | e # t \<Rightarrow>
             if e = CHR ''u'' then
               (case hex4 t of None \<Rightarrow> None | Some n \<Rightarrow> prepend (utf8 n) (unescape (drop 4 t)))
             else (case simple_escape e of None \<Rightarrow> None | Some x \<Rightarrow> prepend [x] (unescape t)))
      else if byte c < 0x20 then None
      else prepend [c] (unescape s))"
  by pat_completeness auto
termination by (relation "measure length") auto

text \<open>An integer: an optional sign and its digits.\<close>

definition read_nat :: "string \<Rightarrow> (nat \<times> string) option" where
  "read_nat s = (let ds = takeWhile is_digit s in
     if ds = [] then None else Some (digits_val 0 ds, dropWhile is_digit s))"

definition read_int :: "string \<Rightarrow> (json \<times> string) option" where
  "read_int s =
     (case s of
        c # t \<Rightarrow> if c = CHR ''-'' then map_option (\<lambda>(n, r). (JInt (- int n), r)) (read_nat t)
          else map_option (\<lambda>(n, r). (JInt (int n), r)) (read_nat s)
      | [] \<Rightarrow> None)"

definition read_word :: "string \<Rightarrow> json \<Rightarrow> string \<Rightarrow> (json \<times> string) option" where
  "read_word w v s = (if prefix w s then Some (v, drop (length w) s) else None)"

text \<open>
  Values, the rest of an array after \<open>[\<close> or a comma, and the rest of an object. The first
  argument bounds the number of calls; twice the length of the text is enough.
\<close>

fun read_value :: "nat \<Rightarrow> string \<Rightarrow> (json \<times> string) option"
  and read_items :: "nat \<Rightarrow> string \<Rightarrow> (json list \<times> string) option"
  and read_fields :: "nat \<Rightarrow> string \<Rightarrow> ((string \<times> json) list \<times> string) option" where
  "read_value (Suc n) (c # s) =
     (if c = DQT then map_option (\<lambda>(a, r). (JStr a, r)) (unescape s)
      else if c = CHR ''['' then
        (case s of [] \<Rightarrow> None
         | d # t \<Rightarrow> if d = CHR '']'' then Some (JArr [], t)
             else map_option (\<lambda>(vs, r). (JArr vs, r)) (read_items n s))
      else if c = CHR ''{'' then
        (case s of [] \<Rightarrow> None
         | d # t \<Rightarrow> if d = CHR ''}'' then Some (JObj [], t)
             else map_option (\<lambda>(kvs, r). (JObj kvs, r)) (read_fields n s))
      else if c = CHR ''t'' then read_word ''true'' (JBool True) (c # s)
      else if c = CHR ''f'' then read_word ''false'' (JBool False) (c # s)
      else read_int (c # s))"
| "read_value _ _ = None"
| "read_items (Suc n) s =
     (case read_value n s of
        Some (v, c # r) \<Rightarrow>
          if c = CHR '','' then map_option (\<lambda>(vs, r). (v # vs, r)) (read_items n r)
          else if c = CHR '']'' then Some ([v], r) else None
      | _ \<Rightarrow> None)"
| "read_items 0 s = None"
| "read_fields (Suc n) s =
     (case s of [] \<Rightarrow> None
      | q # s' \<Rightarrow>
          if q \<noteq> DQT then None
          else (case unescape s' of
              Some (k, d # t) \<Rightarrow>
                if d \<noteq> CHR '':'' then None
                else (case read_value n t of
                    Some (v, c # r) \<Rightarrow>
                      if c = CHR '','' then map_option (\<lambda>(kvs, r). ((k, v) # kvs, r)) (read_fields n r)
                      else if c = CHR ''}'' then Some ([(k, v)], r) else None
                  | _ \<Rightarrow> None)
            | _ \<Rightarrow> None))"
| "read_fields 0 s = None"

text \<open>A whole text: one value, and nothing but a newline after it.\<close>

definition read_json :: "string \<Rightarrow> json option" where
  "read_json s = (case read_value (2 * length s) s of
     Some (v, r) \<Rightarrow> if r = [] \<or> r = [LF] then Some v else None | None \<Rightarrow> None)"

section \<open>What a reader sees\<close>

text \<open>Bytes that are no UTF-8 are replaced by U+FFFD; everything else is kept.\<close>

definition clean_rune :: "string \<Rightarrow> string" where
  "clean_rune u = (if length u = 1 \<and> 0x80 \<le> byte (hd u) then [CHR 0xEF, CHR 0xBF, CHR 0xBD] else u)"

definition clean :: "string \<Rightarrow> string" where
  "clean s = concat (map clean_rune (split_runes s))"

fun clean_json :: "json \<Rightarrow> json" where
  "clean_json (JStr s) = JStr (clean s)"
| "clean_json (JInt i) = JInt i"
| "clean_json (JBool b) = JBool b"
| "clean_json (JArr vs) = JArr (map clean_json vs)"
| "clean_json (JObj kvs) = JObj (map (\<lambda>(k, v). (clean k, clean_json v)) kvs)"

section \<open>Laws of the runes\<close>

lemma nth_in_take: "i < k \<Longrightarrow> nth_in i lo hi (take k s) = nth_in i lo hi s"
  by (auto simp: nth_in_def)

text \<open>A rune of a string: one byte, or a well-formed sequence of two, three or four.\<close>

definition well_formed :: "string \<Rightarrow> bool" where
  "well_formed u \<longleftrightarrow> (\<exists>c t. u = c # t \<and> (length t = 1 \<and> seq2 c t \<or>
     length t = 2 \<and> seq3 c t \<or> length t = 3 \<and> seq4 c t))"

lemma take_rune: "length (take (rune_width (c # s)) (c # s)) = 1 \<or> well_formed (take (rune_width (c # s)) (c # s))"
proof -
  have "seq2 c (take 1 s) = seq2 c s" "seq3 c (take 2 s) = seq3 c s" "seq4 c (take 3 s) = seq4 c s"
    by (simp_all add: seq2_def seq3_def seq4_def nth_in_take)
  moreover have "rune_width (c # s) = (if seq2 c s then 2 else if seq3 c s then 3 else if seq4 c s then 4 else 1)"
    by (simp add: rune_width.simps)
  ultimately show ?thesis
    using seq_length [of c s] by (auto simp: well_formed_def)
qed

lemma split_runes_cases: "u \<in> set (split_runes s) \<Longrightarrow> length u = 1 \<or> well_formed u"
proof (induction s rule: split_runes.induct)
  case (2 c s)
  then show ?case using take_rune [of c s] by (auto simp: split_runes.simps(2) Let_def)
qed simp

lemma well_formed_high: "well_formed u \<Longrightarrow> c \<in> set u \<Longrightarrow> 0x80 \<le> byte c"
  unfolding well_formed_def seq2_def seq3_def seq4_def nth_in_def
  by (auto simp: in_set_conv_nth less_Suc_eq numeral_2_eq_2 numeral_3_eq_3)

lemma mod_low: "(0x80::nat) \<le> b \<Longrightarrow> b \<le> 0xBF \<Longrightarrow> b mod 64 = b - 0x80"
  by (simp add: mod_if)

lemma lead_mod: "p < 16 \<Longrightarrow> (0xE0 + p) mod 16 = (p::nat)" "q < 64 \<Longrightarrow> (0x80 + q) mod 64 = (q::nat)"
  by (simp_all add: mod_add_left_eq [symmetric, of "0xE0"] mod_add_left_eq [symmetric, of "0x80"])

lemma three_digits:
  fixes p q s :: nat
  assumes "p < 16" "q < 64" "s < 64"
  shows "(p * 4096 + q * 64 + s) div 4096 = p" "(p * 4096 + q * 64 + s) div 64 mod 64 = q"
    "(p * 4096 + q * 64 + s) mod 64 = s"
proof -
  have e: "p * 4096 + q * 64 + s = s + (q + p * 64) * 64" by simp
  show "(p * 4096 + q * 64 + s) div 4096 = p" using assms by simp
  have "(p * 4096 + q * 64 + s) div 64 = q + p * 64" unfolding e using assms by simp
  then show "(p * 4096 + q * 64 + s) div 64 mod 64 = q" using assms by simp
  show "(p * 4096 + q * 64 + s) mod 64 = s" unfolding e using assms by (metis mod_less mod_mult_self1)
qed

lemma wide_rune_value:
  assumes "well_formed u" "0x800 \<le> rune_value u" "rune_value u < 0x10000" "rune_value u \<noteq> 0xFFFD"
  shows "utf8 (rune_value u) = u"
proof -
  obtain x t where u: "u = x # t" and t: "length t = 1 \<and> seq2 x t \<or> length t = 2 \<and> seq3 x t \<or> length t = 3 \<and> seq4 x t"
    using assms(1) by (auto simp: well_formed_def)
  consider (two) y where "t = [y]" "seq2 x t" | (three) y z where "t = [y, z]" "seq3 x t"
    | (four) y z w where "t = [y, z, w]" "seq4 x t"
    using t by (auto simp: length_Suc_conv numeral_2_eq_2 numeral_3_eq_3)
  then show ?thesis
  proof cases
    case two
    then have "rune_width u = 2" by (simp add: u rune_width.simps)
    then have "rune_value u = byte x mod 32 * 64 + byte y mod 64" using two u by (simp add: rune_value_def Let_def)
    moreover have "byte x mod 32 < 32" "byte y mod 64 < 64" by simp_all
    ultimately have "rune_value u < 0x800" by linarith
    then show ?thesis using assms(2) by simp
  next
    case three
    then have n: "\<not> seq2 x t" by (auto simp: seq2_def seq3_def)
    then have "rune_width u = 3" using three by (simp add: u rune_width.simps)
    then have v: "rune_value u = byte x mod 16 * 4096 + byte y mod 64 * 64 + byte z mod 64"
      using three u by (simp add: rune_value_def Let_def)
    have r: "0xE0 \<le> byte x" "byte x \<le> 0xEF" "0x80 \<le> byte y" "byte y \<le> 0xBF" "0x80 \<le> byte z" "byte z \<le> 0xBF"
      and ed: "byte x = 0xED \<Longrightarrow> byte y \<le> 0x9F"
      using three by (auto simp: seq3_def nth_in_def)
    define p q s where "p = byte x - 0xE0" and "q = byte y - 0x80" and "s = byte z - 0x80"
    have b: "byte x = 0xE0 + p" "byte y = 0x80 + q" "byte z = 0x80 + s" "p < 16" "q < 64" "s < 64"
      using r by (simp_all add: p_def q_def s_def)
    have w: "rune_value u = p * 4096 + q * 64 + s" unfolding v b(1-3) using b(4-6) by (simp add: lead_mod)
    have d: "rune_value u div 4096 = p" "rune_value u div 64 mod 64 = q" "rune_value u mod 64 = s"
      unfolding w by (rule three_digits; fact b)+
    have ns: "\<not> (0xD800 \<le> rune_value u \<and> rune_value u \<le> 0xDFFF)"
    proof (cases "p = 13")
      case True
      then have "q < 32" using ed b by simp
      then show ?thesis unfolding w True using b(6) by linarith
    next
      case False
      then show ?thesis unfolding w using b(5,6) by linarith
    qed
    have "char_of (0xE0 + p) = x" "char_of (0x80 + q) = y" "char_of (0x80 + s) = z"
      unfolding b(1-3) [symmetric] by simp_all
    moreover have "utf8 (rune_value u) = [char_of (0xE0 + p), char_of (0x80 + q), char_of (0x80 + s)]"
      unfolding utf8_def if_not_P [OF ns] Let_def d using assms(2) by simp
    ultimately show ?thesis using three u by simp
  next
    case four
    then have n: "\<not> seq2 x t" "\<not> seq3 x t" by (auto simp: seq2_def seq3_def seq4_def)
    then have "rune_width u = 4" using four by (simp add: u rune_width.simps)
    then have v: "rune_value u = byte x mod 8 * 262144 + byte y mod 64 * 4096 + byte z mod 64 * 64 + byte w mod 64"
      using four u by (simp add: rune_value_def Let_def)
    have "1 \<le> byte x mod 8 \<or> 16 \<le> byte y mod 64"
    proof (cases "byte x = 0xF0")
      case True
      then have "0x90 \<le> byte y" "byte y \<le> 0xBF" using four by (simp_all add: seq4_def nth_in_def)
      then show ?thesis using mod_low [of "byte y"] by (intro disjI2) simp
    next
      case False
      then have "0xF1 \<le> byte x" "byte x \<le> 0xF4" using four by (auto simp: seq4_def)
      then have "1 \<le> byte x mod 8" by presburger
      then show ?thesis by simp
    qed
    then have "0x10000 \<le> rune_value u" unfolding v by auto
    then show ?thesis using assms(3) by simp
  qed
qed

section \<open>Reading string literals back\<close>

lemma prepend_simps [simp]: "prepend p (Some (a, r)) = Some (p @ a, r)" "prepend p None = None"
  "prepend [] x = x" "prepend p (prepend q x) = prepend (p @ q) x"
  by (cases x; auto simp: prepend_def)+

declare unescape.simps(2) [simp del]

lemma unescape_quote: "unescape (DQT # s) = Some ([], s)"
  by (simp add: unescape.simps)

lemma unescape_plain:
  "c \<noteq> DQT \<Longrightarrow> c \<noteq> BSL \<Longrightarrow> 0x20 \<le> byte c \<Longrightarrow> unescape (c # s) = prepend [c] (unescape s)"
  by (simp add: unescape.simps)

lemma unescape_simple:
  "simple_escape e = Some x \<Longrightarrow> e \<noteq> CHR ''u'' \<Longrightarrow> unescape (BSL # e # s) = prepend [x] (unescape s)"
  by (simp add: unescape.simps BSL_def DQT_def)

lemma unescape_u: "hex4 s = Some n \<Longrightarrow> unescape (BSL # CHR ''u'' # s) = prepend (utf8 n) (unescape (drop 4 s))"
  by (simp add: unescape.simps BSL_def DQT_def)

lemma hex_value_digit: "d < 16 \<Longrightarrow> hex_value (hex_digit d) = Some d"
  by (auto simp: hex_value_def hex_digit_def Let_def take_bit_nat_def)

lemma hex_str_4: "hex_str 4 n = [hex_digit (n div 16 div 16 div 16 mod 16), hex_digit (n div 16 div 16 mod 16),
    hex_digit (n div 16 mod 16), hex_digit (n mod 16)]"
proof -
  have "4 = Suc (Suc (Suc (Suc 0)))" by simp
  then show ?thesis by (simp only: hex_str.simps append.simps)
qed

lemma hex_digits_sum:
  fixes n a b c :: nat
  assumes "n = a * 16 + n mod 16" "a = b * 16 + a mod 16" "b = c * 16 + b mod 16" "c < 16"
  shows "((c mod 16 * 16 + b mod 16) * 16 + a mod 16) * 16 + n mod 16 = n"
proof -
  have c: "c mod 16 = c" using assms(4) by simp
  show ?thesis unfolding c assms(3) [symmetric] assms(2) [symmetric] assms(1) [symmetric] ..
qed

lemma hex4_str: "n < 0x10000 \<Longrightarrow> hex4 (hex_str 4 n @ s) = Some n"
proof -
  assume n: "n < 0x10000"
  define a b c where "a = n div 16" and "b = a div 16" and "c = b div 16"
  have "c < 16" using n unfolding a_def b_def c_def by linarith
  moreover have "n = a * 16 + n mod 16" "a = b * 16 + a mod 16" "b = c * 16 + b mod 16"
    unfolding a_def b_def c_def by (rule div_mult_mod_eq [symmetric])+
  ultimately have "((c mod 16 * 16 + b mod 16) * 16 + a mod 16) * 16 + n mod 16 = n" by (intro hex_digits_sum)
  then show ?thesis unfolding hex_str_4 a_def [symmetric] b_def [symmetric] c_def [symmetric]
    by (simp add: hex_value_digit)
qed

lemma utf8_ascii: "n < 0x80 \<Longrightarrow> utf8 n = [char_of n]"
  by (simp add: utf8_def)

lemma unescape_high: "\<forall>c \<in> set u. 0x80 \<le> byte c \<Longrightarrow> unescape (u @ s) = prepend u (unescape s)"
proof (induction u)
  case (Cons c u)
  then have "c \<noteq> DQT" "c \<noteq> BSL" "0x20 \<le> byte c" by (auto simp: DQT_def BSL_def)
  then show ?case using Cons by (simp add: unescape_plain)
qed simp

lemma char_byte: "byte c = n \<Longrightarrow> c = char_of n"
  by (metis char_of_char)

lemma char_codes: "char_of (0x22 :: nat) = CHR 0x22" "char_of (0x5C :: nat) = CHR 0x5C"
  "char_of (0xEF :: nat) = CHR 0xEF" "char_of (0xBF :: nat) = CHR 0xBF" "char_of (0xBD :: nat) = CHR 0xBD"
  by code_simp+

text \<open>
  The contract of a reader of string literals: what the reference reader and the decoder of
  requests share, and all that reading a written literal back needs.
\<close>

locale literal_reader =
  fixes read_lit :: "string \<Rightarrow> (string \<times> string) option"
  assumes read_quote: "read_lit (DQT # s) = Some ([], s)"
    and read_plain: "c \<noteq> DQT \<Longrightarrow> c \<noteq> BSL \<Longrightarrow> 0x20 \<le> byte c \<Longrightarrow> byte c < 0x80 \<Longrightarrow>
      read_lit (c # s) = prepend [c] (read_lit s)"
    and read_simple: "simple_escape e = Some x \<Longrightarrow> e \<noteq> CHR ''u'' \<Longrightarrow> read_lit (BSL # e # s) = prepend [x] (read_lit s)"
    and read_u: "hex4 s = Some n \<Longrightarrow> n < 0xD800 \<or> 0xDFFF < n \<Longrightarrow>
      read_lit (BSL # CHR ''u'' # s) = prepend (utf8 n) (read_lit (drop 4 s))"
    and read_wide: "well_formed u \<Longrightarrow> read_lit (u @ s) = prepend u (read_lit s)"
begin

lemma read_hex: "n < 0xD800 \<or> 0xDFFF < n \<Longrightarrow> n < 0x10000 \<Longrightarrow>
    read_lit (BSL # CHR ''u'' # hex_str 4 n @ s) = prepend (utf8 n) (read_lit s)"
  using read_u [OF hex4_str, of n s] by (simp add: hex_str_4)

lemma read_ascii:
  assumes b: "byte c < 0x80"
  shows "read_lit (json_rune [c] @ s) = prepend [c] (read_lit s)"
proof -
  have r: "read_lit (BSL # e # s) = prepend [c] (read_lit s)"
    if "simple_escape e = Some (char_of (byte c))" "e \<noteq> CHR ''u''" for e
    using read_simple [OF that] by simp
  have s: "simple_escape DQT = Some (char_of (byte DQT))" "simple_escape BSL = Some (char_of (byte BSL))"
    "simple_escape CHR ''b'' = Some (char_of (0x08 :: nat))" "simple_escape CHR ''f'' = Some (char_of (0x0C :: nat))"
    "simple_escape CHR ''n'' = Some (char_of (0x0A :: nat))" "simple_escape CHR ''r'' = Some (char_of (0x0D :: nat))"
    "simple_escape CHR ''t'' = Some (char_of (0x09 :: nat))" by code_simp+
  have j: "json_rune [DQT] = [BSL, DQT]" "json_rune [BSL] = [BSL, BSL]" "DQT \<noteq> CHR ''u''" "BSL \<noteq> CHR ''u''" by code_simp+
  consider (quote) "c = DQT" | (slash) "c = BSL" | (b) "byte c = 0x08" | (f) "byte c = 0x0C" | (n) "byte c = 0x0A"
    | (ret) "byte c = 0x0D" | (t) "byte c = 0x09"
    | (hex) "byte c \<notin> {0x22, 0x5C, 0x08, 0x0C, 0x0A, 0x0D, 0x09}" "byte c < 0x20 \<or> byte c = 0x3C \<or> byte c = 0x3E \<or> byte c = 0x26"
    | (keep) "c \<noteq> DQT" "c \<noteq> BSL" "\<not> byte c < 0x20" "byte c \<notin> {0x22, 0x5C, 0x3C, 0x3E, 0x26}"
  proof -
    have "c = DQT" if "byte c = 0x22" using char_byte [OF that] by (simp add: DQT_def char_codes)
    moreover have "c = BSL" if "byte c = 0x5C" using char_byte [OF that] by (simp add: BSL_def char_codes)
    ultimately show thesis using quote slash b f n ret t hex keep that by blast
  qed
  then show ?thesis
  proof cases
    case hex
    then have "json_rune [c] = BSL # CHR ''u'' # hex_str 4 (byte c)" using b by (simp add: json_rune_def Let_def)
    then show ?thesis using read_hex [of "byte c" s] b by (simp add: utf8_ascii)
  next
    case keep
    then have "json_rune [c] = [c]" using b by (simp add: json_rune_def Let_def)
    then show ?thesis using read_plain [of c s] keep b by simp
  next
    case quote
    then show ?thesis using r [of DQT] s(1) j by simp
  next
    case slash
    then show ?thesis using r [of BSL] s(2) j by simp
  next
    case b
    then show ?thesis using r [of "CHR ''b''"] s(3) by (simp add: json_rune_def)
  next
    case f
    then show ?thesis using r [of "CHR ''f''"] s(4) by (simp add: json_rune_def)
  next
    case n
    then show ?thesis using r [of "CHR ''n''"] s(5) by (simp add: json_rune_def)
  next
    case ret
    then show ?thesis using r [of "CHR ''r''"] s(6) by (simp add: json_rune_def)
  next
    case t
    then show ?thesis using r [of "CHR ''t''"] s(7) by (simp add: json_rune_def)
  qed
qed

lemma read_rune:
  assumes "length u = 1 \<or> well_formed u"
  shows "read_lit (json_rune u @ s) = prepend (clean_rune u) (read_lit s)"
proof (cases "length u = 1")
  case True
  then obtain c where u: "u = [c]" by (auto simp: length_Suc_conv)
  show ?thesis
  proof (cases "byte c < 0x80")
    case False
    have "hex_value CHR ''f'' = Some 15" "hex_value CHR ''d'' = Some 13" by code_simp+
    then have "hex4 (''fffd'' @ s) = Some 0xFFFD" by simp
    moreover have "utf8 0xFFFD = [CHR 0xEF, CHR 0xBF, CHR 0xBD]" by (simp add: utf8_def char_codes)
    ultimately show ?thesis
      using read_u [where s = "''fffd'' @ s" and n = "0xFFFD"] False by (simp add: u json_rune_def clean_rune_def Let_def)
  qed (simp add: u read_ascii clean_rune_def)
next
  case False
  then have wf: "well_formed u" using assms by simp
  have k: "clean_rune u = u" using False by (simp add: clean_rune_def)
  show ?thesis
  proof (cases "rune_value u = 0x2028 \<or> rune_value u = 0x2029")
    case True
    then have j: "json_rune u = BSL # CHR ''u'' # hex_str 4 (rune_value u)" using False by (simp add: json_rune_def)
    have "utf8 (rune_value u) = u" by (rule wide_rune_value [OF wf]) (use True in auto)
    then show ?thesis using read_hex [of "rune_value u" s] True unfolding j k by auto
  next
    case keep: False
    then have "json_rune u = u" using False by (simp add: json_rune_def)
    then show ?thesis using read_wide [OF wf, of s] k by simp
  qed
qed

lemma read_runes:
  "\<forall>u \<in> set us. length u = 1 \<or> well_formed u \<Longrightarrow>
     read_lit (concat (map json_rune us) @ s) = prepend (concat (map clean_rune us)) (read_lit s)"
  by (induction us) (simp_all add: read_rune)

lemma read_string: "read_lit (concat (map json_rune (split_runes s)) @ DQT # r) = Some (clean s, r)"
  using read_runes [of "split_runes s" "DQT # r"] split_runes_cases [of _ s]
  by (simp add: read_quote clean_def)

end

interpretation ref: literal_reader unescape
proof unfold_locales
  show "well_formed u \<Longrightarrow> unescape (u @ s) = prepend u (unescape s)" for u s
    using unescape_high [of u s] well_formed_high by blast
qed (simp_all add: unescape_quote unescape_plain unescape_simple unescape_u)

section \<open>Reading values back\<close>

lemma read_nat_str: "r = [] \<or> \<not> is_digit (hd r) \<Longrightarrow> read_nat (nat_str n @ r) = Some (n, r)"
proof -
  assume r: "r = [] \<or> \<not> is_digit (hd r)"
  have d: "\<forall>c \<in> set (nat_str n). is_digit c" "nat_str n \<noteq> []" using nat_str_digits [of n] by (auto simp: list_all_iff)
  then have "takeWhile is_digit (nat_str n @ r) = nat_str n" "dropWhile is_digit (nat_str n @ r) = r"
    using r by (cases r; auto)+
  then show ?thesis using d(2) by (simp add: read_nat_def Let_def digits_val_nat_str)
qed

lemma read_int_Itoa:
  assumes r: "r = [] \<or> \<not> is_digit (hd r)"
  shows "read_int (Itoa i @ r) = Some (JInt i, r)"
proof (cases "i < 0")
  case True
  then show ?thesis using read_nat_str [OF r, of "nat (- i)"] by (simp add: read_int_def Itoa_def)
next
  case False
  obtain c s where c: "nat_str (nat i) = c # s" "is_digit c"
    using nat_str_digits [of "nat i"] by (cases "nat_str (nat i)") auto
  then have "c \<noteq> CHR ''-''" by (auto simp: is_digit_def)
  then show ?thesis using read_nat_str [OF r, of "nat i"] False c(1) by (simp add: read_int_def Itoa_def)
qed

text \<open>What may follow a value inside a text.\<close>

definition ends_value :: "string \<Rightarrow> bool" where
  "ends_value r \<longleftrightarrow> r = [] \<or> hd r \<in> {CHR '','', CHR '']'', CHR ''}'', LF}"

lemma ends_value_digit: "ends_value r \<Longrightarrow> r = [] \<or> \<not> is_digit (hd r)"
  by (auto simp: ends_value_def is_digit_def)

lemma json_text_head: "\<exists>c s. json_text v = c # s \<and> c \<noteq> CHR '']''"
proof (cases v)
  case (JInt i)
  obtain d s where d: "nat_str (nat i) = d # s" "is_digit d"
    using nat_str_digits [of "nat i"] by (cases "nat_str (nat i)") auto
  then have "d \<noteq> CHR '']''" by (auto simp: is_digit_def)
  then show ?thesis using JInt d by (simp add: Itoa_def)
qed (auto simp: json_string_def DQT_def)

lemma json_text_pos: "0 < length (json_text v)"
  using json_text_head [of v] by auto

definition reads_back :: "json \<Rightarrow> bool" where
  "reads_back v \<longleftrightarrow> (\<forall>n r. ends_value r \<longrightarrow> 2 * length (json_text v) \<le> n \<longrightarrow>
     read_value n (json_text v @ r) = Some (clean_json v, r))"

lemma reads_backD: "reads_back v \<Longrightarrow> ends_value r \<Longrightarrow> 2 * length (json_text v) \<le> n \<Longrightarrow>
    read_value n (json_text v @ r) = Some (clean_json v, r)"
  by (simp add: reads_back_def)

lemma reads_backI:
  assumes "\<And>m r. ends_value r \<Longrightarrow> 2 * length (json_text v) \<le> Suc m \<Longrightarrow>
    read_value (Suc m) (json_text v @ r) = Some (clean_json v, r)"
  shows "reads_back v"
  unfolding reads_back_def
proof (intro allI impI)
  fix n r assume h: "ends_value r" "2 * length (json_text v) \<le> n"
  then obtain m where "n = Suc m" using json_text_pos [of v] by (cases n) auto
  then show "read_value n (json_text v @ r) = Some (clean_json v, r)" using assms h by simp
qed

lemma Join_Cons2: "xs \<noteq> [] \<Longrightarrow> Join (x # xs) sep = x @ sep @ Join xs sep"
  by (cases xs) simp_all

lemma ends_value_Cons [simp]: "ends_value (CHR '','' # r)" "ends_value (CHR '']'' # r)" "ends_value (CHR ''}'' # r)"
  by (simp_all add: ends_value_def)

lemma read_items_join:
  "vs \<noteq> [] \<Longrightarrow> \<forall>v \<in> set vs. reads_back v \<Longrightarrow> 2 * length (Join (map json_text vs) '','') + 1 \<le> n \<Longrightarrow>
     read_items n (Join (map json_text vs) '','' @ CHR '']'' # r) = Some (map clean_json vs, r)"
proof (induction vs arbitrary: n)
  case (Cons v vs)
  then obtain m where n: "n = Suc m" by (cases n) auto
  show ?case
  proof (cases "vs = []")
    case True
    then have "read_value m (json_text v @ CHR '']'' # r) = Some (clean_json v, CHR '']'' # r)"
      using Cons.prems n by (intro reads_backD) simp_all
    then show ?thesis using n True by simp
  next
    case False
    let ?rest = "Join (map json_text vs) '','' @ CHR '']'' # r"
    have j: "Join (map json_text (v # vs)) '','' = json_text v @ '','' @ Join (map json_text vs) '',''"
      using False Join_Cons2 [of "map json_text vs" "json_text v" "'',''"] by simp
    have "read_value m (json_text v @ CHR '','' # ?rest) = Some (clean_json v, CHR '','' # ?rest)"
      using Cons.prems n j by (intro reads_backD) simp_all
    moreover have "read_items m ?rest = Some (map clean_json vs, r)"
      using Cons.prems n j False by (intro Cons.IH) simp_all
    ultimately show ?thesis unfolding j using n by simp
  qed
qed simp

definition field_text :: "string \<times> json \<Rightarrow> string" where
  "field_text kv = json_string (fst kv) @ CHR '':'' # json_text (snd kv)"

lemma read_fields_join:
  "kvs \<noteq> [] \<Longrightarrow> \<forall>kv \<in> set kvs. reads_back (snd kv) \<Longrightarrow> 2 * length (Join (map field_text kvs) '','') + 1 \<le> n \<Longrightarrow>
     read_fields n (Join (map field_text kvs) '','' @ CHR ''}'' # r) =
       Some (map (\<lambda>(k, v). (clean k, clean_json v)) kvs, r)"
proof (induction kvs arbitrary: n)
  case (Cons kv kvs)
  obtain k v where kv: "kv = (k, v)" by fastforce
  from Cons.prems obtain m where n: "n = Suc m" by (cases n) auto
  have f: "field_text kv @ t = DQT # concat (map json_rune (split_runes k)) @ DQT # CHR '':'' # json_text v @ t" for t
    by (simp add: field_text_def json_string_def kv)
  have len: "length (json_text v) \<le> length (field_text kv)" by (simp add: field_text_def kv)
  show ?case
  proof (cases "kvs = []")
    case True
    then have "read_value m (json_text v @ CHR ''}'' # r) = Some (clean_json v, CHR ''}'' # r)"
      using Cons.prems n len True by (intro reads_backD) (simp_all add: kv)
    then show ?thesis using n True f [of "CHR ''}'' # r"] by (simp add: ref.read_string kv)
  next
    case False
    let ?rest = "Join (map field_text kvs) '','' @ CHR ''}'' # r"
    have j: "Join (map field_text (kv # kvs)) '','' = field_text kv @ '','' @ Join (map field_text kvs) '',''"
      using False Join_Cons2 [of "map field_text kvs" "field_text kv" "'',''"] by simp
    have "read_value m (json_text v @ CHR '','' # ?rest) = Some (clean_json v, CHR '','' # ?rest)"
      using Cons.prems n j len by (intro reads_backD) (simp_all add: kv)
    moreover have "read_fields m ?rest = Some (map (\<lambda>(k, v). (clean k, clean_json v)) kvs, r)"
      using Cons.prems n j False by (intro Cons.IH) simp_all
    ultimately show ?thesis unfolding j using n f [of "CHR '','' # ?rest"] by (simp add: ref.read_string kv)
  qed
qed simp

lemma read_value_int:
  assumes "ends_value r"
  shows "read_value (Suc n) (Itoa i @ r) = Some (JInt i, r)"
proof -
  obtain c s where c: "Itoa i = c # s" "c = CHR ''-'' \<or> is_digit c"
    using nat_str_digits [of "nat i"] by (cases "i < 0"; cases "nat_str (nat i)") (auto simp: Itoa_def)
  then have "c \<noteq> DQT" "c \<noteq> CHR ''[''" "c \<noteq> CHR ''{''" "c \<noteq> CHR ''t''" "c \<noteq> CHR ''f''"
    by (auto simp: is_digit_def DQT_def)
  then show ?thesis using read_int_Itoa [OF ends_value_digit [OF assms], of i] c(1) by simp
qed

lemma json_reads_back: "reads_back v"
proof (induction v)
  case (JStr s)
  show ?case
  proof (rule reads_backI)
    fix m r
    show "read_value (Suc m) (json_text (JStr s) @ r) = Some (clean_json (JStr s), r)"
      by (simp add: json_string_def ref.read_string)
  qed
next
  case (JInt i)
  show ?case by (rule reads_backI) (simp add: read_value_int)
next
  case (JBool b)
  show ?case by (rule reads_backI) (simp add: read_word_def DQT_def)
next
  case (JArr vs)
  show ?case
  proof (rule reads_backI)
    fix m r assume h: "2 * length (json_text (JArr vs)) \<le> Suc m"
    show "read_value (Suc m) (json_text (JArr vs) @ r) = Some (clean_json (JArr vs), r)"
    proof (cases vs)
      case (Cons v ws)
      obtain c s where "json_text v = c # s" "c \<noteq> CHR '']''" using json_text_head by blast
      then obtain s' where s: "Join (map json_text vs) '','' = c # s'" "c \<noteq> CHR '']''"
        using Cons by (cases ws) simp_all
      have "read_items m (Join (map json_text vs) '','' @ CHR '']'' # r) = Some (map clean_json vs, r)"
        using h JArr Cons by (intro read_items_join) simp_all
      then show ?thesis using s by (simp add: DQT_def)
    qed (simp add: DQT_def)
  qed
next
  case (JObj kvs)
  show ?case
  proof (rule reads_backI)
    fix m r assume h: "2 * length (json_text (JObj kvs)) \<le> Suc m"
    have t: "map (\<lambda>(k, v). json_string k @ CHR '':'' # json_text v) kvs = map field_text kvs"
      by (auto simp: field_text_def)
    show "read_value (Suc m) (json_text (JObj kvs) @ r) = Some (clean_json (JObj kvs), r)"
    proof (cases kvs)
      case (Cons kv ks)
      obtain s' where s: "Join (map field_text kvs) '','' = DQT # s'"
        using Cons by (cases ks) (simp_all add: field_text_def json_string_def)
      have "\<forall>kv \<in> set kvs. reads_back (snd kv)" using JObj by (metis snds.intros)
      then have "read_fields m (Join (map field_text kvs) '','' @ CHR ''}'' # r) =
          Some (map (\<lambda>(k, v). (clean k, clean_json v)) kvs, r)"
        using h [unfolded json_text.simps t] Cons by (intro read_fields_join) simp_all
      then show ?thesis unfolding json_text.simps clean_json.simps t using s by (simp add: DQT_def)
    qed (simp add: DQT_def)
  qed
qed

lemma read_json_Encode: "read_json (Encode v) = Some (clean_json v)"
  using reads_backD [OF json_reads_back, of "[LF]" v "2 * length (Encode v)"]
  by (simp add: read_json_def Encode_def ends_value_def)

text \<open>Valid UTF-8 is read back byte by byte.\<close>

definition valid_utf8 :: "string \<Rightarrow> bool" where
  "valid_utf8 s \<longleftrightarrow> (\<forall>u \<in> set (split_runes s). length u = 1 \<longrightarrow> byte (hd u) < 0x80)"

fun valid_json :: "json \<Rightarrow> bool" where
  "valid_json (JStr s) = valid_utf8 s"
| "valid_json (JInt i) = True"
| "valid_json (JBool b) = True"
| "valid_json (JArr vs) = (\<forall>v \<in> set vs. valid_json v)"
| "valid_json (JObj kvs) = (\<forall>kv \<in> set kvs. valid_utf8 (fst kv) \<and> valid_json (snd kv))"

lemma clean_valid: "valid_utf8 s \<Longrightarrow> clean s = s"
proof -
  assume "valid_utf8 s"
  then have "map clean_rune (split_runes s) = map (\<lambda>u. u) (split_runes s)"
    unfolding map_eq_conv by (auto simp: clean_rune_def valid_utf8_def)
  then show ?thesis by (simp add: clean_def)
qed

lemma clean_json_valid: "valid_json v \<Longrightarrow> clean_json v = v"
proof (induction v)
  case (JArr vs)
  then show ?case by (simp add: map_idI)
next
  case (JObj kvs)
  have "(\<lambda>(k, v). (clean k, clean_json v)) kv = kv" if "kv \<in> set kvs" for kv
    using JObj that clean_valid by (cases kv) (fastforce intro: snds.intros)
  then show ?case by (simp add: map_idI)
qed (simp_all add: clean_valid)

section \<open>Characters of a text\<close>

text \<open>No control character, and none that HTML gives a meaning.\<close>

definition inert :: "char \<Rightarrow> bool" where
  "inert c \<longleftrightarrow> 0x20 \<le> byte c \<and> c \<noteq> CHR ''<'' \<and> c \<noteq> CHR ''>'' \<and> c \<noteq> CHR ''&''"

lemma hex_digit_inert: "d < 16 \<Longrightarrow> inert (hex_digit d)"
proof -
  have "inert c" if "hex_value c = Some x" for c x
    using that by (auto simp: inert_def hex_value_def Let_def split: if_splits)
  then show "d < 16 \<Longrightarrow> inert (hex_digit d)" using hex_value_digit by blast
qed

lemma hex_str_inert: "list_all inert (hex_str k n)"
  by (induction k n rule: hex_str.induct) (simp_all add: hex_digit_inert)

lemma json_rune_inert:
  assumes "length u = 1 \<or> well_formed u"
  shows "list_all inert (json_rune u)"
proof (cases "length u = 1")
  case True
  then obtain c where u: "u = [c]" by (auto simp: length_Suc_conv)
  have "list_all inert [BSL, DQT]" "list_all inert (BSL # ''ufffd'')" "list_all inert [BSL, CHR ''b'']"
    "list_all inert [BSL, CHR ''f'']" "list_all inert [BSL, CHR ''n'']" "list_all inert [BSL, CHR ''r'']"
    "list_all inert [BSL, CHR ''t'']" "inert CHR ''u''" by code_simp+
  moreover have "inert c" if "0x20 \<le> byte c" "byte c \<noteq> 0x3C" "byte c \<noteq> 0x3E" "byte c \<noteq> 0x26"
    using that by (auto simp: inert_def)
  ultimately show ?thesis by (simp add: u json_rune_def Let_def hex_str_inert)
next
  case False
  then have "well_formed u" using assms by simp
  then have "list_all inert u" using well_formed_high [of u] by (fastforce simp: list_all_iff inert_def)
  moreover have "inert BSL" "inert CHR ''u''" by code_simp+
  ultimately show ?thesis using False by (simp add: json_rune_def hex_str_inert)
qed

lemma json_string_inert: "list_all inert (json_string s)"
proof -
  have "inert DQT" by code_simp
  then show ?thesis using split_runes_cases [of _ s] json_rune_inert
    by (fastforce simp: json_string_def list_all_iff)
qed

lemma Itoa_inert: "list_all inert (Itoa i)"
proof -
  have "inert c" if "is_digit c" for c using that by (auto simp: inert_def is_digit_def)
  moreover have "inert CHR ''-''" by code_simp
  ultimately show ?thesis using nat_str_digits by (auto simp: Itoa_def list_all_iff)
qed

lemma Join_inert: "\<forall>x \<in> set xs. list_all inert x \<Longrightarrow> list_all inert sep \<Longrightarrow> list_all inert (Join xs sep)"
  by (induction xs sep rule: Join.induct) simp_all

lemma json_text_inert: "list_all inert (json_text v)"
proof -
  have c: "inert CHR '',''" "inert CHR '':''" "inert CHR ''[''" "inert CHR '']''" "inert CHR ''{''" "inert CHR ''}''"
    "list_all inert ''true''" "list_all inert ''false''" by code_simp+
  show ?thesis
    by (induction v) (use c in \<open>auto simp: json_string_inert Itoa_inert intro!: Join_inert intro: snds.intros\<close>)
qed

section \<open>Properties\<close>

text \<open>Every JSON body the service writes is one line of JSON that reads back as the value it was
  written from: a reader after RFC 8259 gets the same object, with the same numbers, lists and
  strings, bytes that are no UTF-8 replaced by U+FFFD and everything else unchanged. Whatever a
  program printed, the text holds no control character and none that HTML gives a meaning.\<close>

theorem json_text_reads_back:
  "read_json (Encode v) = Some (clean_json v) \<and> (valid_json v \<longrightarrow> clean_json v = v) \<and>
   (\<exists>t. Encode v = t @ [LF] \<and> (\<forall>c \<in> set t. 0x20 \<le> byte c \<and> c \<noteq> CHR ''<'' \<and> c \<noteq> CHR ''>'' \<and> c \<noteq> CHR ''&''))"
  using read_json_Encode clean_json_valid json_text_inert [of v]
  by (auto simp: Encode_def list_all_iff inert_def)

theorem json_text_reads_back_witness:
  "read_json (Encode (JObj [(''stdout'', JStr [CHR 0xE2, CHR 0x80, CHR 0xA8, CHR ''<'', LF])])) =
     Some (JObj [(''stdout'', JStr [CHR 0xE2, CHR 0x80, CHR 0xA8, CHR ''<'', LF])])"
proof -
  have "valid_json (JObj [(''stdout'', JStr [CHR 0xE2, CHR 0x80, CHR 0xA8, CHR ''<'', LF])])"
    by code_simp
  then show ?thesis using json_text_reads_back by metis
qed

end
