(* ===== verification/Api.thy ===== *)
theory Api
  imports Json_Text
begin

text \<open>
  \<open>internal/api/api.go\<close>: the HTTP handlers. A handler yields the answer written to the
  \<open>ResponseWriter\<close> (code, headers, body); \<open>Server_run\<close> also passes the executor's state on, and
  a panic of a handler is left to the router's recovery middleware, which is third-party code
  like the router itself. What comes from outside \<open>src/\<close> or from the machine is an argument:
  \<open>decode\<close> is \<open>json.Decoder.Decode\<close> with \<open>DisallowUnknownFields\<close> on a body limited to a number
  of bytes (\<open>Decode_request\<close> of \<open>Request_Text\<close>), \<open>stat\<close> is \<open>os.Stat\<close> (the error text of a missing file), \<open>names\<close> the order in which
  \<open>Registry.Names\<close> happens to range over its map, \<open>go_version\<close> is \<open>runtime.Version\<close>.
\<close>

section \<open>Answers\<close>

record http_response =
  hr_code :: int
  hr_headers :: "(string \<times> string) list"
  hr_body :: json

text \<open>\<open>hs\<close> are the headers set before \<open>writeJSON\<close> is called.\<close>

definition writeJSON :: "(string \<times> string) list \<Rightarrow> int \<Rightarrow> json \<Rightarrow> http_response" where
  "writeJSON hs code body =
     \<lparr>hr_code = code, hr_headers = hs @ [(''Content-Type'', ''application/json'')], hr_body = body\<rparr>"

definition writeErr :: "(string \<times> string) list \<Rightarrow> int \<Rightarrow> string \<Rightarrow> string \<Rightarrow> http_response" where
  "writeErr hs code kind msg =
     writeJSON hs code (json_map [(''error'', JStr kind), (''message'', JStr msg)])"

section \<open>POST /run\<close>

definition run_error :: "(nat \<Rightarrow> bool) \<Rightarrow> exec_error \<Rightarrow> http_response" where
  "run_error pr err =
     (case err of
        ErrUnknownLanguage \<Rightarrow> writeErr [] 400 ''unknown_language'' (err_text pr err)
      | ErrSourceTooLarge \<Rightarrow> writeErr [] 400 ''source_too_large'' (err_text pr err)
      | ErrTooManyTests \<Rightarrow> writeErr [] 400 ''too_many_tests'' (err_text pr err)
      | ErrDisallowedFlag _ \<Rightarrow> writeErr [] 400 ''disallowed_flag'' (err_text pr err)
      | ErrOverrideTooBig _ \<Rightarrow> writeErr [] 400 ''override_too_big'' (err_text pr err)
      | ErrOverloaded \<Rightarrow> writeErr [(''Retry-After'', ''1'')] 429 ''overloaded'' (err_text pr err)
      | _ \<Rightarrow> writeErr [] 500 ''internal_error'' (err_text pr err))"

definition body_limit :: "config \<Rightarrow> int" where
  "body_limit cfg = wrap64 (cf_MaxSourceBytes cfg * 4)"

text \<open>\<open>rctx\<close>: the timeouts already on the request's context.\<close>

definition Server_run ::
  "os_env \<Rightarrow> (nat \<Rightarrow> bool) \<Rightarrow> (int \<Rightarrow> string \<Rightarrow> string + request) \<Rightarrow> config \<Rightarrow> registry \<Rightarrow>
   int list \<Rightarrow> string \<Rightarrow> exec_state \<Rightarrow> http_response go \<times> exec_state" where
  "Server_run env pr decode cfg reg rctx body st =
     (case decode (body_limit cfg) body of
        Inl e \<Rightarrow> (Ret (writeErr [] 400 ''bad_request'' e), st)
      | Inr req \<Rightarrow>
          if rq_Language req = [] then (Ret (writeErr [] 400 ''bad_request'' ''language required''), st)
          else if rq_Source req = [] then (Ret (writeErr [] 400 ''bad_request'' ''source required''), st)
          else case Run env cfg reg (cf_RequestTimeout cfg # rctx) req st of
            (Panic p, st') \<Rightarrow> (Panic p, st')
          | (Ret (resp, Some err), st') \<Rightarrow> (Ret (run_error pr err), st')
          | (Ret (resp, None), st') \<Rightarrow> (Ret (writeJSON [] 200 (response_json resp)), st'))"

section \<open>The other handlers\<close>

definition Server_metrics :: "config \<Rightarrow> exec_state \<Rightarrow> http_response go" where
  "Server_metrics cfg st =
     go_bind (Executor_Stats cfg st) (\<lambda>s. Ret (writeJSON [] 200 (snapshot_json s)))"

definition Server_healthz :: http_response where
  "Server_healthz = writeJSON [] 200 (json_map [(''status'', JStr ''ok'')])"

text \<open>The loop over the languages: the binary to look for is the compiler where there is a build.\<close>

definition probe_of :: "language option \<Rightarrow> string go" where
  "probe_of l =
     (case (case l of None \<Rightarrow> None | Some lang \<Rightarrow> l_Run lang) of
        None \<Rightarrow> Panic NilDereference
      | Some run \<Rightarrow> Ret (case l of
            None \<Rightarrow> ph_Command run
          | Some lang \<Rightarrow> (case l_Build lang of None \<Rightarrow> ph_Command run | Some b \<Rightarrow> ph_Command b)))"

fun probe_languages ::
  "(string \<Rightarrow> string option) \<Rightarrow> registry \<Rightarrow> string list \<Rightarrow> (bool \<times> (string \<times> json) list) go" where
  "probe_languages stat reg [] = Ret (True, [])"
| "probe_languages stat reg (name # names) =
     go_bind (probe_of (Get reg name)) (\<lambda>probe.
       go_bind (probe_languages stat reg names) (\<lambda>(healthy, diag).
         Ret (if stat probe \<noteq> None then (False, (name, JStr (''missing: '' @ probe)) # diag)
              else (healthy, (name, JStr ''ok'') # diag))))"

definition Server_readyz ::
  "(string \<Rightarrow> string option) \<Rightarrow> config \<Rightarrow> registry \<Rightarrow> string list \<Rightarrow> http_response go" where
  "Server_readyz stat cfg reg names =
     (let (nsjail, healthy) = (case stat (cf_NsjailPath cfg) of
            Some e \<Rightarrow> (''missing: '' @ e, False) | None \<Rightarrow> (''ok'', True))
      in go_bind (probe_languages stat reg names) (\<lambda>(langs_ok, langDiag).
           Ret (writeJSON [] (if healthy \<and> langs_ok then 200 else 503)
             (json_map [(''nsjail'', JStr nsjail), (''languages'', json_map langDiag)]))))"

definition Server_info :: "string \<Rightarrow> config \<Rightarrow> string list \<Rightarrow> http_response" where
  "Server_info go_version cfg names =
     writeJSON [] 200 (json_map
       [(''version'', JStr ''0.1.0-mvp''), (''go'', JStr go_version),
        (''nsjail_path'', JStr (cf_NsjailPath cfg)),
        (''languages'', JArr (map JStr names)),
        (''max_concurrency'', JInt (cf_MaxConcurrency cfg)),
        (''limits'', json_map
          [(''max_source_bytes'', JInt (cf_MaxSourceBytes cfg)),
           (''max_output_bytes'', JInt (cf_MaxOutputBytes cfg)),
           (''max_test_cases'', JInt (cf_MaxTestCases cfg))])])"

section \<open>Routes\<close>

datatype handler = H_healthz | H_readyz | H_info | H_metrics | H_run

definition routes :: "((string \<times> string) \<times> handler) list" where
  "routes = [((''GET'', ''/healthz''), H_healthz), ((''GET'', ''/readyz''), H_readyz),
     ((''GET'', ''/info''), H_info), ((''GET'', ''/metrics''), H_metrics),
     ((''POST'', ''/run''), H_run)]"

section \<open>The bytes of an answer and the access log\<close>

text \<open>The body as it goes over the wire: \<open>writeJSON\<close> encodes into the \<open>ResponseWriter\<close>.\<close>

definition body_text :: "http_response \<Rightarrow> string" where
  "body_text r = Encode (hr_body r)"

record http_request =
  hq_Method :: string
  hq_Path :: string
  hq_RemoteAddr :: string

record access_line =
  al_req_id :: string
  al_method :: string
  al_path :: string
  al_status :: int
  al_bytes_out :: int
  al_duration_ms :: int
  al_remote :: string

text \<open>
  \<open>jsonAccessLog\<close>: the handler is called, then one line is logged. \<open>wrapped\<close> stands for chi's
  response writer (status and bytes written), \<open>reqID\<close> for the identifier its middleware gave the
  request. The line is not written by a deferred call: a handler that panics leaves none.
\<close>

definition jsonAccessLog ::
  "(http_response \<Rightarrow> int \<times> int) \<Rightarrow> string \<Rightarrow> int \<Rightarrow> http_request \<Rightarrow> http_response go \<Rightarrow> access_line list" where
  "jsonAccessLog wrapped reqID elapsed rq answer =
     (case answer of
        Panic p \<Rightarrow> []
      | Ret r \<Rightarrow> [\<lparr>al_req_id = reqID, al_method = hq_Method rq, al_path = hq_Path rq,
          al_status = fst (wrapped r), al_bytes_out = snd (wrapped r),
          al_duration_ms = elapsed sdiv 1000000, al_remote = hq_RemoteAddr rq\<rparr>])"

section \<open>Laws of the handlers\<close>

lemma writeErr_simps [simp]:
  "hr_code (writeErr hs c k m) = c"
  "hr_headers (writeErr hs c k m) = hs @ [(''Content-Type'', ''application/json'')]"
  "json_field ''error'' (hr_body (writeErr hs c k m)) = Some (JStr k)"
  "json_field ''message'' (hr_body (writeErr hs c k m)) = Some (JStr m)"
  by (simp_all add: writeErr_def writeJSON_def json_field_map)

lemma writeJSON_simps [simp]:
  "hr_code (writeJSON hs c b) = c" "hr_body (writeJSON hs c b) = b"
  by (simp_all add: writeJSON_def)

text \<open>The client's errors are answered with 400, overload with 429, everything else with 500.\<close>

fun client_error :: "exec_error \<Rightarrow> bool" where
  "client_error ErrUnknownLanguage = True"
| "client_error ErrSourceTooLarge = True"
| "client_error ErrTooManyTests = True"
| "client_error (ErrDisallowedFlag _) = True"
| "client_error (ErrOverrideTooBig _) = True"
| "client_error _ = False"

lemma run_error_code:
  "hr_code (run_error pr err) = (if client_error err then 400 else if err = ErrOverloaded then 429 else 500)"
  by (cases err) (simp_all add: run_error_def)

lemma run_error_retry:
  "(''Retry-After'', ''1'') \<in> set (hr_headers (run_error pr err)) \<longleftrightarrow> err = ErrOverloaded"
  by (cases err) (simp_all add: run_error_def)

lemma run_error_message: "json_field ''message'' (hr_body (run_error pr err)) = Some (JStr (err_text pr err))"
  by (cases err) (simp_all add: run_error_def)

section \<open>Laws of readiness\<close>

definition probe_path :: "language \<Rightarrow> string" where
  "probe_path lang = (case l_Build lang of Some b \<Rightarrow> ph_Command b
     | None \<Rightarrow> (case l_Run lang of Some r \<Rightarrow> ph_Command r | None \<Rightarrow> []))"

definition probe_diag :: "(string \<Rightarrow> string option) \<Rightarrow> registry \<Rightarrow> string \<Rightarrow> string \<times> json" where
  "probe_diag stat reg n = (n, JStr (case Get reg n of None \<Rightarrow> [] | Some l \<Rightarrow>
     (if stat (probe_path l) = None then ''ok'' else ''missing: '' @ probe_path l)))"

lemma probe_of_valid:
  "reg_ok reg \<Longrightarrow> Get reg n = Some l \<Longrightarrow> probe_of (Get reg n) = Ret (probe_path l)"
  using reg.get_run [of reg n l] by (auto simp: probe_of_def probe_path_def split: option.split)

lemma probe_languages_spec:
  assumes "reg_ok reg"
  shows "\<forall>n \<in> set ns. Get reg n \<noteq> None \<Longrightarrow> probe_languages stat reg ns =
    Ret (\<forall>n \<in> set ns. \<forall>l. Get reg n = Some l \<longrightarrow> stat (probe_path l) = None, map (probe_diag stat reg) ns)"
proof (induction ns)
  case (Cons n ns)
  obtain l where l: "Get reg n = Some l" using Cons.prems by auto
  show ?case using Cons probe_of_valid [OF assms l] l by (simp add: probe_diag_def)
qed simp

lemma readyz_spec:
  assumes ok: "reg_ok reg" and ns: "is_Names reg names"
  shows "Server_readyz stat cfg reg names = Ret (writeJSON []
    (if stat (cf_NsjailPath cfg) = None \<and> (\<forall>n l. Get reg n = Some l \<longrightarrow> stat (probe_path l) = None)
     then 200 else 503)
    (json_map [(''nsjail'', JStr (case stat (cf_NsjailPath cfg) of None \<Rightarrow> ''ok'' | Some e \<Rightarrow> ''missing: '' @ e)),
       (''languages'', json_map (map (probe_diag stat reg) names))]))"
proof -
  have iff: "n \<in> set names \<longleftrightarrow> Get reg n \<noteq> None" for n
    using ns by (auto simp: is_Names_def Get_def dom_def)
  have all: "(\<forall>n \<in> set names. \<forall>l. Get reg n = Some l \<longrightarrow> P l) \<longleftrightarrow> (\<forall>n l. Get reg n = Some l \<longrightarrow> P l)" for P
    using iff by auto
  have p: "probe_languages stat reg names = Ret (\<forall>n l. Get reg n = Some l \<longrightarrow> stat (probe_path l) = None,
      map (probe_diag stat reg) names)"
    using probe_languages_spec [OF ok, of names stat] iff unfolding all by blast
  show ?thesis
    by (cases "stat (cf_NsjailPath cfg)") (simp_all add: Server_readyz_def p)
qed

text \<open>The order in which the map is ranged over does not show in the answer.\<close>

lemma readyz_order:
  assumes "reg_ok reg" "is_Names reg ns" "is_Names reg ms"
  shows "Server_readyz stat cfg reg ns = Server_readyz stat cfg reg ms"
proof -
  let ?f = "probe_diag stat reg"
  have "mset ns = mset ms" using assms(2,3) by (metis is_Names_def set_eq_iff_mset_eq_distinct)
  then have "json_map (map ?f ns) = json_map (map ?f ms)"
    using assms(2) by (intro json_map_order) (simp_all add: is_Names_def probe_diag_def comp_def)
  then show ?thesis using readyz_spec [OF assms(1)] assms(2,3) by simp
qed

section \<open>Laws of POST /run\<close>

text \<open>The answer to a request the handler lets through, as a function of what \<open>Run\<close> returned.\<close>

definition run_answer :: "(nat \<Rightarrow> bool) \<Rightarrow> response \<times> exec_error option \<Rightarrow> http_response" where
  "run_answer pr r = (case snd r of None \<Rightarrow> writeJSON [] 200 (response_json (fst r)) | Some e \<Rightarrow> run_error pr e)"

lemma Server_run_Run:
  assumes d: "decode (body_limit cfg) body = Inr req" and n: "rq_Language req \<noteq> []" "rq_Source req \<noteq> []"
    and r: "Run env cfg reg (cf_RequestTimeout cfg # rctx) req st = (Ret x, st')"
  shows "Server_run env pr decode cfg reg rctx body st = (Ret (run_answer pr x), st')"
  using assms by (cases x) (simp add: Server_run_def run_answer_def split: option.split)

text \<open>The kind named in the body of an error answer.\<close>

fun error_kind :: "exec_error \<Rightarrow> string" where
  "error_kind ErrUnknownLanguage = ''unknown_language''"
| "error_kind ErrSourceTooLarge = ''source_too_large''"
| "error_kind ErrTooManyTests = ''too_many_tests''"
| "error_kind (ErrDisallowedFlag _) = ''disallowed_flag''"
| "error_kind (ErrOverrideTooBig _) = ''override_too_big''"
| "error_kind ErrOverloaded = ''overloaded''"
| "error_kind _ = ''internal_error''"

lemma run_error_kind: "json_field ''error'' (hr_body (run_error pr err)) = Some (JStr (error_kind err))"
  by (cases err) (simp_all add: run_error_def)

lemma exec_ok_Run: "exec_ok cfg st \<Longrightarrow> Run env cfg reg ctx req st = (r, st') \<Longrightarrow> exec_ok cfg st'"
  using Run_state [of cfg st env reg ctx req] by simp

section \<open>Properties\<close>

text \<open>C20. POST /run always answers, and the code says what happened: 400 without any effect for a
  body that does not decode or lacks the language or the source; 200 with the response for a run
  that went through; 400 for the client's errors, 429 with Retry-After for overload and no other,
  500 for the rest, each with the kind of error and its message.\<close>

theorem http_run_answers:
  assumes "reg_ok reg" "exec_ok cfg st"
  shows "\<exists>r st'. Server_run env pr decode cfg reg rctx body st = (Ret r, st') \<and> exec_ok cfg st' \<and>
    (case decode (wrap64 (cf_MaxSourceBytes cfg * 4)) body of
       Inl e \<Rightarrow> hr_code r = 400 \<and> json_field ''message'' (hr_body r) = Some (JStr e) \<and> st' = st
     | Inr req \<Rightarrow>
         if rq_Language req = [] \<or> rq_Source req = [] then hr_code r = 400 \<and> st' = st
         else \<exists>resp err. Run env cfg reg (cf_RequestTimeout cfg # rctx) req st = (Ret (resp, err), st') \<and>
           (case err of
              None \<Rightarrow> hr_code r = 200 \<and> hr_body r = response_json resp
            | Some e \<Rightarrow> hr_code r = (if client_error e then 400 else if e = ErrOverloaded then 429 else 500) \<and>
                json_field ''error'' (hr_body r) = Some (JStr (error_kind e)) \<and>
                json_field ''message'' (hr_body r) = Some (JStr (err_text pr e)) \<and>
                ((''Retry-After'', ''1'') \<in> set (hr_headers r) \<longleftrightarrow> e = ErrOverloaded)))"
proof (cases "decode (body_limit cfg) body")
  case (Inl e)
  then show ?thesis using assms by (simp add: Server_run_def flip: body_limit_def)
next
  case (Inr req)
  show ?thesis
  proof (cases "rq_Language req = [] \<or> rq_Source req = []")
    case True
    then show ?thesis using Inr assms by (auto simp: Server_run_def simp flip: body_limit_def)
  next
    case False
    obtain resp err st' where r: "Run env cfg reg (cf_RequestTimeout cfg # rctx) req st = (Ret (resp, err), st')"
      using Run_Ret [OF assms, of env "cf_RequestTimeout cfg # rctx" req] by (metis prod.collapse)
    have s: "Server_run env pr decode cfg reg rctx body st = (Ret (run_answer pr (resp, err)), st')"
      using Server_run_Run [of decode cfg body req env reg rctx st "(resp, err)" st' pr] Inr r False by simp
    show ?thesis
      using Inr False r s exec_ok_Run [OF assms(2) r]
      by (cases err) (simp_all add: run_answer_def run_error_code run_error_kind run_error_message run_error_retry
          flip: body_limit_def)
  qed
qed

theorem http_run_answers_witness:
  "\<exists>r st'. Server_run sample_env (\<lambda>_. True) (\<lambda>_ _. Inl ''EOF'') sample_config sample_registry [] [] sample_state =
     (Ret r, st') \<and> hr_code r = 400"
  using http_run_answers [OF sample_reg_ok sample_exec_ok, of sample_env "\<lambda>_. True" "\<lambda>_ _. Inl ''EOF''" "[]" "[]"]
  by auto

text \<open>The readiness probe says 200 exactly when nsjail and, for every registered language, its
  compiler or interpreter are on disk, and 503 otherwise; it never panics, and its answer does
  not depend on the order in which the map of languages is ranged over.\<close>

theorem readyz_reports_missing_binaries:
  assumes "reg_ok reg" "is_Names reg ns" "is_Names reg ms"
  shows "\<exists>r. Server_readyz stat cfg reg ns = Ret r \<and> Server_readyz stat cfg reg ms = Ret r \<and>
    hr_code r = (if stat (cf_NsjailPath cfg) = None \<and>
        (\<forall>n l. Get reg n = Some l \<longrightarrow> stat (case l_Build l of Some b \<Rightarrow> ph_Command b | None \<Rightarrow> ph_Command (the (l_Run l))) = None)
      then 200 else 503)"
proof -
  have "probe_path l = (case l_Build l of Some b \<Rightarrow> ph_Command b | None \<Rightarrow> ph_Command (the (l_Run l)))"
    if "Get reg n = Some l" for n l
    using reg.get_run [OF assms(1) that] by (auto simp: probe_path_def split: option.split)
  then show ?thesis
    using readyz_spec [OF assms(1,2), of stat cfg] readyz_order [OF assms, of stat cfg] by simp
qed

theorem readyz_reports_missing_binaries_witness:
  "\<exists>r. Server_readyz (\<lambda>_. Some ''no such file'') sample_config sample_registry [''python''] = Ret r \<and> hr_code r = 503"
proof -
  have "is_Names sample_registry [''python'']" by (simp add: is_Names_def sample_registry_def)
  from readyz_reports_missing_binaries [OF sample_reg_ok this this, of "\<lambda>_. Some ''no such file''" sample_config]
  show ?thesis by auto
qed

end
