(* ===== verification/Worker.thy ===== *)
theory Worker
  imports Json
begin

text \<open>
  \<open>internal/worker/worker.go\<close> and \<open>job.go\<close>, one message at a time: the job it carries, the
  request built from it, the calls made to Redis and SQS, and the result stored. The state is
  the log of those calls and the executor's state. The record \<open>worker_env\<close> holds what is
  outside: the replies of Redis and SQS, the clock, \<open>json.Unmarshal\<close> into a job (\<open>Unmarshal_job\<close> of
  \<open>Job_Text\<close>), the result of a float to
  integer conversion that does not fit (left open by Go), \<open>strconv.IsPrint\<close> above ASCII, and
  the operating system under the executor.

  The test cases of a job are a Go map; \<open>j_TestCases\<close> lists its entries in the order in which
  the loop happens to range over them.
\<close>

section \<open>Data\<close>

record job =
  j_JobID :: string
  j_Type :: string
  j_SourceCode :: string
  j_Language :: string
  j_Stdin :: string
  j_TestCases :: "(string \<times> string) list"
  j_TimeLimitSeconds :: "rat option"
  j_MemoryLimitKb :: "int option"
  j_UserID :: string
  j_QueuedAt :: int

record message =
  ms_Body :: "string option"
  ms_ReceiptHandle :: "string option"

datatype field_value = Text string | Result json

datatype service_call =
    RedisPipeline string "string \<rightharpoonup> field_value" int \<comment> \<open>\<open>HSET\<close> key fields and \<open>EXPIRE\<close> key ttl\<close>
  | SqsDelete string string \<comment> \<open>queue and receipt handle\<close>

record worker =
  wk_region :: string
  wk_queueURL :: string
  wk_redisAddr :: string
  wk_redisPassword :: string
  wk_redisTLS :: bool
  wk_dialTimeout :: int
  wk_readTimeout :: int
  wk_writeTimeout :: int
  wk_workers :: int

record worker_env =
  we_reply :: "nat \<Rightarrow> string option"
  we_unixMilli :: "nat \<Rightarrow> int"
  we_unmarshal :: "string \<Rightarrow> string + job"
  we_conv :: "int \<Rightarrow> int"
  we_is_print :: "nat \<Rightarrow> bool"
  we_os :: os_env

record worker_state =
  ws_calls :: "service_call list"
  ws_exec :: exec_state

definition jobTTL :: int where "jobTTL = Hour"
definition sqsVisibilityS :: int where "sqsVisibilityS = 90"
definition redisKeyPrefix :: string where "redisKeyPrefix = ''job:''"

section \<open>Creation\<close>

definition worker_region :: "(string \<Rightarrow> string) \<Rightarrow> string" where
  "worker_region getenv =
     (let region = getenv ''AWS_REGION'';
          region = (if region = [] then getenv ''AWS_DEFAULT_REGION'' else region)
      in if region = [] then ''ap-south-1'' else region)"

definition Worker_New ::
  "(string \<Rightarrow> string) \<Rightarrow> (string \<Rightarrow> string option) \<Rightarrow> string \<Rightarrow> string \<Rightarrow> string \<Rightarrow> bool \<Rightarrow> int \<Rightarrow>
   string + worker" where
  "Worker_New getenv load_aws queueURL redisAddr redisPassword redisTLS workers =
     (case load_aws (worker_region getenv) of
        Some e \<Rightarrow> Inl (''aws config: '' @ e)
      | None \<Rightarrow> Inr \<lparr>wk_region = worker_region getenv, wk_queueURL = queueURL,
          wk_redisAddr = redisAddr, wk_redisPassword = redisPassword, wk_redisTLS = redisTLS,
          wk_dialTimeout = 3 * Second, wk_readTimeout = 2 * Second, wk_writeTimeout = 2 * Second,
          wk_workers = (if workers < 1 then 1 else workers)\<rparr>)"

section \<open>From a job to a request\<close>

text \<open>\<open>int(f)\<close> for a float that is an integer.\<close>

definition float_to_int :: "worker_env \<Rightarrow> int \<Rightarrow> int" where
  "float_to_int env z = (if i64 z then z else we_conv env z)"

definition plain_case :: "string \<Rightarrow> string \<Rightarrow> test_case" where
  "plain_case input expected =
     \<lparr>tc_Input = input, tc_ExpectedOutput = expected, tc_TimeLimitS = 0, tc_MemoryKB = 0\<rparr>"

definition buildRequest :: "worker_env \<Rightarrow> job \<Rightarrow> string + request" where
  "buildRequest env job =
     (if j_SourceCode job = [] then Inl ''sourceCode is empty''
      else if j_Language job = [] then Inl ''language is empty''
      else let req = \<lparr>rq_Language = j_Language job, rq_Source = j_SourceCode job,
             rq_BuildFlags = [], rq_RunFlags = [], rq_TestCases = [],
             rq_TimeLimitS = (case j_TimeLimitSeconds job of None \<Rightarrow> 0
               | Some x \<Rightarrow> float_to_int env (math_Round x)),
             rq_MemoryKB = (case j_MemoryLimitKb job of None \<Rightarrow> 0 | Some m \<Rightarrow> m)\<rparr>
        in if j_Type job = ''run'' then Inr (req\<lparr>rq_TestCases := [plain_case (j_Stdin job) []]\<rparr>)
           else if j_Type job = ''submit'' then
             Inr (req\<lparr>rq_TestCases := map (\<lambda>(input, expected). plain_case input expected) (j_TestCases job)\<rparr>)
           else Inl (''unknown job type: '' @ Quote (we_is_print env) (j_Type job)))"

section \<open>The stored result\<close>

definition entry_json :: "test_result \<Rightarrow> test_case \<Rightarrow> json" where
  "entry_json t tc = json_map
     [(''status'', JStr (status_text (tr_Status t))),
      (''stdout'', JStr (tr_Stdout t)),
      (''stderr'', JStr (tr_Stderr t)),
      (''exit_code'', JInt (tr_ExitCode t)),
      (''signal'', JStr (tr_Signal t)),
      (''duration_ms'', JInt (tr_DurationMS t)),
      (''memory_kb'', JInt (tr_MemoryKB t)),
      (''stdin'', JStr (tc_Input tc)),
      (''expectedOutput'', JStr (tc_ExpectedOutput tc))]"

text \<open>The loop over the results, from index \<open>i\<close> on: it reads the test case of the same index.\<close>

fun result_entries :: "test_case list \<Rightarrow> nat \<Rightarrow> test_result list \<Rightarrow> json list go" where
  "result_entries tcs i [] = Ret []"
| "result_entries tcs i (t # ts) =
     go_bind (slice_get tcs i) (\<lambda>tc.
       go_bind (result_entries tcs (i + 1) ts) (\<lambda>es. Ret (entry_json t tc # es)))"

definition result_build :: "build_phase \<Rightarrow> json" where
  "result_build b = json_map
     [(''status'', JStr (build_status_text (bp_Status b))),
      (''stdout'', JStr (bp_Stdout b)),
      (''stderr'', JStr (bp_Stderr b)),
      (''duration_ms'', JInt (bp_DurationMS b))]"

definition responseToMap :: "request \<Rightarrow> response \<Rightarrow> json go" where
  "responseToMap req resp =
     go_bind (result_entries (rq_TestCases req) 0 (rp_Tests resp)) (\<lambda>es.
       Ret (json_map
         ([(''status'', JStr (status_text (rp_Status resp)))]
          @ (case rp_Build resp of None \<Rightarrow> [] | Some b \<Rightarrow> [(''build'', result_build b)])
          @ (if rp_Tests resp = [] then [] else [(''tests'', JArr es)]))))"

section \<open>Redis and SQS\<close>

text \<open>One pipeline: its error is the reply to the call of that number.\<close>

definition redis_fields :: "string \<Rightarrow> string \<Rightarrow> int \<Rightarrow> json option \<Rightarrow> string \<Rightarrow> (string \<rightharpoonup> field_value)" where
  "redis_fields jobID status now result errMsg =
     [''jobId'' \<mapsto> Text jobID, ''status'' \<mapsto> Text status, ''updatedAt'' \<mapsto> Text (Itoa now)]
     ++ (if errMsg \<noteq> [] then [''error'' \<mapsto> Text errMsg] else Map.empty)
     ++ (case result of None \<Rightarrow> Map.empty | Some m \<Rightarrow> [''result'' \<mapsto> Result m])"

definition writeRedis ::
  "worker_env \<Rightarrow> string \<Rightarrow> string \<Rightarrow> json option \<Rightarrow> string \<Rightarrow> worker_state \<Rightarrow> string option \<times> worker_state" where
  "writeRedis env jobID status result errMsg ws =
     (let n = length (ws_calls ws);
          fields = redis_fields jobID status (we_unixMilli env n) result errMsg
      in (we_reply env n,
          ws\<lparr>ws_calls := ws_calls ws @ [RedisPipeline (redisKeyPrefix @ jobID) fields jobTTL]\<rparr>))"

definition deleteMessage :: "worker \<Rightarrow> message \<Rightarrow> worker_state \<Rightarrow> worker_state" where
  "deleteMessage wk msg ws =
     (case ms_ReceiptHandle msg of
        None \<Rightarrow> ws
      | Some h \<Rightarrow> ws\<lparr>ws_calls := ws_calls ws @ [SqsDelete (wk_queueURL wk) h]\<rparr>)"

section \<open>One message\<close>

definition downgrade :: "response \<Rightarrow> response" where
  "downgrade resp = resp\<lparr>rp_Tests := map smoke_result (rp_Tests resp),
     rp_Status := (if rp_Status resp = StatusWrongOutput \<or> rp_Status resp = StatusWhitespaceMismatch
                   then StatusAccepted else rp_Status resp)\<rparr>"

definition redis_status :: "response \<Rightarrow> string" where
  "redis_status resp = (if rp_Status resp = StatusTimeExceeded then ''TIMEOUT'' else ''DONE'')"

definition shown_response :: "job \<Rightarrow> response \<Rightarrow> response" where
  "shown_response job resp = (if j_Type job = ''run'' then downgrade resp else resp)"

text \<open>Steps 3 to 5 of \<open>handleMessage\<close>: run, store, delete.\<close>

definition run_job ::
  "worker_env \<Rightarrow> config \<Rightarrow> registry \<Rightarrow> int list \<Rightarrow> worker \<Rightarrow> message \<Rightarrow> job \<Rightarrow> request \<Rightarrow>
   worker_state \<Rightarrow> panic option \<times> worker_state" where
  "run_job env cfg reg ctx wk msg job req ws =
     (case Run (we_os env) cfg reg ((sqsVisibilityS - 10) * Second # ctx) req (ws_exec ws) of
        (Panic p, st) \<Rightarrow> (Some p, ws\<lparr>ws_exec := st\<rparr>)
      | (Ret (resp, Some err), st) \<Rightarrow>
          (None, deleteMessage wk msg
            (snd (writeRedis env (j_JobID job) ''ERROR'' None (err_text (we_is_print env) err) (ws\<lparr>ws_exec := st\<rparr>))))
      | (Ret (resp, None), st) \<Rightarrow>
          (let resp = shown_response job resp
           in case responseToMap req resp of
                Panic p \<Rightarrow> (Some p, ws\<lparr>ws_exec := st\<rparr>)
              | Ret m \<Rightarrow> (None, deleteMessage wk msg
                  (snd (writeRedis env (j_JobID job) (redis_status resp) (Some m) [] (ws\<lparr>ws_exec := st\<rparr>))))))"

definition handleMessage ::
  "worker_env \<Rightarrow> config \<Rightarrow> registry \<Rightarrow> int list \<Rightarrow> worker \<Rightarrow> message \<Rightarrow> worker_state \<Rightarrow>
   panic option \<times> worker_state" where
  "handleMessage env cfg reg ctx wk msg ws =
     (case ms_Body msg of
        None \<Rightarrow> (None, deleteMessage wk msg ws)
      | Some body \<Rightarrow>
          (case we_unmarshal env body of
             Inl e \<Rightarrow> (None, deleteMessage wk msg ws)
           | Inr job \<Rightarrow>
               (let ws = snd (writeRedis env (j_JobID job) ''RUNNING'' None [] ws)
                in case buildRequest env job of
                     Inl e \<Rightarrow> (None, deleteMessage wk msg (snd (writeRedis env (j_JobID job) ''ERROR'' None e ws)))
                   | Inr req \<Rightarrow> run_job env cfg reg ctx wk msg job req ws)))"

section \<open>Laws of the request\<close>

lemma buildRequest_accepts:
  assumes "buildRequest env job = Inr req"
  shows "j_SourceCode job \<noteq> []" "j_Language job \<noteq> []"
    and "rq_Language req = j_Language job" "rq_Source req = j_SourceCode job"
    and "rq_BuildFlags req = []" "rq_RunFlags req = []"
    and "j_Type job = ''run'' \<and> rq_TestCases req = [plain_case (j_Stdin job) []] \<or>
      j_Type job = ''submit'' \<and> rq_TestCases req = map (\<lambda>(i, e). plain_case i e) (j_TestCases job)"
  using assms by (auto simp: buildRequest_def Let_def split: if_splits)

lemma buildRequest_cases_plain:
  "buildRequest env job = Inr req \<Longrightarrow> tc \<in> set (rq_TestCases req) \<Longrightarrow> tc_TimeLimitS tc = 0 \<and> tc_MemoryKB tc = 0"
  using buildRequest_accepts(7) [of env job req] by (auto simp: plain_case_def)

section \<open>Laws of the result\<close>

lemma result_entries_Ret:
  "i + length ts \<le> length tcs \<Longrightarrow> result_entries tcs i ts = Ret (map2 entry_json ts (drop i tcs))"
proof (induction ts arbitrary: i)
  case (Cons t ts)
  then have "drop i tcs = tcs ! i # drop (Suc i) tcs" by (simp add: Cons_nth_drop_Suc)
  with Cons show ?case by simp
qed simp

lemma result_entries_Panic:
  "i \<le> length tcs \<Longrightarrow> length tcs < i + length ts \<Longrightarrow> result_entries tcs i ts = Panic IndexOutOfRange"
proof (induction ts arbitrary: i)
  case (Cons t ts)
  show ?case
  proof (cases "i < length tcs")
    case True
    then show ?thesis using Cons.IH [of "Suc i"] Cons.prems by simp
  next
    case False
    then show ?thesis by simp
  qed
qed simp

text \<open>The result of a job whose test cases pair up with the results.\<close>

definition job_result :: "request \<Rightarrow> response \<Rightarrow> json" where
  "job_result req resp = json_map
     ([(''status'', JStr (status_text (rp_Status resp)))]
      @ (case rp_Build resp of None \<Rightarrow> [] | Some b \<Rightarrow> [(''build'', result_build b)])
      @ (if rp_Tests resp = [] then [] else [(''tests'', JArr (map2 entry_json (rp_Tests resp) (rq_TestCases req)))]))"

lemma responseToMap_eq:
  "responseToMap req resp =
     (if length (rp_Tests resp) \<le> length (rq_TestCases req) then Ret (job_result req resp) else Panic IndexOutOfRange)"
  using result_entries_Ret [of 0 "rp_Tests resp" "rq_TestCases req"]
    result_entries_Panic [of 0 "rq_TestCases req" "rp_Tests resp"]
  by (auto simp: responseToMap_def job_result_def)

lemma job_result_fields:
  "json_field ''status'' (job_result req resp) = Some (JStr (status_text (rp_Status resp)))"
  "json_field ''tests'' (job_result req resp) = (if rp_Tests resp = [] then None
     else Some (JArr (map2 entry_json (rp_Tests resp) (rq_TestCases req))))"
  by (simp_all add: job_result_def json_field_map split: option.split)

lemma entry_json_fields:
  "json_field ''stdin'' (entry_json t tc) = Some (JStr (tc_Input tc))"
  "json_field ''expectedOutput'' (entry_json t tc) = Some (JStr (tc_ExpectedOutput tc))"
  "json_field ''status'' (entry_json t tc) = Some (JStr (status_text (tr_Status t)))"
  by (simp_all add: entry_json_def json_field_map)

lemma redis_fields_lookup:
  "redis_fields jid st now res err ''status'' = Some (Text st)"
  "redis_fields jid st now res err ''jobId'' = Some (Text jid)"
  "redis_fields jid st now res err ''error'' = (if err = [] then None else Some (Text err))"
  "redis_fields jid st now res err ''result'' = map_option Result res"
  by (simp_all add: redis_fields_def map_add_def split: option.split)

section \<open>Laws of the downgrade\<close>

lemma smoke_status: "tr_Status (smoke_result t) =
    (if tr_Status t = StatusWrongOutput \<or> tr_Status t = StatusWhitespaceMismatch then StatusAccepted else tr_Status t)"
  by (simp add: smoke_result_def)

lemma downgrade_no_mismatch:
  "t \<in> set (rp_Tests (downgrade resp)) \<Longrightarrow>
     tr_Status t \<noteq> StatusWrongOutput \<and> tr_Status t \<noteq> StatusWhitespaceMismatch"
  by (auto simp: downgrade_def smoke_status split: if_splits)

lemma downgrade_rollup:
  assumes "length (rp_Tests resp) = 1" "rp_Status resp = rollup resp"
  shows "rp_Status (downgrade resp) = rollup (downgrade resp)"
proof -
  obtain t where "rp_Tests resp = [t]" using assms(1) by (cases "rp_Tests resp") auto
  with assms(2) show ?thesis by (auto simp: downgrade_def rollup_eq smoke_status)
qed

lemma length_shown [simp]: "length (rp_Tests (shown_response job resp)) = length (rp_Tests resp)"
  by (simp add: shown_response_def downgrade_def)

section \<open>Laws of handleMessage\<close>

definition delete_calls :: "worker \<Rightarrow> message \<Rightarrow> service_call list" where
  "delete_calls wk msg = (case ms_ReceiptHandle msg of None \<Rightarrow> [] | Some h \<Rightarrow> [SqsDelete (wk_queueURL wk) h])"

definition status_write :: "worker_env \<Rightarrow> nat \<Rightarrow> job \<Rightarrow> string \<Rightarrow> json option \<Rightarrow> string \<Rightarrow> service_call" where
  "status_write env n job st res err =
     RedisPipeline (''job:'' @ j_JobID job) (redis_fields (j_JobID job) st (we_unixMilli env n) res err) Hour"

lemma deleteMessage_calls [simp]:
  "ws_calls (deleteMessage wk msg ws) = ws_calls ws @ delete_calls wk msg"
  "ws_exec (deleteMessage wk msg ws) = ws_exec ws"
  by (simp_all add: deleteMessage_def delete_calls_def split: option.split)

lemma writeRedis_calls [simp]:
  "ws_calls (snd (writeRedis env (j_JobID job) st res err ws)) =
     ws_calls ws @ [status_write env (length (ws_calls ws)) job st res err]"
  "ws_exec (snd (writeRedis env jid st res err ws)) = ws_exec ws"
  by (simp_all add: writeRedis_def status_write_def Let_def redisKeyPrefix_def jobTTL_def)

text \<open>
  What the job comes to: the final status, the result and the error text, or \<open>None\<close> when the
  goroutine panics. \<open>job_run\<close> is the executor's part.
\<close>

definition job_run :: "worker_env \<Rightarrow> config \<Rightarrow> registry \<Rightarrow> int list \<Rightarrow> request \<Rightarrow> exec_state \<Rightarrow>
    (response \<times> exec_error option) go" where
  "job_run env cfg reg ctx req st = fst (Run (we_os env) cfg reg (80 * Second # ctx) req st)"

definition job_answer :: "worker_env \<Rightarrow> config \<Rightarrow> registry \<Rightarrow> int list \<Rightarrow> job \<Rightarrow> exec_state \<Rightarrow>
    (string \<times> json option \<times> string) option" where
  "job_answer env cfg reg ctx job st =
     (case buildRequest env job of
        Inl e \<Rightarrow> Some (''ERROR'', None, e)
      | Inr req \<Rightarrow> (case job_run env cfg reg ctx req st of
          Panic p \<Rightarrow> None
        | Ret (resp, Some err) \<Rightarrow> Some (''ERROR'', None, err_text (we_is_print env) err)
        | Ret (resp, None) \<Rightarrow>
            if length (rp_Tests resp) \<le> length (rq_TestCases req)
            then Some (redis_status (shown_response job resp), Some (job_result req (shown_response job resp)), [])
            else None))"

lemma job_answer_refused:
  "buildRequest env job = Inl e \<Longrightarrow> job_answer env cfg reg ctx job st = Some (''ERROR'', None, e)"
  by (simp add: job_answer_def)

text \<open>The calls of one message, panic or not.\<close>

definition message_calls :: "worker_env \<Rightarrow> config \<Rightarrow> registry \<Rightarrow> int list \<Rightarrow> worker \<Rightarrow> message \<Rightarrow>
    nat \<Rightarrow> exec_state \<Rightarrow> service_call list" where
  "message_calls env cfg reg ctx wk msg n st =
     (case ms_Body msg of None \<Rightarrow> delete_calls wk msg
      | Some body \<Rightarrow> (case we_unmarshal env body of Inl e \<Rightarrow> delete_calls wk msg
        | Inr job \<Rightarrow> status_write env n job ''RUNNING'' None [] #
            (case job_answer env cfg reg ctx job st of None \<Rightarrow> []
             | Some (s, res, err) \<Rightarrow> status_write env (n + 1) job s res err # delete_calls wk msg)))"

lemma run_job_calls:
  assumes "buildRequest env job = Inr req"
  shows "ws_calls (snd (run_job env cfg reg ctx wk msg job req ws)) = ws_calls ws @
      (case job_answer env cfg reg ctx job (ws_exec ws) of None \<Rightarrow> []
       | Some (s, res, err) \<Rightarrow> status_write env (length (ws_calls ws)) job s res err # delete_calls wk msg)"
    and "fst (run_job env cfg reg ctx wk msg job req ws) = None \<longleftrightarrow> job_answer env cfg reg ctx job (ws_exec ws) \<noteq> None"
proof -
  obtain r st where r: "Run (we_os env) cfg reg (80 * Second # ctx) req (ws_exec ws) = (r, st)" by fastforce
  then show "ws_calls (snd (run_job env cfg reg ctx wk msg job req ws)) = ws_calls ws @
      (case job_answer env cfg reg ctx job (ws_exec ws) of None \<Rightarrow> []
       | Some (s, res, err) \<Rightarrow> status_write env (length (ws_calls ws)) job s res err # delete_calls wk msg)"
    and "fst (run_job env cfg reg ctx wk msg job req ws) = None \<longleftrightarrow> job_answer env cfg reg ctx job (ws_exec ws) \<noteq> None"
    using assms
    by (auto simp: run_job_def job_answer_def job_run_def sqsVisibilityS_def responseToMap_eq Let_def
        split: go.split option.split)
qed

lemma handleMessage_calls:
  "ws_calls (snd (handleMessage env cfg reg ctx wk msg ws)) =
     ws_calls ws @ message_calls env cfg reg ctx wk msg (length (ws_calls ws)) (ws_exec ws)"
  by (auto simp: handleMessage_def message_calls_def run_job_calls(1) Let_def job_answer_refused
      split: option.split sum.split)

lemma handleMessage_panics_iff:
  "fst (handleMessage env cfg reg ctx wk msg ws) \<noteq> None \<longleftrightarrow>
     (\<exists>body job. ms_Body msg = Some body \<and> we_unmarshal env body = Inr job \<and>
        job_answer env cfg reg ctx job (ws_exec ws) = None)"
  by (auto simp: handleMessage_def run_job_calls(2) Let_def job_answer_refused simp del: not_None_eq
      split: option.split sum.split)

lemma job_answer_None_iff:
  assumes "reg_ok reg" "exec_ok cfg st"
  shows "job_answer env cfg reg ctx job st = None \<longleftrightarrow>
    (\<exists>req resp. buildRequest env job = Inr req \<and> job_run env cfg reg ctx req st = Ret (resp, None) \<and>
       rq_TestCases req = [] \<and> (\<forall>b. rp_Build resp = Some b \<longrightarrow> bp_Status b = BuildOK))"
proof (cases "buildRequest env job")
  case (Inr req)
  obtain resp err where r: "job_run env cfg reg ctx req st = Ret (resp, err)" "err = None \<longrightarrow> answer_ok req resp"
    using Run_Ret [OF assms] unfolding job_run_def by blast
  show ?thesis
  proof (cases err)
    case None
    then have "answer_ok req resp" using r by simp
    then have "length (rp_Tests resp) \<le> length (rq_TestCases req) \<longleftrightarrow>
        \<not> (rq_TestCases req = [] \<and> (\<forall>b. rp_Build resp = Some b \<longrightarrow> bp_Status b = BuildOK))"
      by (auto simp: answer_ok_def effective_tests_def)
    with Inr None r show ?thesis by (simp add: job_answer_def)
  qed (use Inr r in \<open>simp add: job_answer_def\<close>)
qed (simp add: job_answer_def)

section \<open>Samples\<close>

definition sample_job :: job where
  "sample_job = \<lparr>j_JobID = ''7'', j_Type = ''submit'', j_SourceCode = ''print(42)'', j_Language = ''python'',
     j_Stdin = [], j_TestCases = [(''1'', ''42'')], j_TimeLimitSeconds = Some (2 / 5), j_MemoryLimitKb = None,
     j_UserID = [], j_QueuedAt = 0\<rparr>"

definition sample_message :: message where
  "sample_message = \<lparr>ms_Body = Some ''job'', ms_ReceiptHandle = Some ''h''\<rparr>"

definition sample_worker :: worker where
  "sample_worker = \<lparr>wk_region = ''ap-south-1'', wk_queueURL = ''q'', wk_redisAddr = ''localhost:6379'',
     wk_redisPassword = [], wk_redisTLS = False, wk_dialTimeout = 3000000000, wk_readTimeout = 2000000000,
     wk_writeTimeout = 2000000000, wk_workers = 2\<rparr>"

definition sample_worker_env :: "job \<Rightarrow> worker_env" where
  "sample_worker_env job = \<lparr>we_reply = (\<lambda>_. None), we_unixMilli = int, we_unmarshal = (\<lambda>_. Inr job),
     we_conv = (\<lambda>_. 0), we_is_print = (\<lambda>_. True), we_os = sample_env\<rparr>"

definition sample_worker_state :: worker_state where
  "sample_worker_state = \<lparr>ws_calls = [], ws_exec = sample_state\<rparr>"

section \<open>Properties\<close>

text \<open>C15. A message whose goroutine does not panic is deleted from the queue exactly once, as the
  very last call, when it has a receipt handle. Before that Redis is written nothing at all, for
  a message without a readable job, or exactly twice under the job's key: RUNNING, and then the
  final status DONE, TIMEOUT or ERROR, the error text with ERROR only, the result with the two
  others only, each with the one-hour expiry.\<close>

theorem handled_message_is_deleted_last:
  assumes "fst (handleMessage env cfg reg ctx wk msg ws) = None"
  shows "\<exists>writes. ws_calls (snd (handleMessage env cfg reg ctx wk msg ws)) = ws_calls ws @ writes @
      (case ms_ReceiptHandle msg of None \<Rightarrow> [] | Some h \<Rightarrow> [SqsDelete (wk_queueURL wk) h]) \<and>
    (writes = [] \<and> (\<forall>body job. ms_Body msg = Some body \<longrightarrow> we_unmarshal env body \<noteq> Inr job) \<or>
     (\<exists>body job f1 f2. ms_Body msg = Some body \<and> we_unmarshal env body = Inr job \<and>
        writes = [RedisPipeline (''job:'' @ j_JobID job) f1 3600000000000,
                  RedisPipeline (''job:'' @ j_JobID job) f2 3600000000000] \<and>
        f1 ''status'' = Some (Text ''RUNNING'') \<and> f1 ''result'' = None \<and> f1 ''error'' = None \<and>
        (f2 ''status'' = Some (Text ''ERROR'') \<and> f2 ''result'' = None \<or>
         (f2 ''status'' = Some (Text ''DONE'') \<or> f2 ''status'' = Some (Text ''TIMEOUT'')) \<and>
           f2 ''result'' \<noteq> None \<and> f2 ''error'' = None)))"
proof (cases "\<exists>body job. ms_Body msg = Some body \<and> we_unmarshal env body = Inr job")
  case False
  then have "message_calls env cfg reg ctx wk msg (length (ws_calls ws)) (ws_exec ws) = delete_calls wk msg"
    by (auto simp: message_calls_def split: option.split sum.split)
  then show ?thesis using False by (auto simp: handleMessage_calls delete_calls_def)
next
  case True
  then obtain body job where b: "ms_Body msg = Some body" "we_unmarshal env body = Inr job" by blast
  then obtain s res err where a: "job_answer env cfg reg ctx job (ws_exec ws) = Some (s, res, err)"
    using assms handleMessage_panics_iff [of env cfg reg ctx wk msg ws] by (metis not_None_eq prod_cases3)
  then have "s = ''ERROR'' \<and> res = None \<or> (s = ''DONE'' \<or> s = ''TIMEOUT'') \<and> res \<noteq> None \<and> err = []"
    by (auto simp: job_answer_def redis_status_def split: sum.splits go.splits option.splits if_splits)
  then show ?thesis
    using b a by (auto simp: handleMessage_calls message_calls_def status_write_def redis_fields_lookup delete_calls_def)
qed

theorem handled_message_is_deleted_last_witness:
  "last (ws_calls (snd (handleMessage (sample_worker_env (sample_job\<lparr>j_Language := []\<rparr>)) sample_config sample_registry []
     sample_worker sample_message sample_worker_state))) = SqsDelete ''q'' ''h''"
proof -
  have "fst (handleMessage (sample_worker_env (sample_job\<lparr>j_Language := []\<rparr>)) sample_config sample_registry []
     sample_worker sample_message sample_worker_state) = None"
    by (simp add: handleMessage_def sample_message_def sample_worker_env_def sample_job_def buildRequest_def Let_def)
  from handled_message_is_deleted_last [OF this] show ?thesis
    by (auto simp: sample_message_def sample_worker_def)
qed

text \<open>C17. The goroutine of a message panics - and with it the process, before the message is
  deleted - exactly when the message carries a job of type submit without test cases whose
  source and language are there, which the executor accepts and whose build (if any) passes:
  the executor then reports one test, and the result reads the test case of the same index.\<close>

theorem message_panics_exactly_on_empty_submit:
  assumes "reg_ok reg" "exec_ok cfg (ws_exec ws)"
  shows "(fst (handleMessage env cfg reg ctx wk msg ws) \<noteq> None \<longleftrightarrow>
      (\<exists>body job req resp. ms_Body msg = Some body \<and> we_unmarshal env body = Inr job \<and>
         j_Type job = ''submit'' \<and> j_TestCases job = [] \<and> buildRequest env job = Inr req \<and>
         fst (Run (we_os env) cfg reg (80 * 1000000000 # ctx) req (ws_exec ws)) = Ret (resp, None) \<and>
         (\<forall>b. rp_Build resp = Some b \<longrightarrow> bp_Status b = BuildOK))) \<and>
    (fst (handleMessage env cfg reg ctx wk msg ws) \<noteq> None \<longrightarrow>
      (\<exists>job. ws_calls (snd (handleMessage env cfg reg ctx wk msg ws)) = ws_calls ws @
        [status_write env (length (ws_calls ws)) job ''RUNNING'' None []]))"
proof -
  have "rq_TestCases req = [] \<longleftrightarrow> j_Type job = ''submit'' \<and> j_TestCases job = []"
    if "buildRequest env job = Inr req" for job req
    using buildRequest_accepts(7) [OF that] by auto
  then have "fst (handleMessage env cfg reg ctx wk msg ws) \<noteq> None \<longleftrightarrow>
      (\<exists>body job req resp. ms_Body msg = Some body \<and> we_unmarshal env body = Inr job \<and>
         j_Type job = ''submit'' \<and> j_TestCases job = [] \<and> buildRequest env job = Inr req \<and>
         fst (Run (we_os env) cfg reg (80 * 1000000000 # ctx) req (ws_exec ws)) = Ret (resp, None) \<and>
         (\<forall>b. rp_Build resp = Some b \<longrightarrow> bp_Status b = BuildOK))"
    unfolding handleMessage_panics_iff job_answer_None_iff [OF assms] job_run_def by metis
  moreover have "\<exists>job. message_calls env cfg reg ctx wk msg n (ws_exec ws) = [status_write env n job ''RUNNING'' None []]"
    if "fst (handleMessage env cfg reg ctx wk msg ws) \<noteq> None" for n
    using that unfolding handleMessage_panics_iff by (auto simp: message_calls_def)
  ultimately show ?thesis by (simp add: handleMessage_calls)
qed

definition empty_submit :: job where
  "empty_submit = sample_job\<lparr>j_TestCases := [], j_TimeLimitSeconds := None\<rparr>"

theorem message_panics_exactly_on_empty_submit_witness:
  "fst (handleMessage (sample_worker_env empty_submit) sample_config sample_registry [] sample_worker
     sample_message sample_worker_state) \<noteq> None"
proof -
  let ?env = "sample_worker_env empty_submit"
  obtain req where r: "buildRequest ?env empty_submit = Inr req"
    by (simp add: buildRequest_def empty_submit_def sample_job_def Let_def)
  then have f: "rq_Language req = ''python''" "rq_Source req = ''print(42)''" "rq_BuildFlags req = []" "rq_RunFlags req = []"
    "rq_TimeLimitS req = 0" "rq_MemoryKB req = 0" "rq_TestCases req = []"
    by (auto simp: buildRequest_def empty_submit_def sample_job_def Let_def)
  then have c: "check_request sample_config sample_registry req = Ret (Inr sample_language)"
    by (intro sample_accepted) simp_all
  obtain resp st' where run: "Run sample_env sample_config sample_registry [80 * 1000000000] req sample_state = (Ret (resp, None), st')"
    and none: "rp_Build resp = None"
    using sample_answer [OF c] by blast
  have "exec_ok sample_config (ws_exec sample_worker_state)"
    using sample_exec_ok by (simp add: sample_worker_state_def)
  from message_panics_exactly_on_empty_submit [OF sample_reg_ok this, of ?env "[]" sample_worker sample_message]
  show ?thesis using r run none
    by (auto simp: sample_message_def sample_worker_env_def sample_worker_state_def empty_submit_def sample_job_def)
qed

text \<open>In a stored result every entry pairs one test result with the test case it came from, in
  the order of the request: the k-th entry shows the status of the k-th result and the input and
  expected output of the k-th test case; it never reads outside the list when there are at
  least as many test cases as results, and panics otherwise.\<close>

theorem stored_results_pair_with_test_cases:
  "if length (rp_Tests resp) \<le> length (rq_TestCases req) then
     \<exists>m. responseToMap req resp = Ret m \<and>
       json_field ''status'' m = Some (JStr (status_text (rp_Status resp))) \<and>
       (rp_Tests resp = [] \<and> json_field ''tests'' m = None \<or>
        (\<exists>es. json_field ''tests'' m = Some (JArr es) \<and> length es = length (rp_Tests resp) \<and>
          (\<forall>k < length es.
            json_field ''status'' (es ! k) = Some (JStr (status_text (tr_Status (rp_Tests resp ! k)))) \<and>
            json_field ''stdin'' (es ! k) = Some (JStr (tc_Input (rq_TestCases req ! k))) \<and>
            json_field ''expectedOutput'' (es ! k) = Some (JStr (tc_ExpectedOutput (rq_TestCases req ! k))))))
   else responseToMap req resp = Panic IndexOutOfRange"
proof (cases "length (rp_Tests resp) \<le> length (rq_TestCases req)")
  case True
  then show ?thesis
    by (cases "rp_Tests resp = []") (auto simp: responseToMap_eq job_result_fields entry_json_fields)
qed (simp add: responseToMap_eq)

definition sample_answered :: response where
  "sample_answered = tests_only [failing_test StatusAccepted]"

definition sample_asked :: request where
  "sample_asked = \<lparr>rq_Language = ''python'', rq_Source = ''1'', rq_BuildFlags = [], rq_RunFlags = [],
     rq_TestCases = [plain_case ''in'' ''out''], rq_TimeLimitS = 0, rq_MemoryKB = 0\<rparr>"

theorem stored_results_pair_with_test_cases_witness:
  "\<exists>m es. responseToMap sample_asked sample_answered = Ret m \<and> json_field ''tests'' m = Some (JArr es) \<and>
     json_field ''stdin'' (es ! 0) = Some (JStr ''in'')"
  using stored_results_pair_with_test_cases [of sample_answered sample_asked]
  by (fastforce simp: sample_answered_def sample_asked_def tests_only_def plain_case_def)

text \<open>A job of type run never reports a mismatch: neither its status nor the status of a test
  shown is wrong output or whitespace mismatch, every other status is kept, and the status is
  still the rollup of the tests shown.\<close>

theorem run_jobs_report_no_mismatch:
  assumes "j_Type job = ''run''"
  shows "(\<forall>t \<in> set (rp_Tests (shown_response job resp)).
      tr_Status t \<noteq> StatusWrongOutput \<and> tr_Status t \<noteq> StatusWhitespaceMismatch) \<and>
    rp_Status (shown_response job resp) \<notin> {StatusWrongOutput, StatusWhitespaceMismatch} \<and>
    (rp_Status resp \<notin> {StatusWrongOutput, StatusWhitespaceMismatch} \<longrightarrow>
       rp_Status (shown_response job resp) = rp_Status resp) \<and>
    (length (rp_Tests resp) = 1 \<and> rp_Status resp = rollup resp \<longrightarrow>
       rp_Status (shown_response job resp) = rollup (shown_response job resp))"
proof -
  have "rp_Status (downgrade resp) = (if rp_Status resp \<in> {StatusWrongOutput, StatusWhitespaceMismatch}
      then StatusAccepted else rp_Status resp)"
    by (simp add: downgrade_def)
  then show ?thesis
    using assms downgrade_no_mismatch [of _ resp] downgrade_rollup [of resp] by (simp add: shown_response_def)
qed

theorem run_jobs_report_no_mismatch_witness:
  "rp_Status (shown_response (sample_job\<lparr>j_Type := ''run''\<rparr>) (tests_only [failing_test StatusWrongOutput])) \<noteq> StatusWrongOutput"
  using run_jobs_report_no_mismatch [of "sample_job\<lparr>j_Type := ''run''\<rparr>" "tests_only [failing_test StatusWrongOutput]"] by simp

text \<open>C37. The limits of a job only ever act through the check on overrides: with test cases in the
  request, every test runs under the language's own limits whatever the job asked for, and a
  time limit below half a second is no override at all.\<close>

theorem job_limits_do_not_reach_the_tests:
  assumes "buildRequest env job = Inr req" "rq_TestCases req \<noteq> []" "tc \<in> set (effective_tests req)"
  shows "sp_MemoryKB (one_spec cfg run lang d fs (tc_Input tc) (tc_TimeLimitS tc) (tc_MemoryKB tc)) = ph_MemoryKB run \<and>
    sp_WallTime (one_spec cfg run lang d fs (tc_Input tc) (tc_TimeLimitS tc) (tc_MemoryKB tc)) =
      wrap64 (ph_TimeLimitS run * 1000000000) \<and>
    (\<forall>x. j_TimeLimitSeconds job = Some x \<longrightarrow> 0 \<le> x \<longrightarrow> x < 1 / 2 \<longrightarrow> rq_TimeLimitS req = 0)"
proof -
  have "tc \<in> set (rq_TestCases req)" using assms(2,3) by (simp add: effective_tests_def)
  then have "tc_TimeLimitS tc = 0 \<and> tc_MemoryKB tc = 0" by (rule buildRequest_cases_plain [OF assms(1)])
  moreover have "rq_TimeLimitS req = 0" if "j_TimeLimitSeconds job = Some x" "0 \<le> x" "x < 1 / 2" for x
    using assms(1) that math_Round_small [OF that(2,3)]
    by (auto simp: buildRequest_def Let_def float_to_int_def i64_def split: if_splits)
  ultimately show ?thesis by (simp add: one_spec_def Let_def)
qed

theorem job_limits_do_not_reach_the_tests_witness:
  "\<exists>req. buildRequest (sample_worker_env sample_job) sample_job = Inr req \<and> rq_TimeLimitS req = 0"
proof -
  obtain req where r: "buildRequest (sample_worker_env sample_job) sample_job = Inr req"
    by (simp add: buildRequest_def sample_job_def Let_def)
  then have tc: "rq_TestCases req = [plain_case ''1'' ''42'']"
    using buildRequest_accepts(7) [OF r] by (simp add: sample_job_def)
  then have "rq_TestCases req \<noteq> []" "plain_case ''1'' ''42'' \<in> set (effective_tests req)"
    by (simp_all add: effective_tests_def)
  then have "j_TimeLimitSeconds sample_job = Some (2 / 5) \<longrightarrow> 0 \<le> (2 / 5 :: rat) \<longrightarrow> 2 / 5 < (1 / 2 :: rat) \<longrightarrow> rq_TimeLimitS req = 0"
    using job_limits_do_not_reach_the_tests [OF r] by blast
  moreover have "j_TimeLimitSeconds sample_job = Some (2 / 5)" by (simp add: sample_job_def)
  ultimately show ?thesis using r by simp
qed

text \<open>C18. A queued job does not survive an overload: when every slot of the executor is taken, a
  message with a readable job is answered in Redis with ERROR and the overload text - the one
  that tells the client to retry - and deleted from the queue, without a process started, a
  file touched or anything left that would run the job later.\<close>

theorem overload_drops_the_job:
  assumes full: "sem_capacity cfg \<le> int (ex_sem (ws_exec ws))"
    and m: "ms_Body m = Some body" "we_unmarshal env body = Inr job" "buildRequest env job = Inr req"
  shows "\<exists>f1 f2 ws'. handleMessage env cfg reg ctx wk m ws = (None, ws') \<and>
    ws_calls ws' = ws_calls ws @
      [RedisPipeline (''job:'' @ j_JobID job) f1 3600000000000, RedisPipeline (''job:'' @ j_JobID job) f2 3600000000000] @
      (case ms_ReceiptHandle m of None \<Rightarrow> [] | Some h \<Rightarrow> [SqsDelete (wk_queueURL wk) h]) \<and>
    f2 ''status'' = Some (Text ''ERROR'') \<and> f2 ''error'' = Some (Text ''server overloaded; retry later'') \<and> f2 ''result'' = None \<and>
    ex_world (ws_exec ws') = ex_world (ws_exec ws) \<and> ex_sem (ws_exec ws') = ex_sem (ws_exec ws) \<and>
    st_rejected (ex_stats (ws_exec ws')) = wrap64 (st_rejected (ex_stats (ws_exec ws)) + 1)"
proof -
  have run: "Run (we_os env) cfg reg c req (ws_exec ws) =
      (Ret (error_response, Some ErrOverloaded), (ws_exec ws)\<lparr>ex_stats := IncRejected (ex_stats (ws_exec ws))\<rparr>)" for c
    by (rule Run_overloaded [OF full])
  then have "job_answer env cfg reg ctx job (ws_exec ws) = Some (''ERROR'', None, ''server overloaded; retry later'')"
    by (simp add: job_answer_def job_run_def m(3))
  then have calls: "ws_calls (snd (handleMessage env cfg reg ctx wk m ws)) = ws_calls ws @
      status_write env (length (ws_calls ws)) job ''RUNNING'' None [] #
      status_write env (length (ws_calls ws) + 1) job ''ERROR'' None ''server overloaded; retry later'' # delete_calls wk m"
    and panic: "fst (handleMessage env cfg reg ctx wk m ws) = None"
    using handleMessage_calls handleMessage_panics_iff [of env cfg reg ctx wk m ws] m by (auto simp: message_calls_def)
  have ex: "ws_exec (snd (handleMessage env cfg reg ctx wk m ws)) = (ws_exec ws)\<lparr>ex_stats := IncRejected (ex_stats (ws_exec ws))\<rparr>"
    by (simp add: handleMessage_def m Let_def run_job_def run)
  show ?thesis
    by (rule exI [of _ "redis_fields (j_JobID job) ''RUNNING'' (we_unixMilli env (length (ws_calls ws))) None []"],
        rule exI [of _ "redis_fields (j_JobID job) ''ERROR'' (we_unixMilli env (length (ws_calls ws) + 1)) None ''server overloaded; retry later''"],
        rule exI [of _ "snd (handleMessage env cfg reg ctx wk m ws)"])
       (simp add: prod_eq_iff panic calls ex status_write_def delete_calls_def redis_fields_lookup IncRejected_def)
qed

theorem overload_drops_the_job_witness:
  "\<exists>ws'. handleMessage (sample_worker_env (sample_job\<lparr>j_TimeLimitSeconds := None\<rparr>)) sample_config sample_registry [] sample_worker
      sample_message (sample_worker_state\<lparr>ws_exec := sample_state\<lparr>ex_sem := 2\<rparr>\<rparr>) = (None, ws') \<and>
    length (ws_calls ws') = 3 \<and> last (ws_calls ws') = SqsDelete ''q'' ''h''"
proof -
  let ?job = "sample_job\<lparr>j_TimeLimitSeconds := None\<rparr>"
  have full: "sem_capacity sample_config \<le> int (ex_sem (ws_exec (sample_worker_state\<lparr>ws_exec := sample_state\<lparr>ex_sem := 2\<rparr>\<rparr>)))"
    by (simp add: sample_capacity)
  obtain req where b: "buildRequest (sample_worker_env ?job) ?job = Inr req"
    by (simp add: buildRequest_def sample_job_def Let_def)
  show ?thesis
    using overload_drops_the_job [OF full _ _ b, of sample_message "''job''" sample_registry "[]" sample_worker]
    by (auto simp: sample_message_def sample_worker_env_def sample_worker_def sample_worker_state_def)
qed

end
