(* ===== verification/Main_Startup.thy ===== *)
theory Main_Startup
  imports Api Worker
begin

text \<open>
  \<open>cmd/goboxd/main.go\<close>: what the process does before it serves, and the sweep of job
  directories a previous instance left behind. Listening, signals and logging are not
  modelled. \<open>read_root\<close> is \<open>os.ReadDir\<close> on the job root together with each entry's
  modification time (\<open>None\<close> when \<open>Info\<close> fails); the other arguments are those of the parts
  called.
\<close>

section \<open>The sweep\<close>

record root_entry =
  re_Name :: string
  re_ModTime :: "int option"

definition stale_job :: "int \<Rightarrow> root_entry \<Rightarrow> bool" where
  "stale_job cutoff e \<longleftrightarrow> HasPrefix (re_Name e) ''job-'' \<and>
     (case re_ModTime e of None \<Rightarrow> False | Some t \<Rightarrow> t < cutoff)"

fun sweep_entries :: "os_env \<Rightarrow> string \<Rightarrow> int \<Rightarrow> root_entry list \<Rightarrow> world \<Rightarrow> world" where
  "sweep_entries env jroot cutoff [] w = w"
| "sweep_entries env jroot cutoff (e # es) w =
     sweep_entries env jroot cutoff es
       (if stale_job cutoff e then RemoveAll env (filepath_Join [jroot, re_Name e]) w else w)"

definition sweepStaleJobs ::
  "os_env \<Rightarrow> (filesys \<Rightarrow> string \<Rightarrow> string + root_entry list) \<Rightarrow> string \<Rightarrow> int \<Rightarrow> world \<Rightarrow> world" where
  "sweepStaleJobs env read_root jroot maxAge w =
     (case read_root (w_fs w) jroot of
        Inl e \<Rightarrow> w
      | Inr entries \<Rightarrow> sweep_entries env jroot (os_now env (w_tick w) - maxAge) entries (tick w))"

section \<open>Startup\<close>

record service =
  sv_cfg :: config
  sv_reg :: registry
  sv_exec :: exec_state
  sv_worker :: "worker option"

datatype startup = Exit int | Crash panic | Serving service

record boot_env =
  bo_os :: os_env
  bo_getenv :: "string \<Rightarrow> string"
  bo_num_cpu :: int
  bo_read_root :: "filesys \<Rightarrow> string \<Rightarrow> string + root_entry list"
  bo_read_dir :: "string \<Rightarrow> string + dir_entry list"
  bo_read_file :: "string \<Rightarrow> string + string"
  bo_yaml :: "string \<Rightarrow> string + language"
  bo_load_aws :: "string \<Rightarrow> string option"

definition start_worker :: "boot_env \<Rightarrow> config \<Rightarrow> string + worker option" where
  "start_worker b cfg =
     (if cf_SQSQueueURL cfg \<noteq> [] then
        (case Worker_New (bo_getenv b) (bo_load_aws b) (cf_SQSQueueURL cfg) (cf_RedisAddr cfg)
                (cf_RedisPassword cfg) (cf_RedisTLS cfg) (cf_SQSWorkers cfg) of
           Inl e \<Rightarrow> Inl e | Inr wk \<Rightarrow> Inr (Some wk))
      else Inr None)"

definition main_startup :: "boot_env \<Rightarrow> world \<Rightarrow> startup" where
  "main_startup b w =
     (let cfg = Load (bo_getenv b) (bo_num_cpu b)
      in case MkdirAll (bo_os b) (cf_JobRoot cfg) 0x1ED w of
        (Some e, w) \<Rightarrow> Exit 1
      | (None, w) \<Rightarrow>
          (let w = sweepStaleJobs (bo_os b) (bo_read_root b) (cf_JobRoot cfg) Hour w
           in case LoadDir (bo_read_dir b) (bo_read_file b) (bo_yaml b) (cf_LanguagesDir cfg) New of
             (Some e, reg) \<Rightarrow> Exit 1
           | (None, reg) \<Rightarrow>
               (case New_Executor cfg w of
                  Panic p \<Rightarrow> Crash p
                | Ret st \<Rightarrow>
                    (case start_worker b cfg of
                       Inl e \<Rightarrow> Exit 1
                     | Inr wk \<Rightarrow> Serving \<lparr>sv_cfg = cfg, sv_reg = reg, sv_exec = st, sv_worker = wk\<rparr>))))"

section \<open>Laws of the sweep\<close>

definition swept :: "string \<Rightarrow> int \<Rightarrow> root_entry list \<Rightarrow> string \<Rightarrow> bool" where
  "swept jroot cutoff es q \<longleftrightarrow> (\<exists>e \<in> set es. stale_job cutoff e \<and> under (filepath_Join [jroot, re_Name e]) q)"

lemma RemoveAll_fs: "w_fs (RemoveAll env p w) q = (if under p q \<and> \<not> os_keep env (w_tick w) q then None else w_fs w q)"
  by (simp add: RemoveAll_def fs_remove_all_def)

lemma sweep_entries_spares: "\<not> swept jroot cutoff es q \<Longrightarrow> w_fs (sweep_entries env jroot cutoff es w) q = w_fs w q"
  by (induction es arbitrary: w) (auto simp: swept_def RemoveAll_fs)

lemma sweep_entries_gone: "w_fs w q = None \<Longrightarrow> w_fs (sweep_entries env jroot cutoff es w) q = None"
  by (induction es arbitrary: w) (auto simp: RemoveAll_fs)

lemma sweep_entries_removes:
  "removals_complete env \<Longrightarrow> swept jroot cutoff es q \<Longrightarrow> w_fs (sweep_entries env jroot cutoff es w) q = None"
proof (induction es arbitrary: w)
  case (Cons e es)
  show ?case
  proof (cases "stale_job cutoff e \<and> under (filepath_Join [jroot, re_Name e]) q")
    case True
    then have "w_fs (RemoveAll env (filepath_Join [jroot, re_Name e]) w) q = None"
      using Cons.prems(1) by (simp add: RemoveAll_fs removals_complete_def)
    then show ?thesis using True by (simp add: sweep_entries_gone)
  next
    case False
    then have "swept jroot cutoff es q" using Cons.prems(2) by (auto simp: swept_def)
    then show ?thesis using Cons by simp
  qed
qed (simp add: swept_def)

lemma stale_job_iff:
  "stale_job c e \<longleftrightarrow> HasPrefix (re_Name e) ''job-'' \<and> (\<exists>t. re_ModTime e = Some t \<and> t < c)"
  by (simp add: stale_job_def split: option.split)

text \<open>A swept path lies in an entry of the root whose name begins with \<open>job-\<close>.\<close>

lemma HasPrefix_job: "HasPrefix n ''job-'' \<Longrightarrow> \<exists>u. n = ''job-'' @ u"
  by (auto simp: HasPrefix_def prefix_def)

lemma job_name_plain: "HasPrefix n ''job-'' \<Longrightarrow> CHR ''/'' \<notin> set n \<Longrightarrow> plain n"
  by (auto dest!: HasPrefix_job simp: plain_def)

lemma swept_entry:
  assumes "swept jroot cutoff es q" "\<forall>e \<in> set es. CHR ''/'' \<notin> set (re_Name e)"
  obtains n where "HasPrefix n ''job-''" "plain n" "under (entry_of (filepath_Clean jroot) n) q"
proof -
  obtain e where e: "e \<in> set es" "stale_job cutoff e" "under (filepath_Join [jroot, re_Name e]) q"
    using assms(1) by (auto simp: swept_def)
  then have p: "HasPrefix (re_Name e) ''job-''" "plain (re_Name e)"
    using assms(2) job_name_plain [of "re_Name e"] by (auto simp: stale_job_def)
  then show thesis using that e(3) filepath_Join_plain [OF p(2), of jroot] by metis
qed

section \<open>Laws of the startup\<close>

lemma mkdir_all_exists:
  assumes "MkdirAll env p perm w = (None, w')" "q \<in> set (dir_prefixes p)"
  shows "w_fs w' q \<noteq> None"
  using assms by (auto simp: MkdirAll_def os_call_def fs_mkdir_all_def split: option.splits sum.splits if_splits)

lemma dir_prefixes_le: "q \<in> set (dir_prefixes p) \<Longrightarrow> length q \<le> length p"
  by (auto simp: dir_prefixes_def)

lemma dir_prefixes_entry:
  assumes "CHR ''/'' \<notin> set n" "d \<noteq> []"
    and q: "q \<in> set (dir_prefixes (d @ CHR ''/'' # n))" "q \<noteq> d @ CHR ''/'' # n"
  shows "q \<in> set (dir_prefixes d)"
proof -
  let ?p = "d @ CHR ''/'' # n"
  obtain i where i: "1 \<le> i" "i \<le> length ?p" "i = length ?p \<or> ?p ! i = CHR ''/''" "q = take i ?p"
    using q(1) unfolding in_dir_prefixes by blast
  then have "i \<noteq> length ?p" using q(2) by (metis order_refl take_all)
  then have "i < length ?p" "?p ! i = CHR ''/''" using i(2,3) by linarith+
  have "i \<le> length d"
  proof (rule ccontr)
    assume "\<not> i \<le> length d"
    then obtain k where "i = Suc (length d + k)" using less_imp_Suc_add [of "length d" i] by auto
    with \<open>i < length ?p\<close> \<open>?p ! i = CHR ''/''\<close> have "k < length n" "n ! k = CHR ''/''" by (simp_all add: nth_append)
    then show False using assms(1) nth_mem by metis
  qed
  then have "q = take i d" "i = length d \<or> d ! i = CHR ''/''"
    using i(4) \<open>?p ! i = CHR ''/''\<close> by (auto simp: nth_append split: if_splits)
  with i(1) \<open>i \<le> length d\<close> show ?thesis unfolding in_dir_prefixes by blast
qed

lemma sweepStaleJobs_spares:
  assumes names: "\<forall>fs es e. read_root fs jroot = Inr es \<longrightarrow> e \<in> set es \<longrightarrow> CHR ''/'' \<notin> set (re_Name e)"
    and clean: "filepath_Clean jroot = jroot" and q: "length q \<le> length jroot"
  shows "w_fs (sweepStaleJobs env read_root jroot maxAge w) q = w_fs w q"
proof (cases "read_root (w_fs w) jroot")
  case (Inr es)
  have "\<not> swept jroot c es q" for c
  proof
    assume "swept jroot c es q"
    then obtain n where n: "HasPrefix n ''job-''" "plain n" "under (entry_of (filepath_Clean jroot) n) q"
      using names Inr swept_entry [of jroot c es q] by metis
    have "length jroot < length (entry_of jroot n) \<or> jroot = ''.''"
      using plainD [OF n(2)] by (auto simp: entry_of_def)
    moreover have "length (entry_of jroot n) \<le> length q"
      using n(3) clean by (auto simp: under_def dest: prefix_length_le)
    moreover have "4 \<le> length n" using n(1) by (auto dest!: HasPrefix_job)
    ultimately show False using q by (auto simp: entry_of_def split: if_splits)
  qed
  then show ?thesis using Inr by (simp add: sweepStaleJobs_def sweep_entries_spares)
qed (simp add: sweepStaleJobs_def)

lemma Worker_New_workers: "Worker_New g l u a p t n = Inr wk \<Longrightarrow> 1 \<le> wk_workers wk \<and> wk_queueURL wk = u"
  by (auto simp: Worker_New_def split: option.splits)

lemma start_worker_Inr:
  "start_worker b cfg = Inr ow \<Longrightarrow> (ow = None \<longleftrightarrow> cf_SQSQueueURL cfg = []) \<and>
     (\<forall>wk. ow = Some wk \<longrightarrow> 1 \<le> wk_workers wk \<and> wk_queueURL wk = cf_SQSQueueURL cfg)"
  by (auto simp: start_worker_def split: if_splits sum.splits dest: Worker_New_workers)

lemma startup_Serving:
  assumes "main_startup b w = Serving sv"
  obtains w1 where "sv_cfg sv = Load (bo_getenv b) (bo_num_cpu b)"
    and "MkdirAll (bo_os b) (cf_JobRoot (sv_cfg sv)) 0x1ED w = (None, w1)"
    and "sv_exec sv = \<lparr>ex_sem = 0, ex_stats = NewStats,
      ex_world = sweepStaleJobs (bo_os b) (bo_read_root b) (cf_JobRoot (sv_cfg sv)) Hour w1\<rparr>"
    and "reg_ok (sv_reg sv)" and "0 \<le> sem_capacity (sv_cfg sv)"
    and "start_worker b (sv_cfg sv) = Inr (sv_worker sv)"
proof -
  have "reg_ok (snd (LoadDir rd rf yu dir New))" for rd rf yu dir
    by (rule reg_ok_LoadDir) (rule reg_ok_New)
  then have "LoadDir rd rf yu dir New = (e, reg) \<Longrightarrow> reg_ok reg" for rd rf yu dir e reg
    by (metis snd_conv)
  then show thesis
    using assms that
    by (auto simp: main_startup_def New_Executor_def Let_def
        split: prod.splits option.splits go.splits sum.splits if_splits)
qed

lemma startup_registry:
  "main_startup b w = Serving sv \<Longrightarrow>
     LoadDir (bo_read_dir b) (bo_read_file b) (bo_yaml b) (cf_LanguagesDir (sv_cfg sv)) New = (None, sv_reg sv)"
  by (auto simp: main_startup_def Let_def split: prod.splits option.splits go.splits sum.splits)

lemma exec_ok_New: "0 \<le> sem_capacity cfg \<Longrightarrow> exec_ok cfg \<lparr>ex_sem = 0, ex_stats = NewStats, ex_world = w\<rparr>"
  by (simp add: exec_ok_def ring_ok_NewStats) (simp add: NewStats_def i64_def)

section \<open>Properties\<close>

definition sample_boot :: boot_env where
  "sample_boot = \<lparr>bo_os = sample_env, bo_getenv = (\<lambda>_. []), bo_num_cpu = 2,
     bo_read_root = (\<lambda>_ _. Inr [\<lparr>re_Name = ''job-1'', re_ModTime = Some (- Hour)\<rparr>]),
     bo_read_dir = (\<lambda>_. Inr [\<lparr>de_Name = ''python.yaml'', de_IsDir = False\<rparr>]), bo_read_file = (\<lambda>_. Inr []),
     bo_yaml = (\<lambda>_. Inr sample_language), bo_load_aws = (\<lambda>_. None)\<rparr>"

text \<open>Startups of the sample environment that come up.\<close>

lemma sample_served_with:
  assumes c: "cf_JobRoot (Load (bo_getenv b) (bo_num_cpu b)) = ''/tmp/goboxd''"
      "0 \<le> sem_capacity (Load (bo_getenv b) (bo_num_cpu b))"
    and os: "bo_os b = sample_env" "bo_read_root b = bo_read_root sample_boot"
    and ld: "LoadDir (bo_read_dir b) (bo_read_file b) (bo_yaml b) (cf_LanguagesDir (Load (bo_getenv b) (bo_num_cpu b))) New = (None, reg)"
    and wk: "start_worker b (Load (bo_getenv b) (bo_num_cpu b)) = Inr ow"
  obtains sv where "main_startup b sample_world = Serving sv"
    "sv_cfg sv = Load (bo_getenv b) (bo_num_cpu b)" "sv_reg sv = reg" "sv_worker sv = ow"
    "\<And>q. w_fs sample_world q = None \<Longrightarrow> w_fs (ex_world (sv_exec sv)) q = None"
proof -
  have fail: "os_fail sample_env t = None" for t by (simp add: sample_env_def)
  have dp: "dir_prefixes ''/tmp/goboxd'' = [''/tmp'', ''/tmp/goboxd'']" by code_simp
  have "\<not> (\<exists>q \<in> set (dir_prefixes ''/tmp/goboxd''). is_file (w_fs sample_world q))"
    unfolding dp by (simp add: sample_world_def)
  then obtain w1 where mk: "MkdirAll sample_env ''/tmp/goboxd'' 0x1ED sample_world = (None, w1)"
    "w_fs w1 = (\<lambda>q. if w_fs sample_world q = None \<and> q \<in> set (dir_prefixes ''/tmp/goboxd'')
      then Some (DirNode 0x1ED (os_self sample_env)) else w_fs sample_world q)"
    by (simp add: MkdirAll_def os_call_def fs_mkdir_all_def fail)
  have same: "w_fs w1 = w_fs sample_world"
    unfolding mk(2) dp by (auto simp: fun_eq_iff sample_world_def)
  let ?w = "sweepStaleJobs sample_env (bo_read_root sample_boot) ''/tmp/goboxd'' Hour w1"
  let ?sv = "\<lparr>sv_cfg = Load (bo_getenv b) (bo_num_cpu b), sv_reg = reg,
    sv_exec = \<lparr>ex_sem = 0, ex_stats = NewStats, ex_world = ?w\<rparr>, sv_worker = ow\<rparr>"
  have "main_startup b sample_world = Serving ?sv"
    unfolding main_startup_def os Let_def c(1) mk(1)
    using c(2) by (simp add: ld New_Executor_def wk)
  moreover have "w_fs ?w q = None" if "w_fs sample_world q = None" for q
    using that same sweep_entries_gone by (simp add: sweepStaleJobs_def split: sum.split)
  ultimately show thesis by (intro that [of ?sv]) simp_all
qed

lemma sample_loads:
  "LoadDir (bo_read_dir sample_boot) (bo_read_file sample_boot) (bo_yaml sample_boot) dir New = (None, sample_registry)"
proof -
  have "validate sample_language = None" "is_yaml_name ''python.yaml''" by code_simp+
  then show ?thesis
    by (simp add: LoadDir_def sample_boot_def loadFile_def New_def sample_registry_def Let_def)
       (simp add: sample_language_def)
qed

definition queue_boot :: boot_env where
  "queue_boot = sample_boot\<lparr>bo_getenv := (\<lambda>k. if k = ''SQS_QUEUE_URL'' then ''q'' else [])\<rparr>"

lemma queue_served:
  obtains sv wk where "main_startup queue_boot sample_world = Serving sv" "sv_worker sv = Some wk"
proof -
  let ?g = "\<lambda>k. if k = ''SQS_QUEUE_URL'' then ''q'' else []"
  have c: "cf_JobRoot (Load ?g 2) = ''/tmp/goboxd''" "0 \<le> sem_capacity (Load ?g 2)"
    "cf_SQSQueueURL (Load ?g 2) = ''q''" by code_simp+
  have b: "bo_getenv queue_boot = ?g" "bo_num_cpu queue_boot = 2" "bo_os queue_boot = sample_env"
    "bo_read_root queue_boot = bo_read_root sample_boot" "bo_read_dir queue_boot = bo_read_dir sample_boot"
    "bo_read_file queue_boot = bo_read_file sample_boot" "bo_yaml queue_boot = bo_yaml sample_boot"
    "bo_load_aws queue_boot = (\<lambda>_. None)"
    by (simp_all add: queue_boot_def sample_boot_def)
  then obtain wk where "start_worker queue_boot (Load ?g 2) = Inr (Some wk)"
    by (auto simp: start_worker_def Worker_New_def c Let_def)
  then show thesis
    using sample_served_with [of queue_boot sample_registry "Some wk"] sample_loads c(1,2) that unfolding b by metis
qed

text \<open>C33. The sweep at startup removes exactly the stale job directories: with removals that
  succeed, a path is gone when it lies in an entry of the job root whose name begins with job-
  and whose modification time is more than the maximum age before now, and every other path is
  as it was, whether removals succeed or not.\<close>

theorem sweep_removes_exactly_stale_jobs:
  fixes env maxAge
  assumes "read_root (w_fs w) jroot = Inr es" "\<forall>e \<in> set es. CHR ''/'' \<notin> set (re_Name e)"
  defines "stale \<equiv> \<lambda>q. \<exists>e \<in> set es. HasPrefix (re_Name e) ''job-'' \<and>
      (\<exists>t. re_ModTime e = Some t \<and> t < os_now env (w_tick w) - maxAge) \<and>
      under (entry_of (filepath_Clean jroot) (re_Name e)) q"
  shows "(\<not> stale q \<longrightarrow> w_fs (sweepStaleJobs env read_root jroot maxAge w) q = w_fs w q) \<and>
    (removals_complete env \<longrightarrow> w_fs (sweepStaleJobs env read_root jroot maxAge w) q = (if stale q then None else w_fs w q))"
proof -
  let ?c = "os_now env (w_tick w) - maxAge"
  have join: "filepath_Join [jroot, re_Name e] = entry_of (filepath_Clean jroot) (re_Name e)"
    if "e \<in> set es" "HasPrefix (re_Name e) ''job-''" for e
    by (rule filepath_Join_plain) (use that assms(2) job_name_plain in blast)
  have "stale q \<longleftrightarrow> swept jroot ?c es q"
    unfolding stale_def swept_def stale_job_iff using join by metis
  moreover have "sweepStaleJobs env read_root jroot maxAge w = sweep_entries env jroot ?c es (tick w)"
    using assms(1) by (simp add: sweepStaleJobs_def)
  ultimately show ?thesis using sweep_entries_spares sweep_entries_removes by simp
qed

theorem sweep_removes_exactly_stale_jobs_witness:
  "let w = sample_world\<lparr>w_fs := (w_fs sample_world)(''/tmp/goboxd/job-1'' \<mapsto> DirNode 0x1ED (0, 0))\<rparr>;
       old = (\<lambda>_ _. Inr [\<lparr>re_Name = ''job-1'', re_ModTime = Some (- 2 * Hour)\<rparr>]);
       w' = sweepStaleJobs sample_env old ''/tmp/goboxd'' Hour w
   in w_fs w ''/tmp/goboxd/job-1'' \<noteq> None \<and> w_fs w' ''/tmp/goboxd/job-1'' = None \<and> w_fs w' ''/tmp/goboxd'' \<noteq> None"
proof -
  let ?w = "sample_world\<lparr>w_fs := (w_fs sample_world)(''/tmp/goboxd/job-1'' \<mapsto> DirNode 0x1ED (0, 0))\<rparr>"
  let ?es = "[\<lparr>re_Name = ''job-1'', re_ModTime = Some (- 2 * Hour)\<rparr>]"
  let ?old = "\<lambda>_ _. Inr ?es :: string + root_entry list"
  have c: "entry_of (filepath_Clean ''/tmp/goboxd'') ''job-1'' = ''/tmp/goboxd/job-1''" "HasPrefix ''job-1'' ''job-''" by code_simp+
  have now: "os_now sample_env t = int t" for t by (simp add: sample_env_def)
  have "w_fs (sweepStaleJobs sample_env ?old ''/tmp/goboxd'' Hour ?w) ''/tmp/goboxd/job-1'' = None"
    using sweep_removes_exactly_stale_jobs [where read_root = ?old and w = ?w and jroot = "''/tmp/goboxd''" and
        q = "''/tmp/goboxd/job-1''" and env = sample_env and maxAge = Hour and es = ?es] c sample_env_ok(2)
    by (simp add: now)
  moreover have "w_fs (sweepStaleJobs sample_env ?old ''/tmp/goboxd'' Hour ?w) ''/tmp/goboxd'' = w_fs ?w ''/tmp/goboxd''"
    using sweep_removes_exactly_stale_jobs [where read_root = ?old and w = ?w and jroot = "''/tmp/goboxd''" and
        q = "''/tmp/goboxd''" and env = sample_env and maxAge = Hour and es = ?es] c
    by (simp add: under_def)
  ultimately show ?thesis by (simp add: Let_def) (simp add: sample_world_def)
qed

text \<open>C32. A service that comes up is in order: its configuration is the environment's, every
  language of its registry is valid, its executor is idle with a semaphore of non-negative
  capacity, the queue worker runs exactly when a queue is configured and has at least one
  loop; with a negative capacity it never comes up.\<close>

theorem served_startup_is_sound:
  "(main_startup b w = Serving sv \<longrightarrow>
      sv_cfg sv = Load (bo_getenv b) (bo_num_cpu b) \<and> reg_ok (sv_reg sv) \<and>
      exec_ok (sv_cfg sv) (sv_exec sv) \<and> ex_sem (sv_exec sv) = 0 \<and>
      (sv_worker sv = None \<longleftrightarrow> bo_getenv b ''SQS_QUEUE_URL'' = []) \<and>
      (\<forall>wk. sv_worker sv = Some wk \<longrightarrow> 1 \<le> wk_workers wk \<and> wk_queueURL wk = bo_getenv b ''SQS_QUEUE_URL'')) \<and>
    (sem_capacity (Load (bo_getenv b) (bo_num_cpu b)) < 0 \<longrightarrow> (\<forall>sv. main_startup b w \<noteq> Serving sv))"
proof -
  have url: "cf_SQSQueueURL (Load g n) = g ''SQS_QUEUE_URL''" for g n by (simp add: Load_def envOr_def Let_def)
  have "sv_cfg sv = Load (bo_getenv b) (bo_num_cpu b) \<and> reg_ok (sv_reg sv) \<and>
      exec_ok (sv_cfg sv) (sv_exec sv) \<and> ex_sem (sv_exec sv) = 0 \<and>
      (sv_worker sv = None \<longleftrightarrow> bo_getenv b ''SQS_QUEUE_URL'' = []) \<and>
      (\<forall>wk. sv_worker sv = Some wk \<longrightarrow> 1 \<le> wk_workers wk \<and> wk_queueURL wk = bo_getenv b ''SQS_QUEUE_URL'') \<and>
      0 \<le> sem_capacity (Load (bo_getenv b) (bo_num_cpu b))"
    if sv: "main_startup b w = Serving sv" for sv
  proof -
    obtain w1 where s: "sv_cfg sv = Load (bo_getenv b) (bo_num_cpu b)"
      "sv_exec sv = \<lparr>ex_sem = 0, ex_stats = NewStats,
        ex_world = sweepStaleJobs (bo_os b) (bo_read_root b) (cf_JobRoot (sv_cfg sv)) Hour w1\<rparr>"
      "reg_ok (sv_reg sv)" "0 \<le> sem_capacity (sv_cfg sv)" "start_worker b (sv_cfg sv) = Inr (sv_worker sv)"
      using startup_Serving [OF sv] by blast
    have "(sv_worker sv = None \<longleftrightarrow> bo_getenv b ''SQS_QUEUE_URL'' = []) \<and>
        (\<forall>wk. sv_worker sv = Some wk \<longrightarrow> 1 \<le> wk_workers wk \<and> wk_queueURL wk = bo_getenv b ''SQS_QUEUE_URL'')"
      using start_worker_Inr [OF s(5)] unfolding s(1) url .
    then show ?thesis using s exec_ok_New [OF s(4)] by simp
  qed
  then show ?thesis by fastforce
qed

theorem served_startup_is_sound_witness:
  "(\<exists>sv wk. main_startup queue_boot sample_world = Serving sv \<and> sv_worker sv = Some wk \<and> 1 \<le> wk_workers wk \<and>
      wk_queueURL wk = ''q'' \<and> reg_ok (sv_reg sv) \<and> exec_ok (sv_cfg sv) (sv_exec sv) \<and> ex_sem (sv_exec sv) = 0) \<and>
   (\<forall>sv. main_startup (sample_boot\<lparr>bo_getenv := (\<lambda>k. if k = ''GOBOXD_QUEUE_DEPTH'' then ''-9'' else [])\<rparr>) sample_world \<noteq> Serving sv)"
proof (rule conjI)
  obtain sv wk where sv: "main_startup queue_boot sample_world = Serving sv" "sv_worker sv = Some wk"
    using queue_served by metis
  from served_startup_is_sound [of queue_boot sample_world sv] sv
  show "\<exists>sv wk. main_startup queue_boot sample_world = Serving sv \<and> sv_worker sv = Some wk \<and> 1 \<le> wk_workers wk \<and>
      wk_queueURL wk = ''q'' \<and> reg_ok (sv_reg sv) \<and> exec_ok (sv_cfg sv) (sv_exec sv) \<and> ex_sem (sv_exec sv) = 0"
    by (intro exI [of _ sv] exI [of _ wk]) (auto simp: queue_boot_def)
next
  have "sem_capacity (Load (\<lambda>k. if k = ''GOBOXD_QUEUE_DEPTH'' then ''-9'' else []) 2) < 0" by code_simp
  then show "\<forall>sv. main_startup (sample_boot\<lparr>bo_getenv := (\<lambda>k. if k = ''GOBOXD_QUEUE_DEPTH'' then ''-9'' else [])\<rparr>) sample_world \<noteq> Serving sv"
    using served_startup_is_sound [of "sample_boot\<lparr>bo_getenv := (\<lambda>k. if k = ''GOBOXD_QUEUE_DEPTH'' then ''-9'' else [])\<rparr>"]
    by (simp add: sample_boot_def)
qed

end
