(* ===== verification/Worker_Pool.thy ===== *)
theory Worker_Pool
  imports Worker Transitions
begin

text \<open>
  \<open>Worker.Start\<close> and \<open>pollLoop\<close> of \<open>internal/worker/worker.go\<close>: a number of polling
  goroutines, the goroutines they start for the messages, the cancellation of the context and
  the channel \<open>done\<close> on which \<open>Start\<close> counts the loops that have returned. A loop is at one of
  the points of \<open>loop_pc\<close>; \<open>pool_step\<close> is one step of one goroutine. What a receive call
  yields is open: an error, or a batch of at most ten messages.
\<close>

section \<open>States and steps\<close>

datatype loop_pc = Top | Receiving | BackingOff | Returning | Stopped

record pool =
  pl_loops :: "loop_pc list"
  pl_handlers :: nat
  pl_cancelled :: bool
  pl_done :: nat
  pl_awaited :: nat

definition sqsMaxMessages :: nat where "sqsMaxMessages = 10"

inductive pool_step :: "pool \<Rightarrow> pool \<Rightarrow> bool" where
  cancel: "\<not> pl_cancelled p \<Longrightarrow> pool_step p (p\<lparr>pl_cancelled := True\<rparr>)"
| top_done: "i < length (pl_loops p) \<Longrightarrow> pl_loops p ! i = Top \<Longrightarrow> pl_cancelled p \<Longrightarrow>
    pool_step p (p\<lparr>pl_loops := (pl_loops p)[i := Returning]\<rparr>)"
| top_receive: "i < length (pl_loops p) \<Longrightarrow> pl_loops p ! i = Top \<Longrightarrow> \<not> pl_cancelled p \<Longrightarrow>
    pool_step p (p\<lparr>pl_loops := (pl_loops p)[i := Receiving]\<rparr>)"
| messages: "i < length (pl_loops p) \<Longrightarrow> pl_loops p ! i = Receiving \<Longrightarrow> k \<le> sqsMaxMessages \<Longrightarrow>
    pool_step p (p\<lparr>pl_loops := (pl_loops p)[i := Top], pl_handlers := pl_handlers p + k\<rparr>)"
| error_done: "i < length (pl_loops p) \<Longrightarrow> pl_loops p ! i = Receiving \<Longrightarrow> pl_cancelled p \<Longrightarrow>
    pool_step p (p\<lparr>pl_loops := (pl_loops p)[i := Returning]\<rparr>)"
| error_backoff: "i < length (pl_loops p) \<Longrightarrow> pl_loops p ! i = Receiving \<Longrightarrow> \<not> pl_cancelled p \<Longrightarrow>
    pool_step p (p\<lparr>pl_loops := (pl_loops p)[i := BackingOff]\<rparr>)"
| timer: "i < length (pl_loops p) \<Longrightarrow> pl_loops p ! i = BackingOff \<Longrightarrow>
    pool_step p (p\<lparr>pl_loops := (pl_loops p)[i := Top]\<rparr>)"
| backoff_done: "i < length (pl_loops p) \<Longrightarrow> pl_loops p ! i = BackingOff \<Longrightarrow> pl_cancelled p \<Longrightarrow>
    pool_step p (p\<lparr>pl_loops := (pl_loops p)[i := Returning]\<rparr>)"
| send: "i < length (pl_loops p) \<Longrightarrow> pl_loops p ! i = Returning \<Longrightarrow> pl_done p < length (pl_loops p) \<Longrightarrow>
    pool_step p (p\<lparr>pl_loops := (pl_loops p)[i := Stopped], pl_done := pl_done p + 1\<rparr>)"
| await: "0 < pl_done p \<Longrightarrow> pl_awaited p < length (pl_loops p) \<Longrightarrow>
    pool_step p (p\<lparr>pl_done := pl_done p - 1, pl_awaited := pl_awaited p + 1\<rparr>)"
| handled: "0 < pl_handlers p \<Longrightarrow> pool_step p (p\<lparr>pl_handlers := pl_handlers p - 1\<rparr>)"

inductive_simps pool_step_iff: "pool_step p q"

text \<open>\<open>Start\<close> launches the loops of a worker; it has returned when it has counted them all.\<close>

definition pool_init :: "worker \<Rightarrow> pool \<Rightarrow> bool" where
  "pool_init wk p \<longleftrightarrow> p = \<lparr>pl_loops = replicate (nat (wk_workers wk)) Top, pl_handlers = 0,
     pl_cancelled = False, pl_done = 0, pl_awaited = 0\<rparr>"

definition start_returned :: "pool \<Rightarrow> bool" where
  "start_returned p \<longleftrightarrow> pl_awaited p = length (pl_loops p)"

section \<open>The invariant\<close>

definition has_returned :: "loop_pc \<Rightarrow> bool" where
  "has_returned c \<longleftrightarrow> c = Stopped"

definition leaving :: "loop_pc \<Rightarrow> bool" where
  "leaving c \<longleftrightarrow> c = Returning \<or> c = Stopped"

definition pool_ok :: "nat \<Rightarrow> pool \<Rightarrow> bool" where
  "pool_ok n p \<longleftrightarrow> length (pl_loops p) = n \<and>
     pl_done p + pl_awaited p = count_if has_returned (pl_loops p) \<and>
     (0 < count_if leaving (pl_loops p) \<longrightarrow> pl_cancelled p)"

lemma pool_ok_init: "pool_init wk p \<Longrightarrow> pool_ok (nat (wk_workers wk)) p"
  by (simp add: pool_init_def pool_ok_def has_returned_def leaving_def)

lemma pool_ok_update:
  assumes "pool_ok n p" "i < length (pl_loops p)" "\<not> leaving (pl_loops p ! i)"
    and "leaving c \<longrightarrow> pl_cancelled p" "c \<noteq> Stopped"
  shows "pool_ok n (p\<lparr>pl_loops := (pl_loops p)[i := c]\<rparr>)"
proof -
  have "count_if has_returned ((pl_loops p)[i := c]) = count_if has_returned (pl_loops p)"
    using count_if_update [OF assms(2), of has_returned c] assms(3,5)
    by (simp add: has_returned_def leaving_def)
  moreover have "count_if leaving ((pl_loops p)[i := c]) \<le> count_if leaving (pl_loops p) + (if leaving c then 1 else 0)"
    using count_if_update [OF assms(2), of leaving c] by simp
  ultimately show ?thesis using assms(1,4) by (auto simp: pool_ok_def split: if_splits)
qed

lemma pool_ok_step:
  assumes ok: "pool_ok n p" and st: "pool_step p q"
  shows "pool_ok n q"
  using st
proof cases
  case cancel
  then show ?thesis using ok by (simp add: pool_ok_def)
next
  case (messages i k)
  then show ?thesis using pool_ok_update [OF ok, of i Top] by (simp add: leaving_def) (simp add: pool_ok_def)
next
  case (send i)
  then show ?thesis
    using ok count_if_update [of i "pl_loops p" has_returned Stopped] count_if_update [of i "pl_loops p" leaving Stopped]
    by (simp add: pool_ok_def has_returned_def leaving_def)
next
  case await
  then show ?thesis using ok by (simp add: pool_ok_def)
next
  case handled
  then show ?thesis using ok by (simp add: pool_ok_def)
qed (use pool_ok_update [OF ok] in \<open>simp add: leaving_def\<close>)+

interpretation pool: transition_system "pool_init wk" pool_step "pool_ok (nat (wk_workers wk))" for wk
  by unfold_locales (fact pool_ok_init, fact pool_ok_step)

lemma count_if_all: "count_if P xs = length xs \<longleftrightarrow> (\<forall>x \<in> set xs. P x)"
  unfolding count_if_def by (metis filter_id_conv filter_True length_filter_less nat_less_le)

lemma start_returned_stopped:
  assumes ok: "pool_ok n p" and n: "0 < n" and r: "start_returned p"
  shows "pl_cancelled p \<and> (\<forall>c \<in> set (pl_loops p). c = Stopped)"
proof -
  have "count_if has_returned (pl_loops p) = length (pl_loops p)"
    using ok r count_if_le_length [of has_returned "pl_loops p"]
    by (simp add: pool_ok_def start_returned_def)
  then have all: "\<forall>c \<in> set (pl_loops p). c = Stopped" by (simp add: count_if_all has_returned_def)
  then have "pl_loops p ! 0 = Stopped" using ok n by (simp add: pool_ok_def)
  then have "0 < count_if leaving (pl_loops p)"
    using ok n by (intro count_if_pos [of 0]) (simp_all add: leaving_def pool_ok_def)
  with ok all show ?thesis by (simp add: pool_ok_def)
qed

section \<open>Shutdown\<close>

fun loop_rank :: "loop_pc \<Rightarrow> nat" where
  "loop_rank Receiving = 3"
| "loop_rank BackingOff = 3"
| "loop_rank Top = 2"
| "loop_rank Returning = 1"
| "loop_rank Stopped = 0"

definition total_rank :: "loop_pc list \<Rightarrow> nat" where
  "total_rank ls = sum_list (map loop_rank ls)"

lemma total_rank_update:
  "i < length ls \<Longrightarrow> total_rank (ls[i := c]) + loop_rank (ls ! i) = total_rank ls + loop_rank c"
  unfolding total_rank_def
proof (induction ls arbitrary: i)
  case (Cons l ls)
  then show ?case by (cases i) auto
qed simp

lemma total_rank_less:
  "i < length ls \<Longrightarrow> loop_rank c < loop_rank (ls ! i) \<Longrightarrow> total_rank (ls[i := c]) < total_rank ls"
  using total_rank_update [of i ls c] by simp

definition shutdown_order :: "(pool \<times> pool) set" where
  "shutdown_order = inv_image (less_than <*lex*> less_than <*lex*> less_than)
     (\<lambda>p. (total_rank (pl_loops p), length (pl_loops p) - pl_awaited p, pl_handlers p))"

lemma wf_shutdown: "wf shutdown_order"
  by (simp add: shutdown_order_def wf_inv_image wf_lex_prod)

text \<open>Once the context is cancelled, every step goes down in a well-founded order.\<close>

lemma shutdown_descends:
  assumes "pl_cancelled p" "pool_step p q"
  shows "pl_cancelled q \<and> (q, p) \<in> shutdown_order"
  using assms(2) by cases (use assms(1) in \<open>auto simp: shutdown_order_def total_rank_less\<close>)

text \<open>And until \<open>Start\<close> has returned and no handler runs, there is a step to take.\<close>

lemma shutdown_progress:
  assumes ok: "pool_ok n p" and c: "pl_cancelled p" and open': "\<not> start_returned p \<or> 0 < pl_handlers p"
  shows "\<exists>q. pool_step p q"
proof (cases "0 < pl_handlers p \<or> 0 < pl_done p")
  case True
  have "pl_awaited p < length (pl_loops p) \<or> start_returned p"
    using ok count_if_le_length [of has_returned "pl_loops p"] by (auto simp: pool_ok_def start_returned_def)
  then show ?thesis using True open' pool_step.await [of p] pool_step.handled [of p]
      ok count_if_le_length [of has_returned "pl_loops p"]
    by (auto simp: pool_ok_def start_returned_def)
next
  case False
  then have "count_if has_returned (pl_loops p) \<noteq> length (pl_loops p)"
    using ok open' by (auto simp: pool_ok_def start_returned_def)
  then obtain i where i: "i < length (pl_loops p)" "pl_loops p ! i \<noteq> Stopped"
    unfolding count_if_all by (auto simp: has_returned_def in_set_conv_nth)
  show ?thesis
  proof (cases "pl_loops p ! i")
    case Returning
    have "pl_done p < length (pl_loops p)" using False i by linarith
    then show ?thesis using i(1) Returning by (blast intro: pool_step.send)
  qed (use i c in \<open>blast intro: pool_step.intros\<close>)+
qed

section \<open>Start does not wait for the messages in work\<close>

text \<open>Cancelled loops can all return without a handler's doing anything; \<open>S\<close> is the step relation,
  or a part of it that keeps such steps.\<close>

lemma stop_loops:
  assumes S: "\<And>p q. pool_step p q \<Longrightarrow> pl_cancelled q = pl_cancelled p \<Longrightarrow> S p q"
    and r: "reachable init S \<lparr>pl_loops = replicate n Top, pl_handlers = h, pl_cancelled = True,
    pl_done = 0, pl_awaited = 0\<rparr>"
  shows "k \<le> n \<Longrightarrow> reachable init S \<lparr>pl_loops = replicate k Stopped @ replicate (n - k) Top,
    pl_handlers = h, pl_cancelled = True, pl_done = 0, pl_awaited = k\<rparr>"
proof (induction k)
  case (Suc k)
  let ?ls = "replicate k Stopped @ replicate (n - k) Top"
  let ?p = "\<lambda>ls d a. \<lparr>pl_loops = ls, pl_handlers = h, pl_cancelled = True, pl_done = d, pl_awaited = a\<rparr>"
  have len: "length ?ls = n" "?ls ! k = Top" using Suc.prems by (simp_all add: nth_append)
  have "n - k = Suc (n - Suc k)" using Suc.prems by simp
  then have upd: "?ls[k := Stopped] = replicate (Suc k) Stopped @ replicate (n - Suc k) Top"
    by (simp add: list_update_append replicate_app_Cons_same)
  have "S (?p ?ls 0 k) (?p (?ls[k := Returning]) 0 k)"
    by (rule S) (use pool_step.top_done [of k "?p ?ls 0 k"] len Suc.prems in simp_all)
  moreover have "S (?p (?ls[k := Returning]) 0 k) (?p (?ls[k := Stopped]) 1 k)"
    by (rule S) (use pool_step.send [of k "?p (?ls[k := Returning]) 0 k"] len Suc.prems in simp_all)
  moreover have "S (?p (?ls[k := Stopped]) 1 k) (?p (?ls[k := Stopped]) 0 (Suc k))"
    by (rule S) (use pool_step.await [of "?p (?ls[k := Stopped]) 1 k"] len Suc.prems in simp_all)
  moreover have "reachable init S (?p ?ls 0 k)" using Suc by simp
  ultimately show ?case unfolding upd by (blast intro: reachable.step)
qed (use r in simp)

lemma take_batch:
  assumes S: "\<And>p q. pool_step p q \<Longrightarrow> pl_cancelled q = pl_cancelled p \<Longrightarrow> S p q"
    and n: "0 < n"
    and r: "reachable init S \<lparr>pl_loops = replicate n Top, pl_handlers = 0, pl_cancelled = False,
      pl_done = 0, pl_awaited = 0\<rparr>"
  shows "reachable init S \<lparr>pl_loops = replicate n Top, pl_handlers = sqsMaxMessages, pl_cancelled = False,
      pl_done = 0, pl_awaited = 0\<rparr>"
proof -
  let ?p = "\<lambda>ls h. \<lparr>pl_loops = ls, pl_handlers = h, pl_cancelled = False, pl_done = 0, pl_awaited = 0\<rparr>"
  let ?ls = "replicate n Top"
  have ls: "?ls[0 := Top] = ?ls" using n list_update_id [of ?ls 0] by simp
  have "S (?p ?ls 0) (?p (?ls[0 := Receiving]) 0)"
    by (rule S) (use pool_step.top_receive [of 0 "?p ?ls 0"] n in simp_all)
  moreover have "S (?p (?ls[0 := Receiving]) 0) (?p ?ls sqsMaxMessages)"
    by (rule S) (use pool_step.messages [of 0 "?p (?ls[0 := Receiving]) 0" sqsMaxMessages] n ls in simp_all)
  ultimately show ?thesis using r by (blast intro: reachable.step)
qed

lemma start_abandons_handlers:
  assumes wk: "0 < wk_workers wk"
  shows "\<exists>p. reachable (pool_init wk) pool_step p \<and> start_returned p \<and> pl_handlers p = sqsMaxMessages"
proof -
  let ?p = "\<lambda>h c. \<lparr>pl_loops = replicate (nat (wk_workers wk)) Top, pl_handlers = h, pl_cancelled = c,
    pl_done = 0, pl_awaited = 0\<rparr>"
  have "reachable (pool_init wk) pool_step (?p 0 False)" by (rule reachable.start) (simp add: pool_init_def)
  with wk have "reachable (pool_init wk) pool_step (?p sqsMaxMessages False)" by (intro take_batch) simp_all
  moreover have "pool_step (?p sqsMaxMessages False) (?p sqsMaxMessages True)"
    using pool_step.cancel [of "?p sqsMaxMessages False"] by simp
  ultimately have "reachable (pool_init wk) pool_step (?p sqsMaxMessages True)" by (rule reachable.step)
  from stop_loops [OF _ this order_refl] show ?thesis by (auto simp: start_returned_def)
qed

lemma some_quiet_pool:
  assumes "0 < wk_workers wk"
  shows "\<exists>p. reachable (pool_init wk) pool_step p \<and> pl_cancelled p \<and> (\<nexists>q. pool_step p q)"
proof -
  let ?n = "nat (wk_workers wk)"
  let ?p = "\<lambda>c. \<lparr>pl_loops = replicate ?n Top, pl_handlers = 0, pl_cancelled = c, pl_done = 0, pl_awaited = 0\<rparr>"
  have "reachable (pool_init wk) pool_step (?p False)" by (rule reachable.start) (simp add: pool_init_def)
  moreover have "pool_step (?p False) (?p True)" using pool_step.cancel [of "?p False"] by simp
  ultimately have "reachable (pool_init wk) pool_step (?p True)" by (rule reachable.step)
  from stop_loops [OF _ this order_refl]
  have "reachable (pool_init wk) pool_step \<lparr>pl_loops = replicate ?n Stopped, pl_handlers = 0, pl_cancelled = True,
      pl_done = 0, pl_awaited = ?n\<rparr>" by simp
  moreover have "\<not> pool_step \<lparr>pl_loops = replicate ?n Stopped, pl_handlers = 0, pl_cancelled = True,
      pl_done = 0, pl_awaited = ?n\<rparr> q" for q
    by (auto simp: pool_step_iff)
  ultimately show ?thesis
    by (intro exI [of _ "\<lparr>pl_loops = replicate ?n Stopped, pl_handlers = 0, pl_cancelled = True,
      pl_done = 0, pl_awaited = ?n\<rparr>"]) simp
qed

section \<open>Properties\<close>

text \<open>Start returns only after the context was cancelled and every polling loop has returned;
  and the channel on which the loops report never fills up, so no loop is ever stuck on it.\<close>

theorem start_waits_for_every_loop:
  assumes "0 < wk_workers wk" and r: "reachable (pool_init wk) pool_step p"
  shows "(pl_awaited p = length (pl_loops p) \<longrightarrow> pl_cancelled p \<and> (\<forall>c \<in> set (pl_loops p). c = Stopped)) \<and>
    (\<forall>i < length (pl_loops p). pl_loops p ! i = Returning \<longrightarrow>
       pool_step p (p\<lparr>pl_loops := (pl_loops p)[i := Stopped], pl_done := pl_done p + 1\<rparr>))"
proof -
  have ok: "pool_ok (nat (wk_workers wk)) p" by (rule pool.inv_reachable [OF r])
  have "pl_done p < length (pl_loops p)" if "i < length (pl_loops p)" "pl_loops p ! i = Returning" for i
    using ok count_if_strict [OF that(1), of has_returned] that(2) by (simp add: pool_ok_def has_returned_def)
  then have "\<forall>i < length (pl_loops p). pl_loops p ! i = Returning \<longrightarrow>
       pool_step p (p\<lparr>pl_loops := (pl_loops p)[i := Stopped], pl_done := pl_done p + 1\<rparr>)"
    by (blast intro: pool_step.send)
  then show ?thesis using start_returned_stopped [OF ok] assms(1) by (simp add: start_returned_def)
qed

theorem start_waits_for_every_loop_witness:
  "\<exists>p. reachable (pool_init sample_worker) pool_step p \<and> pl_cancelled p"
proof -
  have n: "0 < wk_workers sample_worker" by (simp add: sample_worker_def)
  obtain p where p: "reachable (pool_init sample_worker) pool_step p" "start_returned p"
    using start_abandons_handlers [OF n] by blast
  from start_waits_for_every_loop [OF n p(1)] p show ?thesis by (auto simp: start_returned_def)
qed

text \<open>Shutdown terminates: once the context is cancelled there is no infinite sequence of
  steps, whatever the receive calls still return, and as long as Start has not returned or a
  message is being handled there is a step to take; so every run ends with Start returned and
  no message in work.\<close>

theorem shutdown_terminates:
  "wfP (\<lambda>q p. pl_cancelled p \<and> pool_step p q) \<and>
   (reachable (pool_init wk) pool_step p \<longrightarrow> pl_cancelled p \<longrightarrow> (\<nexists>q. pool_step p q) \<longrightarrow>
      pl_awaited p = length (pl_loops p) \<and> pl_handlers p = 0)"
proof -
  have "{(q, p). pl_cancelled p \<and> pool_step p q} \<subseteq> shutdown_order"
    using shutdown_descends by blast
  then have "wfP (\<lambda>q p. pl_cancelled p \<and> pool_step p q)"
    unfolding wfp_def by (rule wf_subset [OF wf_shutdown])
  moreover have "pl_awaited p = length (pl_loops p) \<and> pl_handlers p = 0"
    if "reachable (pool_init wk) pool_step p" "pl_cancelled p" "\<nexists>q. pool_step p q"
    using shutdown_progress [OF pool.inv_reachable [OF that(1)] that(2)] that(3)
    unfolding start_returned_def by blast
  ultimately show ?thesis by blast
qed

theorem shutdown_terminates_witness:
  "\<exists>p. pl_awaited p = length (pl_loops p) \<and> pl_handlers p = 0 \<and> reachable (pool_init sample_worker) pool_step p"
proof -
  obtain p where p: "reachable (pool_init sample_worker) pool_step p" "pl_cancelled p" "\<nexists>q. pool_step p q"
    using some_quiet_pool [of sample_worker] by (auto simp: sample_worker_def)
  from shutdown_terminates [of sample_worker p] p show ?thesis by blast
qed

text \<open>Start does not wait for the messages in work: it can have returned, all loops stopped,
  while a whole batch of ten messages is still being handled.\<close>

theorem start_returns_with_messages_in_work:
  assumes "0 < wk_workers wk"
  shows "\<exists>p. reachable (pool_init wk) pool_step p \<and> pl_awaited p = length (pl_loops p) \<and> pl_handlers p = 10"
  using start_abandons_handlers [OF assms] by (simp add: start_returned_def sqsMaxMessages_def)

theorem start_returns_with_messages_in_work_witness:
  "\<exists>p. reachable (pool_init sample_worker) pool_step p \<and> pl_handlers p = 10"
  using start_returns_with_messages_in_work [of sample_worker] by (auto simp: sample_worker_def)

end
