(* ===== verification/Main_Shutdown.thy ===== *)
theory Main_Shutdown
  imports Main_Startup Worker_Pool
begin

text \<open>
  \<open>cmd/goboxd/main.go\<close> from \<open>ListenAndServe\<close> to the exit: the main goroutine, the one that
  waits for a signal, the server, and the queue worker of \<open>Worker_Pool\<close> under the root
  context. \<open>process_step\<close> is one step of one of them; after the exit there is none.

  Of \<open>net/http\<close>: a connection counts in \<open>pr_conns\<close> while it has a request in work, from its
  acceptance on, and in \<open>pr_kept\<close> while it is kept alive between two requests, which the server
  stops doing once it is marked; a kept connection may begin another request or be closed at any
  time. \<open>Shutdown\<close> first marks the server (\<open>pr_shut\<close>), which ends the accepting, closes kept
  connections, and returns when none is in work or its context's ten seconds are over
  (\<open>pr_timed_out\<close>); \<open>ListenAndServe\<close> returns \<open>ErrServerClosed\<close> once the server is marked and any
  other error only before. Of the runtime: a goroutine that panics without a \<open>recover\<close>, as one
  handling a message may, ends the process with code 2.

  What comes from outside is a relation of its own, \<open>killed_step\<close>. The code asks for \<open>SIGINT\<close> and
  \<open>SIGTERM\<close> only, so the other signals keep their effect throughout: \<open>SIGKILL\<close> cannot be caught,
  \<open>SIGHUP\<close>, which stands for the other signals that end a process by default, kills it, \<open>SIGQUIT\<close> makes the runtime dump its stacks and exit with code 2, as
  a fatal error of the runtime does. Before \<open>Notify\<close>, \<open>SIGINT\<close> and \<open>SIGTERM\<close> kill it too.
\<close>

section \<open>States and steps\<close>

datatype signal_pc = Starting | Waiting | Signalled | Cancelled | ShuttingDown | Draining | Drained

datatype main_pc = BeforeListen | Listening | ListenFailed | Failing | AwaitingIdle

datatype os_signal = SIGINT | SIGTERM | SIGHUP | SIGKILL | SIGQUIT

datatype proc_exit = ExitCode int | KilledBySignal os_signal

record process =
  pr_main :: main_pc
  pr_signal :: signal_pc
  pr_conns :: nat
  pr_kept :: nat
  pr_shut :: bool
  pr_timed_out :: bool
  pr_pool :: "pool option"
  pr_workerDone :: bool
  pr_idle :: bool
  pr_exit :: "proc_exit option"

text \<open>\<open>rootCancel\<close>: the worker runs under the root context, and nothing else cancels it.\<close>

definition rootCancel :: "process \<Rightarrow> process" where
  "rootCancel p = p\<lparr>pr_pool := map_option (\<lambda>q. q\<lparr>pl_cancelled := True\<rparr>) (pr_pool p)\<rparr>"

text \<open>A step of the worker that is not the cancellation.\<close>

definition worker_step :: "pool \<Rightarrow> pool \<Rightarrow> bool" where
  "worker_step q q' \<longleftrightarrow> pool_step q q' \<and> pl_cancelled q' = pl_cancelled q"

inductive running_step :: "process \<Rightarrow> process \<Rightarrow> bool" where
  notify: "pr_signal p = Starting \<Longrightarrow> running_step p (p\<lparr>pr_signal := Waiting\<rparr>)"
| signal: "pr_signal p = Waiting \<Longrightarrow> running_step p (p\<lparr>pr_signal := Signalled\<rparr>)"
| cancel_root: "pr_signal p = Signalled \<Longrightarrow> running_step p (rootCancel (p\<lparr>pr_signal := Cancelled\<rparr>))"
| shutdown: "pr_signal p = Cancelled \<Longrightarrow> running_step p (p\<lparr>pr_signal := ShuttingDown, pr_shut := True\<rparr>)"
| shut_quiet: "pr_signal p = ShuttingDown \<Longrightarrow> pr_conns p = 0 \<Longrightarrow> running_step p (p\<lparr>pr_signal := Draining, pr_kept := 0\<rparr>)"
| shut_timeout: "pr_signal p = ShuttingDown \<Longrightarrow>
    running_step p (p\<lparr>pr_signal := Draining, pr_timed_out := True\<rparr>)"
| drained: "pr_signal p = Draining \<Longrightarrow> pr_workerDone p \<Longrightarrow>
    running_step p (p\<lparr>pr_signal := Drained, pr_idle := True\<rparr>)"
| listen: "pr_main p = BeforeListen \<Longrightarrow> \<not> pr_shut p \<Longrightarrow> running_step p (p\<lparr>pr_main := Listening\<rparr>)"
| listen_error: "pr_main p = BeforeListen \<or> pr_main p = Listening \<Longrightarrow> \<not> pr_shut p \<Longrightarrow>
    running_step p (p\<lparr>pr_main := ListenFailed\<rparr>)"
| server_closed: "pr_main p = BeforeListen \<or> pr_main p = Listening \<Longrightarrow> pr_shut p \<Longrightarrow>
    running_step p (p\<lparr>pr_main := AwaitingIdle\<rparr>)"
| accept: "pr_main p = Listening \<Longrightarrow> \<not> pr_shut p \<Longrightarrow> running_step p (p\<lparr>pr_conns := pr_conns p + 1\<rparr>)"
| answered: "0 < pr_conns p \<Longrightarrow> running_step p (p\<lparr>pr_conns := pr_conns p - 1\<rparr>)"
| answered_kept: "0 < pr_conns p \<Longrightarrow> \<not> pr_shut p \<Longrightarrow>
    running_step p (p\<lparr>pr_conns := pr_conns p - 1, pr_kept := pr_kept p + 1\<rparr>)"
| next_request: "0 < pr_kept p \<Longrightarrow>
    running_step p (p\<lparr>pr_conns := pr_conns p + 1, pr_kept := pr_kept p - 1\<rparr>)"
| kept_closed: "0 < pr_kept p \<Longrightarrow> running_step p (p\<lparr>pr_kept := pr_kept p - 1\<rparr>)"
| fail_cancel: "pr_main p = ListenFailed \<Longrightarrow> running_step p (rootCancel (p\<lparr>pr_main := Failing\<rparr>))"
| fail_exit: "pr_main p = Failing \<Longrightarrow> running_step p (p\<lparr>pr_exit := Some (ExitCode 1)\<rparr>)"
| bye: "pr_main p = AwaitingIdle \<Longrightarrow> pr_idle p \<Longrightarrow> running_step p (p\<lparr>pr_exit := Some (ExitCode 0)\<rparr>)"
| worker: "pr_pool p = Some q \<Longrightarrow> worker_step q q' \<Longrightarrow> running_step p (p\<lparr>pr_pool := Some q'\<rparr>)"
| worker_done: "pr_pool p = Some q \<Longrightarrow> start_returned q \<Longrightarrow> \<not> pr_workerDone p \<Longrightarrow>
    running_step p (p\<lparr>pr_workerDone := True\<rparr>)"
| panicked: "pr_pool p = Some q \<Longrightarrow> 0 < pl_handlers q \<Longrightarrow>
    running_step p (p\<lparr>pr_exit := Some (ExitCode 2)\<rparr>)"

inductive killed_step :: "process \<Rightarrow> process \<Rightarrow> bool" where
  early_signal: "pr_signal p = Starting \<Longrightarrow> s = SIGINT \<or> s = SIGTERM \<Longrightarrow>
    killed_step p (p\<lparr>pr_exit := Some (KilledBySignal s)\<rparr>)"
| killed: "s = SIGKILL \<or> s = SIGHUP \<Longrightarrow> killed_step p (p\<lparr>pr_exit := Some (KilledBySignal s)\<rparr>)"
| aborted: "killed_step p (p\<lparr>pr_exit := Some (ExitCode 2)\<rparr>)"

definition process_step :: "process \<Rightarrow> process \<Rightarrow> bool" where
  "process_step p p' \<longleftrightarrow> pr_exit p = None \<and> (running_step p p' \<or> killed_step p p')"

definition process_init :: "service \<Rightarrow> process \<Rightarrow> bool" where
  "process_init sv p \<longleftrightarrow>
     (case (sv_worker sv, pr_pool p) of
        (None, None) \<Rightarrow> pr_workerDone p
      | (Some wk, Some q) \<Rightarrow> pool_init wk q \<and> \<not> pr_workerDone p
      | _ \<Rightarrow> False) \<and>
     pr_main p = BeforeListen \<and> pr_signal p = Starting \<and> pr_conns p = 0 \<and> pr_kept p = 0 \<and> \<not> pr_shut p \<and>
     \<not> pr_timed_out p \<and> \<not> pr_idle p \<and> pr_exit p = None"

section \<open>The invariant\<close>

text \<open>The number of loops of the worker; what each stage of the shutdown has established.\<close>

definition loops_of :: "service \<Rightarrow> nat" where
  "loops_of sv = (case sv_worker sv of None \<Rightarrow> 0 | Some wk \<Rightarrow> nat (wk_workers wk))"

definition pool_cancelled :: "process \<Rightarrow> bool" where
  "pool_cancelled p \<longleftrightarrow> (\<forall>q. pr_pool p = Some q \<longrightarrow> pl_cancelled q)"

definition pool_returned :: "process \<Rightarrow> bool" where
  "pool_returned p \<longleftrightarrow> (\<forall>q. pr_pool p = Some q \<longrightarrow> start_returned q)"

fun stage :: "signal_pc \<Rightarrow> nat" where
  "stage Starting = 0"
| "stage Waiting = 1"
| "stage Signalled = 2"
| "stage Cancelled = 3"
| "stage ShuttingDown = 4"
| "stage Draining = 5"
| "stage Drained = 6"

definition stage_ok :: "process \<Rightarrow> bool" where
  "stage_ok p \<longleftrightarrow> (let s = stage (pr_signal p) in
     (3 \<le> s \<longrightarrow> pool_cancelled p) \<and> (pr_shut p \<longleftrightarrow> 4 \<le> s) \<and>
     (5 \<le> s \<longrightarrow> pr_conns p = 0 \<and> pr_kept p = 0 \<or> pr_timed_out p) \<and> (pr_idle p \<longleftrightarrow> 6 \<le> s) \<and>
     (pr_idle p \<longrightarrow> pr_workerDone p) \<and> (pr_main p = AwaitingIdle \<longrightarrow> pr_shut p))"

definition exit_ok :: "process \<Rightarrow> bool" where
  "exit_ok p \<longleftrightarrow> (case pr_exit p of
     None \<Rightarrow> True
   | Some (KilledBySignal s) \<Rightarrow> s \<noteq> SIGQUIT \<and> (s = SIGINT \<or> s = SIGTERM \<longrightarrow> pr_signal p = Starting)
   | Some (ExitCode c) \<Rightarrow>
       c = 0 \<and> pr_main p = AwaitingIdle \<and> pr_idle p \<or> c = 1 \<and> pr_main p = Failing \<or> c = 2)"

definition worker_ok :: "nat \<Rightarrow> process \<Rightarrow> bool" where
  "worker_ok n p \<longleftrightarrow> (\<forall>q. pr_pool p = Some q \<longrightarrow> pool_ok n q) \<and>
     (pr_workerDone p \<longrightarrow> pool_returned p) \<and> (pr_pool p = None \<longrightarrow> pr_workerDone p)"

definition process_ok :: "nat \<Rightarrow> process \<Rightarrow> bool" where
  "process_ok n p \<longleftrightarrow> stage_ok p \<and> exit_ok p \<and> worker_ok n p"

lemma process_ok_init: "process_init sv p \<Longrightarrow> process_ok (loops_of sv) p"
  by (auto simp: process_init_def process_ok_def stage_ok_def exit_ok_def worker_ok_def loops_of_def
      pool_ok_init pool_returned_def split: option.splits)

lemma rootCancel_simps [simp]:
  "pr_main (rootCancel p) = pr_main p" "pr_signal (rootCancel p) = pr_signal p"
  "pr_conns (rootCancel p) = pr_conns p" "pr_kept (rootCancel p) = pr_kept p" "pr_shut (rootCancel p) = pr_shut p"
  "pr_timed_out (rootCancel p) = pr_timed_out p" "pr_workerDone (rootCancel p) = pr_workerDone p"
  "pr_idle (rootCancel p) = pr_idle p" "pr_exit (rootCancel p) = pr_exit p"
  "pool_cancelled (rootCancel p)" "pool_returned (rootCancel p) = pool_returned p"
  "pr_pool (rootCancel p) = map_option (\<lambda>q. q\<lparr>pl_cancelled := True\<rparr>) (pr_pool p)"
  by (auto simp: rootCancel_def pool_cancelled_def pool_returned_def start_returned_def)

lemma start_returned_step: "start_returned q \<Longrightarrow> pool_step q q' \<Longrightarrow> start_returned q'"
  by (auto simp: start_returned_def elim: pool_step.cases)

lemma stage_ok_step: "stage_ok p \<Longrightarrow> running_step p p' \<Longrightarrow> stage_ok p'"
  by (erule running_step.cases)
    (simp_all add: stage_ok_def Let_def, auto simp: pool_cancelled_def worker_step_def)

lemma exit_ok_step: "exit_ok p \<Longrightarrow> pr_exit p = None \<Longrightarrow> running_step p p' \<Longrightarrow> exit_ok p'"
  by (erule running_step.cases) (auto simp: exit_ok_def)

lemma killed_step_exit: "killed_step p p' \<Longrightarrow> \<exists>e. p' = p\<lparr>pr_exit := Some e\<rparr>"
  by (auto elim: killed_step.cases)

lemma exit_ok_killed: "killed_step p p' \<Longrightarrow> exit_ok p'"
  by (erule killed_step.cases) (auto simp: exit_ok_def)

lemma pool_ok_cancel: "pool_ok n q \<Longrightarrow> pool_ok n (q\<lparr>pl_cancelled := True\<rparr>)"
  by (simp add: pool_ok_def)

lemma worker_ok_step:
  assumes ok: "worker_ok n p" and st: "running_step p p'"
  shows "worker_ok n p'"
  using st
proof cases
  case (worker q q')
  then show ?thesis
    using ok pool_ok_step [of n q q'] start_returned_step [of q q']
    by (auto simp: worker_ok_def worker_step_def pool_returned_def)
next
  case (worker_done q)
  then show ?thesis using ok by (auto simp: worker_ok_def pool_returned_def)
qed (use ok in \<open>auto simp: worker_ok_def pool_returned_def rootCancel_def pool_ok_cancel start_returned_def\<close>)

lemma process_ok_step: "process_ok n p \<Longrightarrow> process_step p p' \<Longrightarrow> process_ok n p'"
proof -
  assume ok: "process_ok n p" and st: "process_step p p'"
  then consider "running_step p p'" | "killed_step p p'" by (auto simp: process_step_def)
  then show "process_ok n p'"
  proof cases
    case 1
    then show ?thesis
      using ok st stage_ok_step exit_ok_step worker_ok_step unfolding process_ok_def process_step_def by blast
  next
    case 2
    then obtain e where "p' = p\<lparr>pr_exit := Some e\<rparr>" using killed_step_exit by blast
    then show ?thesis using ok exit_ok_killed [OF 2]
      by (simp add: process_ok_def stage_ok_def worker_ok_def pool_cancelled_def pool_returned_def)
  qed
qed

interpretation process: transition_system "process_init sv" process_step "process_ok (loops_of sv)" for sv
  by unfold_locales (fact process_ok_init, fact process_ok_step)

lemma process_worker: "reachable (process_init sv) process_step p \<Longrightarrow> pr_pool p = None \<longleftrightarrow> sv_worker sv = None"
proof (induction rule: reachable.induct)
  case (step p p')
  then consider "running_step p p'" | "killed_step p p'" by (auto simp: process_step_def)
  then show ?case
  proof cases
    case 1
    then show ?thesis using step.IH by cases simp_all
  next
    case 2
    then show ?thesis using step.IH killed_step_exit by fastforce
  qed
qed (auto simp: process_init_def split: option.splits)

section \<open>The process ends\<close>

fun main_rank :: "main_pc \<Rightarrow> nat" where
  "main_rank BeforeListen = 3"
| "main_rank Listening = 2"
| "main_rank ListenFailed = 1"
| "main_rank AwaitingIdle = 0"
| "main_rank Failing = 0"

definition process_order :: "(process \<times> process) set" where
  "process_order = inv_image (less_than <*lex*> less_than <*lex*> shutdown_order)
     (\<lambda>p. (if pr_exit p = None then 1 else 0,
          main_rank (pr_main p) + (6 - stage (pr_signal p)) + pr_conns p + 2 * pr_kept p + (if pr_workerDone p then 0 else 1),
          the (pr_pool p)))"

lemma wf_process: "wf process_order"
  by (simp add: process_order_def wf_inv_image wf_lex_prod wf_shutdown)

lemma process_descends:
  assumes ok: "process_ok n p" and shut: "pr_shut p" and st: "process_step p p'"
  shows "(p', p) \<in> process_order"
proof -
  have run: "pr_exit p = None" using st by (simp add: process_step_def)
  have s: "4 \<le> stage (pr_signal p)" "pool_cancelled p"
    using ok shut by (auto simp: process_ok_def stage_ok_def Let_def)
  consider "running_step p p'" | "killed_step p p'" using st by (auto simp: process_step_def)
  then show ?thesis
  proof cases
    case 1
    then show ?thesis
    proof cases
      case (worker q q')
      then show ?thesis using s(2) shutdown_descends [of q q']
        by (auto simp: process_order_def worker_step_def pool_cancelled_def)
    qed (use run s(1) shut in \<open>auto simp: process_order_def\<close>)
  next
    case 2
    then show ?thesis using killed_step_exit run by (fastforce simp: process_order_def)
  qed
qed

lemma worker_progress:
  assumes ok: "process_ok n p" and c: "pool_cancelled p" and w: "\<not> pr_workerDone p"
  shows "\<exists>p'. running_step p p'"
proof -
  obtain q where q: "pr_pool p = Some q" "pool_ok n q" "pl_cancelled q"
    using ok c w by (auto simp: process_ok_def worker_ok_def pool_cancelled_def)
  show ?thesis
  proof (cases "start_returned q")
    case False
    then obtain q' where "pool_step q q'" using shutdown_progress [OF q(2,3)] by blast
    then have "worker_step q q'" using shutdown_descends [OF q(3)] q(3) by (simp add: worker_step_def)
    then show ?thesis using q(1) running_step.worker by blast
  qed (use q(1) w running_step.worker_done in blast)
qed

lemma process_progress:
  assumes ok: "process_ok n p" and shut: "pr_shut p" and e: "pr_exit p = None"
  shows "\<exists>p'. process_step p p' \<and> running_step p p'"
proof -
  have st: "4 \<le> stage (pr_signal p)" "pool_cancelled p" "pr_idle p \<longleftrightarrow> 6 \<le> stage (pr_signal p)"
    using ok shut by (auto simp: process_ok_def stage_ok_def Let_def)
  have "\<exists>p'. running_step p p'"
  proof (cases "pr_main p")
    case AwaitingIdle
    show ?thesis
    proof (cases "pr_signal p")
      case Draining
      then show ?thesis using running_step.drained [of p] worker_progress [OF ok st(2)] by blast
    next
      case Drained
      then show ?thesis using AwaitingIdle st(3) running_step.bye [of p] by auto
    qed (use st(1) running_step.shut_timeout [of p] in auto)
  qed (use shut running_step.server_closed [of p] running_step.fail_cancel [of p]
      running_step.fail_exit [of p] in blast)+
  then show ?thesis using e by (auto simp: process_step_def)
qed

section \<open>A shutdown\<close>

text \<open>The steps of the worker are steps of the process.\<close>

lemma lift_worker:
  assumes "reachable (\<lambda>q'. q' = q) worker_step q'" "reachable init process_step (p\<lparr>pr_pool := Some q\<rparr>)"
    and "pr_exit p = None"
  shows "reachable init process_step (p\<lparr>pr_pool := Some q'\<rparr>)"
  using assms(1)
proof induction
  case (step s t)
  then have "running_step (p\<lparr>pr_pool := Some s\<rparr>) (p\<lparr>pr_pool := Some s, pr_pool := Some t\<rparr>)"
    by (intro running_step.worker) simp_all
  then have "process_step (p\<lparr>pr_pool := Some s\<rparr>) (p\<lparr>pr_pool := Some t\<rparr>)"
    using assms(3) by (simp add: process_step_def)
  with step.IH show ?case by (rule reachable.step)
qed (use assms(2) in simp)

text \<open>One life of a process with a worker: it takes a batch of ten messages, receives a signal,
  and exits with the batch still in work.\<close>

lemma exit_abandons_messages:
  assumes wk: "sv_worker sv = Some wk" "0 < wk_workers wk"
  shows "\<exists>p q. reachable (process_init sv) process_step p \<and> pr_exit p = Some (ExitCode 0) \<and> pr_shut p \<and>
    pr_pool p = Some q \<and> pl_handlers q = sqsMaxMessages"
proof -
  let ?n = "nat (wk_workers wk)"
  let ?q = "\<lambda>l h c a. \<lparr>pl_loops = replicate ?n l, pl_handlers = h, pl_cancelled = c, pl_done = 0, pl_awaited = a\<rparr>"
  let ?p = "\<lambda>m s sh q d i e. \<lparr>pr_main = m, pr_signal = s, pr_conns = 0, pr_kept = 0, pr_shut = sh, pr_timed_out = False,
    pr_pool = Some q, pr_workerDone = d, pr_idle = i, pr_exit = e\<rparr>"
  let ?R = "reachable (process_init sv) process_step"
  let ?q0 = "?q Top 0 False 0" and ?q1 = "?q Top sqsMaxMessages False 0"
    and ?q2 = "?q Top sqsMaxMessages True 0" and ?q3 = "?q Stopped sqsMaxMessages True ?n"
  have S: "worker_step a b" if "pool_step a b" "pl_cancelled b = pl_cancelled a" for a b
    using that by (simp add: worker_step_def)
  have batch: "reachable (\<lambda>q. q = ?q0) worker_step ?q1"
    by (rule take_batch [OF S]) (simp_all add: wk reachable.start)
  have stop: "reachable (\<lambda>q. q = ?q2) worker_step ?q3"
    using stop_loops [where init = "\<lambda>q. q = ?q2" and S = worker_step and n = ?n and h = sqsMaxMessages and k = ?n, OF S]
    by (simp add: reachable.start)
  have next': "?R p'" if "?R p" "running_step p p'" "pr_exit p = None" for p p'
    using that reachable.step by (metis process_step_def)
  have "?R (?p BeforeListen Starting False ?q0 False False None)"
    by (rule reachable.start) (simp add: process_init_def wk pool_init_def)
  then have "?R (?p BeforeListen Starting False ?q1 False False None)"
    using lift_worker [OF batch, of "process_init sv" "?p BeforeListen Starting False ?q0 False False None"] by simp
  then have "?R (?p BeforeListen Waiting False ?q1 False False None)"
    by (rule next') (use running_step.notify [of "?p BeforeListen Starting False ?q1 False False None"] in simp_all)
  then have "?R (?p Listening Waiting False ?q1 False False None)"
    by (rule next') (use running_step.listen [of "?p BeforeListen Waiting False ?q1 False False None"] in simp_all)
  then have "?R (?p Listening Signalled False ?q1 False False None)"
    by (rule next') (use running_step.signal [of "?p Listening Waiting False ?q1 False False None"] in simp_all)
  then have "?R (?p Listening Cancelled False ?q2 False False None)"
    by (rule next')
      (use running_step.cancel_root [of "?p Listening Signalled False ?q1 False False None"] in \<open>simp_all add: rootCancel_def\<close>)
  then have "?R (?p Listening Cancelled False ?q3 False False None)"
    using lift_worker [OF stop, of "process_init sv" "?p Listening Cancelled False ?q2 False False None"] by simp
  then have "?R (?p Listening Cancelled False ?q3 True False None)"
    by (rule next') (use running_step.worker_done [of "?p Listening Cancelled False ?q3 False False None" ?q3]
      in \<open>simp_all add: start_returned_def\<close>)
  then have "?R (?p Listening ShuttingDown True ?q3 True False None)"
    by (rule next') (use running_step.shutdown [of "?p Listening Cancelled False ?q3 True False None"] in simp_all)
  then have "?R (?p AwaitingIdle ShuttingDown True ?q3 True False None)"
    by (rule next') (use running_step.server_closed [of "?p Listening ShuttingDown True ?q3 True False None"] in simp_all)
  then have "?R (?p AwaitingIdle Draining True ?q3 True False None)"
    by (rule next') (use running_step.shut_quiet [of "?p AwaitingIdle ShuttingDown True ?q3 True False None"] in simp_all)
  then have "?R (?p AwaitingIdle Drained True ?q3 True True None)"
    by (rule next') (use running_step.drained [of "?p AwaitingIdle Draining True ?q3 True False None"] in simp_all)
  then have "?R (?p AwaitingIdle Drained True ?q3 True True (Some (ExitCode 0)))"
    by (rule next') (use running_step.bye [of "?p AwaitingIdle Drained True ?q3 True True None"] in simp_all)
  then show ?thesis
    by (intro exI [of _ "?p AwaitingIdle Drained True ?q3 True True (Some (ExitCode 0))"] exI [of _ ?q3]) simp
qed

definition sample_service :: service where
  "sample_service = \<lparr>sv_cfg = sample_config, sv_reg = sample_registry, sv_exec = sample_state,
     sv_worker = Some sample_worker\<rparr>"

lemma sample_exit:
  obtains p where "reachable (process_init sample_service) process_step p" "pr_exit p = Some (ExitCode 0)" "pr_shut p"
  using exit_abandons_messages [of sample_service sample_worker]
  by (auto simp: sample_service_def sample_worker_def)

section \<open>Properties\<close>

text \<open>C12. The exit code tells what happened. Code 0: one of the two signals asked for was received,
  the server stopped accepting, every connection in work was finished and every other one closed
  unless the ten seconds ran out, the root context was cancelled and every polling loop of the
  worker has returned. Code 1: listening failed. Code 2: a panic, a fatal error of the runtime or
  SIGQUIT. A process killed by SIGINT or SIGTERM had not yet installed its handler; from then on
  only the signals it does not ask for kill it. There is no other exit, and no exit of its own
  other than 0, 1 and the 2 of a panic in a goroutine that handles a message.\<close>

theorem exit_code_tells_what_happened:
  assumes "reachable (process_init sv) process_step p" "pr_exit p = Some e"
    and "\<forall>wk. sv_worker sv = Some wk \<longrightarrow> 0 < wk_workers wk"
  shows "(case e of
      KilledBySignal s \<Rightarrow> s \<in> {SIGINT, SIGTERM, SIGHUP, SIGKILL} \<and> (s \<in> {SIGINT, SIGTERM} \<longrightarrow> pr_signal p = Starting)
    | ExitCode c \<Rightarrow>
        c = 0 \<and> pr_signal p = Drained \<and> pr_shut p \<and> (pr_conns p = 0 \<and> pr_kept p = 0 \<or> pr_timed_out p) \<and>
          (\<forall>q. pr_pool p = Some q \<longrightarrow> pl_cancelled q \<and> (\<forall>l \<in> set (pl_loops q). l = Stopped)) \<or>
        c = 1 \<and> pr_main p = Failing \<or>
        c = 2) \<and>
    (\<forall>p\<^sub>0. running_step p\<^sub>0 p \<longrightarrow> pr_exit p\<^sub>0 = None \<longrightarrow>
        e \<in> {ExitCode 0, ExitCode 1} \<or> e = ExitCode 2 \<and> (\<exists>q. pr_pool p = Some q \<and> 0 < pl_handlers q))"
proof -
  have ok: "process_ok (loops_of sv) p" by (rule process.inv_reachable [OF assms(1)])
  have has: "sv_worker sv \<noteq> None" if "pr_pool p \<noteq> None"
    using process_worker [OF assms(1)] that by simp
  have st: "stage_ok p" "exit_ok p" "worker_ok (loops_of sv) p" using ok by (simp_all add: process_ok_def)
  have drained: "pr_signal p = Drained \<and> pr_shut p \<and> (pr_conns p = 0 \<and> pr_kept p = 0 \<or> pr_timed_out p) \<and>
      (\<forall>q. pr_pool p = Some q \<longrightarrow> pl_cancelled q \<and> (\<forall>l \<in> set (pl_loops q). l = Stopped))" if i: "pr_idle p"
  proof -
    have s: "6 \<le> stage (pr_signal p)" "pr_shut p" "pr_conns p = 0 \<and> pr_kept p = 0 \<or> pr_timed_out p" "pr_workerDone p"
      using st(1) i by (auto simp: stage_ok_def Let_def)
    then have "pr_signal p = Drained" by (cases "pr_signal p") simp_all
    moreover have "pl_cancelled q \<and> (\<forall>l \<in> set (pl_loops q). l = Stopped)" if q: "pr_pool p = Some q" for q
    proof -
      have "pool_ok (loops_of sv) q" "start_returned q"
        using st(3) s(4) q by (auto simp: worker_ok_def pool_returned_def)
      moreover have "0 < loops_of sv" using has q assms(3) by (auto simp: loops_of_def)
      ultimately show ?thesis by (blast dest: start_returned_stopped)
    qed
    ultimately show ?thesis using s by blast
  qed
  have own: "e \<in> {ExitCode 0, ExitCode 1} \<or> e = ExitCode 2 \<and> (\<exists>q. pr_pool p = Some q \<and> 0 < pl_handlers q)"
    if "running_step p\<^sub>0 p" "pr_exit p\<^sub>0 = None" for p\<^sub>0
    using that assms(2) by cases auto
  have sig: "s \<in> {SIGINT, SIGTERM, SIGHUP, SIGKILL}" if "s \<noteq> SIGQUIT" for s using that by (cases s) simp_all
  show ?thesis
    by (intro conjI) (use st(2) assms(2) drained sig in \<open>cases e; auto simp: exit_ok_def\<close>, use own in blast)
qed

theorem exit_code_tells_what_happened_witness:
  "\<exists>p. reachable (process_init sample_service) process_step p \<and> pr_exit p = Some (ExitCode 0) \<and> pr_signal p = Drained"
proof -
  obtain p where p: "reachable (process_init sample_service) process_step p" "pr_exit p = Some (ExitCode 0)"
    using sample_exit by metis
  from exit_code_tells_what_happened [OF p] p show ?thesis by (auto simp: sample_service_def sample_worker_def)
qed

text \<open>C13. A shutdown ends. Once the server is shut down there is no infinite sequence of steps,
  and a process that has not exited has a step of its own to take, without a signal from outside:
  whatever connections, receive calls and messages still do, every run of a shutdown reaches an
  exit.\<close>

theorem process_shutdown_ends:
  "wfP (\<lambda>p' p. reachable (process_init sv) process_step p \<and> pr_shut p \<and> process_step p p') \<and>
   (reachable (process_init sv) process_step p \<longrightarrow> pr_shut p \<longrightarrow>
      (pr_exit p = None \<longleftrightarrow> (\<exists>p'. process_step p p')) \<and>
      (pr_exit p = None \<longleftrightarrow> (\<exists>p'. process_step p p' \<and> running_step p p')))"
proof -
  have "{(p', p). reachable (process_init sv) process_step p \<and> pr_shut p \<and> process_step p p'} \<subseteq> process_order"
    using process_descends process.inv_reachable by blast
  then have "wfP (\<lambda>p' p. reachable (process_init sv) process_step p \<and> pr_shut p \<and> process_step p p')"
    unfolding wfp_def by (rule wf_subset [OF wf_process])
  moreover have "(pr_exit p = None \<longleftrightarrow> (\<exists>p'. process_step p p')) \<and>
      (pr_exit p = None \<longleftrightarrow> (\<exists>p'. process_step p p' \<and> running_step p p'))"
    if "reachable (process_init sv) process_step p" "pr_shut p"
    using process_progress [OF process.inv_reachable [OF that(1)] that(2)] by (auto simp: process_step_def)
  ultimately show ?thesis by blast
qed

theorem process_shutdown_ends_witness:
  "\<exists>p. reachable (process_init sample_service) process_step p \<and> (\<nexists>p'. process_step p p')"
proof -
  obtain p where p: "reachable (process_init sample_service) process_step p" "pr_exit p = Some (ExitCode 0)" "pr_shut p"
    using sample_exit by metis
  from process_shutdown_ends [of sample_service p] p show ?thesis by auto
qed

text \<open>C38. The exit does not wait for the messages in work: any service with a queue that comes up
  can receive a signal and exit with code 0 while a whole batch of ten messages is still being
  handled, none of which is then finished.\<close>

theorem exit_with_messages_in_work:
  assumes "main_startup b w = Serving sv" "bo_getenv b ''SQS_QUEUE_URL'' \<noteq> []"
  shows "\<exists>p q. reachable (process_init sv) process_step p \<and> pr_exit p = Some (ExitCode 0) \<and>
    pr_pool p = Some q \<and> pl_handlers q = 10"
proof -
  have "sv_cfg sv = Load (bo_getenv b) (bo_num_cpu b)" "start_worker b (sv_cfg sv) = Inr (sv_worker sv)"
    using startup_Serving [OF assms(1)] by metis+
  then obtain wk where "sv_worker sv = Some wk" "0 < wk_workers wk"
    using start_worker_Inr [of b "sv_cfg sv" "sv_worker sv"] assms(2) by (fastforce simp: Load_def envOr_def Let_def)
  from exit_abandons_messages [OF this] show ?thesis by (auto simp: sqsMaxMessages_def)
qed

theorem exit_with_messages_in_work_witness:
  "\<exists>sv p q. main_startup queue_boot sample_world = Serving sv \<and> reachable (process_init sv) process_step p \<and>
     pr_exit p = Some (ExitCode 0) \<and> pr_pool p = Some q \<and> pl_handlers q = 10"
proof -
  obtain sv where sv: "main_startup queue_boot sample_world = Serving sv" using queue_served by metis
  from exit_with_messages_in_work [OF this] sv show ?thesis by (auto simp: queue_boot_def)
qed

end
