(* ===== verification/Shipped_Languages.thy ===== *)
theory Shipped_Languages
  imports Run_Correct
begin

text \<open>
  The languages the repository ships under \<open>configs/languages\<close>, one definition per file with the
  values of the file (an absent key is the zero value of its field, as the decoder leaves it),
  and what they make of the properties of \<open>Run\<close>: hypotheses on the language of a request hold
  of every one of them. That the decoder yields these values from the files of the language
  directory is \<open>shipped_dir\<close>; \<open>os.ReadDir\<close> lists a directory sorted by name.
\<close>

section \<open>The files\<close>

definition lang_bash :: language where
  "lang_bash = \<lparr>l_Name = ''bash'', l_Version = ''GNU bash 5'', l_SourceFile = ''main.sh'', l_Artifact = '''',
    l_Build = None,
    l_Run = Some
      \<lparr>ph_Command = ''/bin/bash'',
        ph_Args = [''{{source}}''],
        ph_AllowedFlags = [],
        ph_TimeLimitS = 5, ph_MemoryKB = 131072, ph_MaxProcesses = 64\<rparr>\<rparr>"

definition lang_c :: language where
  "lang_c = \<lparr>l_Name = ''c'', l_Version = ''gcc 12'', l_SourceFile = ''main.c'', l_Artifact = ''main'',
    l_Build = Some
      \<lparr>ph_Command = ''/usr/bin/gcc'',
        ph_Args = [''-O2'', ''-std=c17'', ''-o'', ''{{artifact}}'', ''{{source}}''],
        ph_AllowedFlags = [''-O0'', ''-O1'', ''-O2'', ''-O3'', ''-std=c89'', ''-std=c99'', ''-std=c11'', ''-std=c17'', ''-Wall'', ''-Wextra''],
        ph_TimeLimitS = 15, ph_MemoryKB = 524288, ph_MaxProcesses = 64\<rparr>,
    l_Run = Some
      \<lparr>ph_Command = ''/sandbox/main'',
        ph_Args = [],
        ph_AllowedFlags = [],
        ph_TimeLimitS = 5, ph_MemoryKB = 262144, ph_MaxProcesses = 64\<rparr>\<rparr>"

definition lang_cpp :: language where
  "lang_cpp = \<lparr>l_Name = ''cpp'', l_Version = ''g++ 12'', l_SourceFile = ''main.cpp'', l_Artifact = ''main'',
    l_Build = Some
      \<lparr>ph_Command = ''/usr/bin/g++'',
        ph_Args = [''-O2'', ''-std=c++17'', ''-o'', ''{{artifact}}'', ''{{source}}''],
        ph_AllowedFlags = [''-O0'', ''-O1'', ''-O2'', ''-O3'', ''-std=c++11'', ''-std=c++14'', ''-std=c++17'', ''-std=c++20'', ''-Wall'', ''-Wextra'', ''-pthread''],
        ph_TimeLimitS = 20, ph_MemoryKB = 524288, ph_MaxProcesses = 64\<rparr>,
    l_Run = Some
      \<lparr>ph_Command = ''/sandbox/main'',
        ph_Args = [],
        ph_AllowedFlags = [],
        ph_TimeLimitS = 5, ph_MemoryKB = 262144, ph_MaxProcesses = 64\<rparr>\<rparr>"

definition lang_go :: language where
  "lang_go = \<lparr>l_Name = ''go'', l_Version = ''go 1.x'', l_SourceFile = ''main.go'', l_Artifact = ''main'',
    l_Build = Some
      \<lparr>ph_Command = ''/usr/bin/go'',
        ph_Args = [''build'', ''-o'', ''/sandbox/{{artifact}}'', ''/sandbox/{{source}}''],
        ph_AllowedFlags = [],
        ph_TimeLimitS = 60, ph_MemoryKB = 2097152, ph_MaxProcesses = 512\<rparr>,
    l_Run = Some
      \<lparr>ph_Command = ''/sandbox/main'',
        ph_Args = [],
        ph_AllowedFlags = [],
        ph_TimeLimitS = 5, ph_MemoryKB = 2097152, ph_MaxProcesses = 256\<rparr>\<rparr>"

definition lang_java :: language where
  "lang_java = \<lparr>l_Name = ''java'', l_Version = ''OpenJDK 17'', l_SourceFile = ''Main.java'', l_Artifact = ''Main'',
    l_Build = Some
      \<lparr>ph_Command = ''/usr/bin/javac'',
        ph_Args = [''{{source}}''],
        ph_AllowedFlags = [],
        ph_TimeLimitS = 30, ph_MemoryKB = 4194304, ph_MaxProcesses = 256\<rparr>,
    l_Run = Some
      \<lparr>ph_Command = ''/usr/bin/java'',
        ph_Args = [''-cp'', ''/sandbox'', ''-Xss64m'', ''-Xmx256m'', ''Main''],
        ph_AllowedFlags = [],
        ph_TimeLimitS = 10, ph_MemoryKB = 4194304, ph_MaxProcesses = 256\<rparr>\<rparr>"

definition lang_node :: language where
  "lang_node = \<lparr>l_Name = ''node'', l_Version = ''Node.js 18'', l_SourceFile = ''main.js'', l_Artifact = '''',
    l_Build = None,
    l_Run = Some
      \<lparr>ph_Command = ''/usr/bin/node'',
        ph_Args = [''{{source}}''],
        ph_AllowedFlags = [],
        ph_TimeLimitS = 5, ph_MemoryKB = 2097152, ph_MaxProcesses = 64\<rparr>\<rparr>"

definition lang_python :: language where
  "lang_python = \<lparr>l_Name = ''python'', l_Version = ''3'', l_SourceFile = ''main.py'', l_Artifact = '''',
    l_Build = None,
    l_Run = Some
      \<lparr>ph_Command = ''/usr/bin/python3'',
        ph_Args = [''{{source}}''],
        ph_AllowedFlags = [],
        ph_TimeLimitS = 5, ph_MemoryKB = 262144, ph_MaxProcesses = 64\<rparr>\<rparr>"

definition lang_rust :: language where
  "lang_rust = \<lparr>l_Name = ''rust'', l_Version = ''rustc 1.x'', l_SourceFile = ''main.rs'', l_Artifact = ''main'',
    l_Build = Some
      \<lparr>ph_Command = ''/usr/bin/rustc'',
        ph_Args = [''-O'', ''--edition=2021'', ''-o'', ''{{artifact}}'', ''{{source}}''],
        ph_AllowedFlags = [''-O'', ''--edition=2015'', ''--edition=2018'', ''--edition=2021''],
        ph_TimeLimitS = 30, ph_MemoryKB = 1048576, ph_MaxProcesses = 64\<rparr>,
    l_Run = Some
      \<lparr>ph_Command = ''/sandbox/main'',
        ph_Args = [],
        ph_AllowedFlags = [],
        ph_TimeLimitS = 5, ph_MemoryKB = 262144, ph_MaxProcesses = 64\<rparr>\<rparr>"

definition lang_verilog :: language where
  "lang_verilog = \<lparr>l_Name = ''verilog'', l_Version = ''Icarus Verilog 11'', l_SourceFile = ''main.v'', l_Artifact = ''main.vvp'',
    l_Build = Some
      \<lparr>ph_Command = ''/usr/bin/iverilog'',
        ph_Args = [''-o'', ''{{artifact}}'', ''{{source}}''],
        ph_AllowedFlags = [''-g2005'', ''-g2012'', ''-Wall''],
        ph_TimeLimitS = 15, ph_MemoryKB = 524288, ph_MaxProcesses = 64\<rparr>,
    l_Run = Some
      \<lparr>ph_Command = ''/usr/bin/vvp'',
        ph_Args = [''/sandbox/{{artifact}}''],
        ph_AllowedFlags = [],
        ph_TimeLimitS = 10, ph_MemoryKB = 262144, ph_MaxProcesses = 64\<rparr>\<rparr>"

definition shipped_files :: "(string \<times> language) list" where
  "shipped_files = [
     (''bash.yaml'', lang_bash),
     (''c.yaml'', lang_c),
     (''cpp.yaml'', lang_cpp),
     (''go.yaml'', lang_go),
     (''java.yaml'', lang_java),
     (''node.yaml'', lang_node),
     (''python.yaml'', lang_python),
     (''rust.yaml'', lang_rust),
     (''verilog.yaml'', lang_verilog)]"

definition shipped_registry :: registry where
  "shipped_registry = \<lparr>reg_languages = map_of (map (\<lambda>(f, l). (l_Name l, l)) shipped_files)\<rparr>"

definition shipped_dir ::
  "(string \<Rightarrow> string + dir_entry list) \<Rightarrow> (string \<Rightarrow> string + string) \<Rightarrow> (string \<Rightarrow> string + language) \<Rightarrow> string \<Rightarrow> bool" where
  "shipped_dir read_dir read_file yaml_unmarshal dir \<longleftrightarrow>
     read_dir dir = Inr (map (\<lambda>(f, l). \<lparr>de_Name = f, de_IsDir = False\<rparr>) shipped_files) \<and>
     (\<forall>(f, l) \<in> set shipped_files. \<exists>raw. read_file (filepath_Join [dir, f]) = Inr raw \<and> yaml_unmarshal raw = Inr l)"

section \<open>Laws\<close>

text \<open>What holds of one phase of a shipped language.\<close>

definition phase_sound :: "language \<Rightarrow> phase \<Rightarrow> bool" where
  "phase_sound l p \<longleftrightarrow> HasPrefix (ph_Command p) ''/'' \<and>
     0 < ph_TimeLimitS p \<and> ph_TimeLimitS p \<le> 60 \<and> 1024 \<le> ph_MemoryKB p \<and> 0 < ph_MaxProcesses p \<and>
     list_all (\<lambda>a. CHR ''{'' \<notin> set a) (renderArgs (ph_Args p) l []) \<and>
     list_all (\<lambda>f. HasPrefix f ''-'' \<and> CHR ''/'' \<notin> set f) (ph_AllowedFlags p)"

definition language_sound :: "language \<Rightarrow> bool" where
  "language_sound l \<longleftrightarrow> validate l = None \<and> safeName (l_SourceFile l) \<and> plain (l_SourceFile l) \<and>
     (l_Artifact l = [] \<or> safeName (l_Artifact l)) \<and>
     (case l_Build l of None \<Rightarrow> True | Some p \<Rightarrow> phase_sound l p \<and> l_Artifact l \<noteq> []) \<and>
     (case l_Run l of None \<Rightarrow> False | Some p \<Rightarrow> phase_sound l p)"

lemma sound_bash: "language_sound lang_bash"
  by code_simp

lemma sound_c: "language_sound lang_c"
  by code_simp

lemma sound_cpp: "language_sound lang_cpp"
  by code_simp

lemma sound_go: "language_sound lang_go"
  by code_simp

lemma sound_java: "language_sound lang_java"
  by code_simp

lemma sound_node: "language_sound lang_node"
  by code_simp

lemma sound_python: "language_sound lang_python"
  by code_simp

lemma sound_rust: "language_sound lang_rust"
  by code_simp

lemma sound_verilog: "language_sound lang_verilog"
  by code_simp

lemmas sound_languages = sound_bash sound_c sound_cpp sound_go sound_java sound_node sound_python sound_rust sound_verilog

lemma shipped_sound: "(f, l) \<in> set shipped_files \<Longrightarrow> language_sound l"
  by (auto simp: shipped_files_def sound_languages)

lemma shipped_names: "distinct (map (\<lambda>p. l_Name (snd p)) shipped_files)" "\<forall>(f, l) \<in> set shipped_files. is_yaml_name f"
  by code_simp+

lemma load_pairs:
  assumes "\<forall>(f, l) \<in> set fs. is_yaml_name f \<and> validate l = None \<and>
      (\<exists>raw. rf (filepath_Join [dir, f]) = Inr raw \<and> yu raw = Inr l)"
  shows "load_entries rf yu dir (map (\<lambda>(f, l). \<lparr>de_Name = f, de_IsDir = False\<rparr>) fs) r =
    (None, register_all r (map snd fs))"
proof -
  have "parse_until (parse_file rf yu) (map (\<lambda>(f, l). filepath_Join [dir, f]) fs) = (None, map snd fs)"
    using assms by (induction fs) (auto simp: parse_file_def)
  moreover have "yaml_paths dir (map (\<lambda>(f, l). \<lparr>de_Name = f, de_IsDir = False\<rparr>) fs) = map (\<lambda>(f, l). filepath_Join [dir, f]) fs"
    using assms by (induction fs) (auto simp: yaml_paths_def)
  ultimately show ?thesis by (simp add: load_entries_spec)
qed

lemma map_of_rev_distinct: "distinct (map fst kvs) \<Longrightarrow> map_of (rev kvs) = map_of kvs"
  by (subst map_of_inject_set) (simp_all flip: rev_map)

lemma shipped_load:
  assumes "shipped_dir rd rf yu dir"
  shows "LoadDir rd rf yu dir New = (None, shipped_registry)"
proof -
  have "\<forall>(f, l) \<in> set shipped_files. is_yaml_name f \<and> validate l = None \<and>
      (\<exists>raw. rf (filepath_Join [dir, f]) = Inr raw \<and> yu raw = Inr l)"
    using assms shipped_names(2) shipped_sound by (fastforce simp: shipped_dir_def language_sound_def)
  from load_pairs [OF this, of New]
  have "LoadDir rd rf yu dir New = (None, register_all New (map snd shipped_files))"
    using assms by (simp add: LoadDir_def shipped_dir_def)
  moreover have "distinct (map fst (map (\<lambda>l. (l_Name l, l)) (map snd shipped_files)))"
    using shipped_names(1) by (simp add: comp_def)
  from map_of_rev_distinct [OF this]
  have "register_all New (map snd shipped_files) = shipped_registry"
    by (simp add: register_all_def New_def shipped_registry_def case_prod_unfold comp_def)
  ultimately show ?thesis by simp
qed

lemma shipped_Get: "Get shipped_registry n = Some l \<Longrightarrow> language_sound l \<and> l_Name l = n"
  by (auto simp: Get_def shipped_registry_def dest!: map_of_SomeD intro: shipped_sound)

lemma shipped_not_dots:
  "\<forall>m l. Get shipped_registry m = Some l \<longrightarrow> l_SourceFile l \<noteq> ''.'' \<and> l_SourceFile l \<noteq> ''..''"
  using shipped_Get by (fastforce simp: language_sound_def plain_def)

definition shipped_reads :: "string \<Rightarrow> string + language" where
  "shipped_reads path = (case map_of (map (\<lambda>(f, l). (''/etc/goboxd/languages/'' @ f, l)) shipped_files) path of
     None \<Rightarrow> Inl ''no such file or directory'' | Some l \<Rightarrow> Inr l)"

lemma shipped_dir_sample:
  "shipped_dir (\<lambda>_. Inr (map (\<lambda>(f, l). \<lparr>de_Name = f, de_IsDir = False\<rparr>) shipped_files)) Inr shipped_reads ''/etc/goboxd/languages''"
proof -
  have p: "filepath_Join [''/etc/goboxd/languages'', f] = ''/etc/goboxd/languages/'' @ f" if "(f, l) \<in> set shipped_files" for f l
  proof -
    have "plain f" using that unfolding shipped_files_def by (auto simp: plain_def)
    moreover have "filepath_Clean ''/etc/goboxd/languages'' = ''/etc/goboxd/languages''" by code_simp
    ultimately show ?thesis using filepath_Join_plain [of f "''/etc/goboxd/languages''"] by (simp add: entry_of_def)
  qed
  have d: "distinct (map fst shipped_files)" by code_simp
  have "map_of (map (\<lambda>(f, l). (''/etc/goboxd/languages/'' @ f, l)) shipped_files) (''/etc/goboxd/languages/'' @ f) = Some l"
    if "(f, l) \<in> set shipped_files" for f l
  proof (rule map_of_is_SomeI)
    show "distinct (map fst (map (\<lambda>(f, l). (''/etc/goboxd/languages/'' @ f, l)) shipped_files))"
      using d by (simp add: case_prod_beta comp_def distinct_map inj_on_def)
  qed (use that in force)
  then show ?thesis using p by (fastforce simp: shipped_dir_def shipped_reads_def)
qed

lemma phase_soundD:
  "phase_sound l p \<Longrightarrow> 0 < ph_TimeLimitS p \<and> ph_TimeLimitS p \<le> 60 \<and> 1024 \<le> ph_MemoryKB p \<and> 0 < ph_MaxProcesses p \<and>
     (\<forall>a \<in> set (renderArgs (ph_Args p) l []). CHR ''{'' \<notin> set a) \<and>
     (\<forall>f \<in> set (ph_AllowedFlags p). HasPrefix f ''-'' \<and> CHR ''/'' \<notin> set f)"
  by (simp add: phase_sound_def list_all_iff)

lemma language_soundD:
  assumes "language_sound l"
  shows "safeName (l_SourceFile l) \<and> l_SourceFile l \<noteq> ''.'' \<and> l_SourceFile l \<noteq> ''..'' \<and> l_Run l \<noteq> None"
    and "l_Run l = Some p \<or> l_Build l = Some p \<Longrightarrow> phase_sound l p"
  using assms by (auto simp: language_sound_def plain_def split: option.splits)

section \<open>Properties\<close>

text \<open>C31. The shipped language directory loads without an error and serves exactly its nine
  languages, each under its own name and fit for the executor: a safe source file name that is
  no dot name, a run phase, and for the build and the run limits that are set and no longer than
  a minute, arguments in which no marker is left, and allowed flags that cannot name a path.\<close>

theorem shipped_languages_load:
  assumes "shipped_dir read_dir read_file yaml dir"
  shows "\<exists>reg. LoadDir read_dir read_file yaml dir New = (None, reg) \<and>
    dom (reg_languages reg) = {''bash'', ''c'', ''cpp'', ''go'', ''java'', ''node'', ''python'', ''rust'', ''verilog''} \<and>
    (\<forall>n l. Get reg n = Some l \<longrightarrow> l_Name l = n \<and>
       safeName (l_SourceFile l) \<and> l_SourceFile l \<noteq> ''.'' \<and> l_SourceFile l \<noteq> ''..'' \<and> l_Run l \<noteq> None \<and>
       (\<forall>p. l_Run l = Some p \<or> l_Build l = Some p \<longrightarrow>
          0 < ph_TimeLimitS p \<and> ph_TimeLimitS p \<le> 60 \<and> 1024 \<le> ph_MemoryKB p \<and> 0 < ph_MaxProcesses p \<and>
          (\<forall>a \<in> set (renderArgs (ph_Args p) l []). CHR ''{'' \<notin> set a) \<and>
          (\<forall>f \<in> set (ph_AllowedFlags p). HasPrefix f ''-'' \<and> CHR ''/'' \<notin> set f)))"
proof (intro exI [of _ shipped_registry] conjI)
  show "LoadDir read_dir read_file yaml dir New = (None, shipped_registry)" by (rule shipped_load [OF assms])
  have "map (\<lambda>p. l_Name (snd p)) shipped_files =
      [''bash'', ''c'', ''cpp'', ''go'', ''java'', ''node'', ''python'', ''rust'', ''verilog'']" by code_simp
  from arg_cong [OF this, of set]
  have "fst ` set (map (\<lambda>(f, l). (l_Name l, l)) shipped_files) =
      {''bash'', ''c'', ''cpp'', ''go'', ''java'', ''node'', ''python'', ''rust'', ''verilog''}"
    by (simp only: image_set map_map comp_def case_prod_unfold fst_conv list.set)
  then show "dom (reg_languages shipped_registry) =
      {''bash'', ''c'', ''cpp'', ''go'', ''java'', ''node'', ''python'', ''rust'', ''verilog''}"
    by (simp add: shipped_registry_def dom_map_of_conv_image_fst)
qed (use shipped_Get language_soundD phase_soundD in blast)

theorem shipped_languages_load_witness:
  "\<exists>reg. LoadDir (\<lambda>_. Inr (map (\<lambda>(f, l). \<lparr>de_Name = f, de_IsDir = False\<rparr>) shipped_files)) Inr shipped_reads
     ''/etc/goboxd/languages'' New = (None, reg) \<and> ''rust'' \<in> dom (reg_languages reg)"
proof -
  from shipped_languages_load [OF shipped_dir_sample] obtain reg where
    "LoadDir (\<lambda>_. Inr (map (\<lambda>(f, l). \<lparr>de_Name = f, de_IsDir = False\<rparr>) shipped_files)) Inr shipped_reads
      ''/etc/goboxd/languages'' New = (None, reg)"
    and "dom (reg_languages reg) = {''bash'', ''c'', ''cpp'', ''go'', ''java'', ''node'', ''python'', ''rust'', ''verilog''}"
    by (elim exE conjE)
  moreover have "''rust'' \<in> {''bash'', ''c'', ''cpp'', ''go'', ''java'', ''node'', ''python'', ''rust'', ''verilog''}"
    by simp
  ultimately show ?thesis by metis
qed

end
