(* ===== verification/Json_Decode.thy ===== *)
theory Json_Decode
  imports Json_Text Go_Float "HOL-Library.AList"
begin

text \<open>
  What the source uses of \<open>encoding/json\<close> to read: \<open>scan_value\<close> is the syntax (the scanner, which
  runs over the whole value before anything is decoded) and yields a tree with the numbers as
  they are written and the strings unquoted; the rest is the decoding of such a tree into Go
  values: strings, integers, floats, slices, maps and structs. Decoding writes into an existing
  value, as Go does: a null leaves a string, an integer or a struct as it is, a repeated member
  decodes into what the first one left. \<open>None\<close> is the error of \<open>Decode\<close> or \<open>Unmarshal\<close>.
\<close>

named_theorems go_scan "equations that evaluate the scanner on a concrete text"

section \<open>String literals\<close>

text \<open>A low surrogate behind a high one, written as an escape.\<close>

definition low_surrogate :: "nat \<Rightarrow> string \<Rightarrow> nat option" where
  "low_surrogate n s =
     (if 0xD800 \<le> n \<and> n < 0xDC00 \<and> prefix (BSL # ''u'') s then
        (case hex4 (drop 2 s) of
           Some m \<Rightarrow> if 0xDC00 \<le> m \<and> m \<le> 0xDFFF then Some m else None
         | None \<Rightarrow> None)
      else None)"

definition utf8_pair :: "nat \<Rightarrow> nat \<Rightarrow> string" where
  "utf8_pair n m =
     (let r = 0x10000 + (n - 0xD800) * 0x400 + (m - 0xDC00)
      in [char_of (0xF0 + r div 0x40000), char_of (0x80 + r div 4096 mod 64),
          char_of (0x80 + r div 64 mod 64), char_of (0x80 + r mod 64)])"

text \<open>The literal after its opening quote: its value, and what follows the closing quote.\<close>

function unquote :: "string \<Rightarrow> (string \<times> string) option" where
  "unquote [] = None"
| "unquote (c # s) =
     (if c = DQT then Some ([], s)
      else if c = BSL then
        (case s of [] \<Rightarrow> None
         | e # t \<Rightarrow>
             if e = CHR ''u'' then
               (case hex4 t of None \<Rightarrow> None
                | Some n \<Rightarrow>
                    (case low_surrogate n (drop 4 t) of
                       Some m \<Rightarrow> prepend (utf8_pair n m) (unquote (drop 10 t))
                     | None \<Rightarrow> prepend (utf8 n) (unquote (drop 4 t))))
             else (case simple_escape e of None \<Rightarrow> None | Some x \<Rightarrow> prepend [x] (unquote t)))
      else if byte c < 0x20 then None
      else (let w = rune_width (c # s)
            in prepend (clean_rune (take w (c # s))) (unquote (drop (w - 1) s))))"
  by pat_completeness auto
termination by (relation "measure length") auto

section \<open>The syntax\<close>

datatype raw = RNull | RBool bool | RNum string | RStr string | RArr "raw list" | RObj "(string \<times> raw) list"

definition is_blank :: "char \<Rightarrow> bool" where
  "is_blank c \<longleftrightarrow> c = SPC \<or> c = TAB \<or> c = CR \<or> c = LF"

definition skip_blanks :: "string \<Rightarrow> string" where
  "skip_blanks s = dropWhile is_blank s"

text \<open>The parts of a number: one or more digits, an optional fraction, an optional exponent.\<close>

definition scan_digits :: "string \<Rightarrow> (string \<times> string) option" where
  "scan_digits s = (if takeWhile is_digit s = [] then None else Some (takeWhile is_digit s, dropWhile is_digit s))"

definition scan_integer :: "string \<Rightarrow> (string \<times> string) option" where
  "scan_integer s = (case s of
       [] \<Rightarrow> None
     | c # t \<Rightarrow> if c = CHR ''0'' then Some ([c], t) else scan_digits s)"

definition scan_fraction :: "string \<Rightarrow> (string \<times> string) option" where
  "scan_fraction s = (case s of
       [] \<Rightarrow> Some ([], s)
     | c # t \<Rightarrow> if c = CHR ''.'' then prepend [c] (scan_digits t) else Some ([], s))"

definition scan_exponent :: "string \<Rightarrow> (string \<times> string) option" where
  "scan_exponent s = (case s of
       [] \<Rightarrow> Some ([], s)
     | c # t \<Rightarrow>
         if c = CHR ''e'' \<or> c = CHR ''E'' then
           (case t of
              [] \<Rightarrow> None
            | d # u \<Rightarrow> if d = CHR ''+'' \<or> d = CHR ''-'' then prepend [c, d] (scan_digits u)
                else prepend [c] (scan_digits t))
         else Some ([], s))"

definition scan_then ::
  "(string \<times> string) option \<Rightarrow> (string \<Rightarrow> (string \<times> string) option) \<Rightarrow> (string \<times> string) option" where
  "scan_then r f = (case r of None \<Rightarrow> None | Some (a, s) \<Rightarrow> prepend a (f s))"

definition scan_number :: "string \<Rightarrow> (string \<times> string) option" where
  "scan_number s =
     scan_then (scan_then (scan_then
       (case s of [] \<Rightarrow> None | c # t \<Rightarrow> if c = CHR ''-'' then Some ([c], t) else Some ([], s))
       scan_integer) scan_fraction) scan_exponent"

definition scan_word :: "string \<Rightarrow> raw \<Rightarrow> string \<Rightarrow> (raw \<times> string) option" where
  "scan_word w v s = (if prefix w s then Some (v, drop (length w) s) else None)"

definition scan_scalar :: "string \<Rightarrow> (raw \<times> string) option" where
  "scan_scalar s = (case s of
       [] \<Rightarrow> None
     | c # t \<Rightarrow>
         if c = DQT then map_option (\<lambda>(a, r). (RStr a, r)) (unquote t)
         else if c = CHR ''t'' then scan_word ''true'' (RBool True) s
         else if c = CHR ''f'' then scan_word ''false'' (RBool False) s
         else if c = CHR ''n'' then scan_word ''null'' RNull s
         else map_option (\<lambda>(a, r). (RNum a, r)) (scan_number s))"

lemma skip_blanks_le: "length (skip_blanks s) \<le> length s"
  by (simp add: skip_blanks_def length_dropWhile_le)

lemma skip_blanks_shorter: "skip_blanks s = c # t \<Longrightarrow> length t < length s"
  using skip_blanks_le [of s] by simp

text \<open>
  Values, the elements of an array after its bracket or a comma, the members of an object. The
  first argument is how many more brackets may be opened. An element or a member is only gone on
  from when it took something off the text; \<open>scan_shorter\<close> shows that it always does.
\<close>

function scan_value :: "nat \<Rightarrow> string \<Rightarrow> (raw \<times> string) option"
  and scan_items :: "nat \<Rightarrow> string \<Rightarrow> (raw list \<times> string) option"
  and scan_members :: "nat \<Rightarrow> string \<Rightarrow> ((string \<times> raw) list \<times> string) option" where
  "scan_value d s = (case skip_blanks s of
       [] \<Rightarrow> None
     | c # t \<Rightarrow>
         if c = CHR ''['' then
           (if d = 0 then None
            else (case skip_blanks t of
                [] \<Rightarrow> None
              | e # u \<Rightarrow> if e = CHR '']'' then Some (RArr [], u)
                  else map_option (\<lambda>(vs, r). (RArr vs, r)) (scan_items (d - 1) t)))
         else if c = CHR ''{'' then
           (if d = 0 then None
            else (case skip_blanks t of
                [] \<Rightarrow> None
              | e # u \<Rightarrow> if e = CHR ''}'' then Some (RObj [], u)
                  else map_option (\<lambda>(kvs, r). (RObj kvs, r)) (scan_members (d - 1) t)))
         else scan_scalar (c # t))"
| "scan_items d s = (case scan_value d s of
       None \<Rightarrow> None
     | Some (v, r) \<Rightarrow> (case skip_blanks r of
           [] \<Rightarrow> None
         | c # u \<Rightarrow>
             if c = CHR '']'' then Some ([v], u)
             else if c = CHR '','' \<and> length u < length s then map_option (\<lambda>(vs, r). (v # vs, r)) (scan_items d u)
             else None))"
| "scan_members d s = (case skip_blanks s of
       [] \<Rightarrow> None
     | q # t \<Rightarrow>
         if q \<noteq> DQT then None
         else (case unquote t of
             None \<Rightarrow> None
           | Some (k, r) \<Rightarrow> (case skip_blanks r of
                 [] \<Rightarrow> None
               | e # t' \<Rightarrow>
                   if e \<noteq> CHR '':'' \<or> \<not> length t' < length s then None
                   else (case scan_value d t' of
                       None \<Rightarrow> None
                     | Some (v, r') \<Rightarrow> (case skip_blanks r' of
                           [] \<Rightarrow> None
                         | c # u \<Rightarrow>
                             if c = CHR ''}'' then Some ([(k, v)], u)
                             else if c = CHR '','' \<and> length u < length s
                               then map_option (\<lambda>(kvs, r). ((k, v) # kvs, r)) (scan_members d u)
                             else None)))))"
  by pat_completeness auto
termination
  by (relation "measures [\<lambda>x. case x of Inl (d, s) \<Rightarrow> length s | Inr (Inl (d, s)) \<Rightarrow> length s | Inr (Inr (d, s)) \<Rightarrow> length s,
    \<lambda>x. case x of Inl _ \<Rightarrow> 0 | Inr _ \<Rightarrow> (1 :: nat)]")
     (auto dest: skip_blanks_shorter)

declare unquote.simps(2) [simp del] scan_value.simps [simp del] scan_items.simps [simp del] scan_members.simps [simp del]

section \<open>Numbers\<close>

text \<open>
  \<open>strconv.ParseFloat\<close> on a number of the syntax, to 64 bits: the nearest double, ties to even,
  with the exponent range of a double; \<open>None\<close> is the range error of a value too large. An
  exponent stops growing once it has passed 10000, as in \<open>strconv\<close>.
\<close>

definition float64 :: "rat \<Rightarrow> rat option" where
  "float64 x = (if x = 0 then Some 0 else
     (let y = \<bar>x\<bar>; e = max (expo y) (- 1022);
          r = of_int (rne (y * 2 powi (52 - e))) * 2 powi (e - 52)
      in if 2 ^ 1024 \<le> r then None else Some (sgn x * r)))"

definition exponent_value :: "string \<Rightarrow> int" where
  "exponent_value s =
     (let (neg, ds) = (case s of
            [] \<Rightarrow> (False, [])
          | c # t \<Rightarrow> if c = CHR ''-'' then (True, t) else if c = CHR ''+'' then (False, t) else (False, s));
          e = foldl (\<lambda>e d. if e < 10000 then e * 10 + (int (byte d) - 48) else e) 0 ds
      in if neg then - e else e)"

definition ParseFloat :: "string \<Rightarrow> rat option" where
  "ParseFloat s =
     (let (neg, t) = (case s of [] \<Rightarrow> (False, []) | c # u \<Rightarrow> if c = CHR ''-'' then (True, u) else (False, s));
          whole = takeWhile is_digit t;
          (frac, rest) = (case dropWhile is_digit t of
              [] \<Rightarrow> ([], [])
            | c # u \<Rightarrow> if c = CHR ''.'' then (takeWhile is_digit u, dropWhile is_digit u) else ([], c # u));
          e = (case rest of [] \<Rightarrow> 0 | c # u \<Rightarrow> exponent_value u);
          x = of_nat (digits_val 0 (whole @ frac)) * 10 powi (e - int (length frac))
      in float64 (if neg then - x else x))"

section \<open>Decoding into Go values\<close>

text \<open>Each decodes a value into an existing one.\<close>

fun into_string :: "raw \<Rightarrow> string \<Rightarrow> string option" where
  "into_string (RStr s) old = Some s"
| "into_string RNull old = Some old"
| "into_string _ old = None"

fun into_int :: "raw \<Rightarrow> int \<Rightarrow> int option" where
  "into_int (RNum t) old = Atoi t"
| "into_int RNull old = Some old"
| "into_int _ old = None"

text \<open>Pointers: null is the nil pointer.\<close>

fun into_int_ptr :: "raw \<Rightarrow> int option \<Rightarrow> int option option" where
  "into_int_ptr (RNum t) old = map_option Some (Atoi t)"
| "into_int_ptr RNull old = Some None"
| "into_int_ptr _ old = None"

fun into_float_ptr :: "raw \<Rightarrow> rat option \<Rightarrow> rat option option" where
  "into_float_ptr (RNum t) old = map_option Some (ParseFloat t)"
| "into_float_ptr RNull old = Some None"
| "into_float_ptr _ old = None"

text \<open>
  Slices. An element is decoded into what its place of the backing array holds, which the
  elements of an earlier, longer array may have left there (\<open>sl_spare\<close>); a fresh place holds
  the zero value \<open>z\<close>. A null and an empty array make a new, empty slice.
\<close>

record 'a slice =
  sl_elems :: "'a list"
  sl_spare :: "'a list"

fun into_elems :: "(raw \<Rightarrow> 'a \<Rightarrow> 'a option) \<Rightarrow> 'a \<Rightarrow> raw list \<Rightarrow> 'a list \<Rightarrow> 'a slice option" where
  "into_elems f z [] old = Some \<lparr>sl_elems = [], sl_spare = old\<rparr>"
| "into_elems f z (v # vs) old =
     (case f v (case old of [] \<Rightarrow> z | x # _ \<Rightarrow> x) of
        None \<Rightarrow> None
      | Some x \<Rightarrow> map_option (\<lambda>sl. sl\<lparr>sl_elems := x # sl_elems sl\<rparr>) (into_elems f z vs (tl old)))"

fun into_slice :: "(raw \<Rightarrow> 'a \<Rightarrow> 'a option) \<Rightarrow> 'a \<Rightarrow> raw \<Rightarrow> 'a slice \<Rightarrow> 'a slice option" where
  "into_slice f z RNull sl = Some \<lparr>sl_elems = [], sl_spare = []\<rparr>"
| "into_slice f z (RArr []) sl = Some \<lparr>sl_elems = [], sl_spare = []\<rparr>"
| "into_slice f z (RArr (v # vs)) sl = into_elems f z (v # vs) (sl_elems sl @ sl_spare sl)"
| "into_slice f z _ sl = None"

text \<open>A map of strings: members are added to what is there, a null member is the empty string.\<close>

fun into_entries :: "(string \<times> raw) list \<Rightarrow> (string \<times> string) list \<Rightarrow> (string \<times> string) list option" where
  "into_entries [] m = Some m"
| "into_entries ((k, v) # kvs) m =
     (case into_string v [] of None \<Rightarrow> None | Some s \<Rightarrow> into_entries kvs (AList.update k s m))"

fun into_map :: "raw \<Rightarrow> (string \<times> string) list \<Rightarrow> (string \<times> string) list option" where
  "into_map RNull m = Some []"
| "into_map (RObj kvs) m = into_entries kvs m"
| "into_map _ m = None"

text \<open>
  Structs. A member belongs to the field of that very name, or else to the first one whose name
  is the same up to case; \<open>fold_name\<close> is \<open>foldName\<close> as far as a comparison with an ASCII name can
  tell: besides the ASCII letters the Kelvin sign and the long s have ASCII variants.
\<close>

definition fold_rune :: "string \<Rightarrow> string" where
  "fold_rune u =
     (if length u = 1 \<and> 97 \<le> byte (hd u) \<and> byte (hd u) \<le> 122 then [char_of (byte (hd u) - 32)]
      else if u = [CHR 0xE2, CHR 0x84, CHR 0xAA] then ''K''
      else if u = [CHR 0xC5, CHR 0xBF] then ''S''
      else u)"

definition fold_name :: "string \<Rightarrow> string" where
  "fold_name s = concat (map fold_rune (split_runes s))"

type_synonym 'a fields = "(string \<times> (raw \<Rightarrow> 'a \<Rightarrow> 'a option)) list"

definition struct_field :: "'a fields \<Rightarrow> string \<Rightarrow> (raw \<Rightarrow> 'a \<Rightarrow> 'a option) option" where
  "struct_field fs k =
     (case map_of fs k of
        Some f \<Rightarrow> Some f
      | None \<Rightarrow> map_option snd (List.find (\<lambda>(n, f). fold_name n = fold_name k) fs))"

text \<open>\<open>strict\<close>: \<open>DisallowUnknownFields\<close>.\<close>

fun into_members :: "bool \<Rightarrow> 'a fields \<Rightarrow> (string \<times> raw) list \<Rightarrow> 'a \<Rightarrow> 'a option" where
  "into_members strict fs [] x = Some x"
| "into_members strict fs ((k, v) # kvs) x =
     (case struct_field fs k of
        None \<Rightarrow> if strict then None else into_members strict fs kvs x
      | Some f \<Rightarrow> (case f v x of None \<Rightarrow> None | Some y \<Rightarrow> into_members strict fs kvs y))"

fun into_struct :: "bool \<Rightarrow> 'a fields \<Rightarrow> raw \<Rightarrow> 'a \<Rightarrow> 'a option" where
  "into_struct strict fs (RObj kvs) x = into_members strict fs kvs x"
| "into_struct strict fs RNull x = Some x"
| "into_struct strict fs _ x = None"

text \<open>A field of a struct, by its getter and its setter.\<close>

definition at_field ::
  "(raw \<Rightarrow> 'b \<Rightarrow> 'b option) \<Rightarrow> ('a \<Rightarrow> 'b) \<Rightarrow> (('b \<Rightarrow> 'b) \<Rightarrow> 'a \<Rightarrow> 'a) \<Rightarrow> raw \<Rightarrow> 'a \<Rightarrow> 'a option" where
  "at_field into get upd v x = map_option (\<lambda>y. upd (\<lambda>_. y) x) (into v (get x))"

section \<open>Decode and Unmarshal\<close>

definition maxNestingDepth :: nat where "maxNestingDepth = 10000"

fun is_scalar :: "raw \<Rightarrow> bool" where
  "is_scalar (RArr _) = False"
| "is_scalar (RObj _) = False"
| "is_scalar _ = True"

text \<open>
  \<open>Decoder.Decode\<close> on an \<open>http.MaxBytesReader\<close>: it reads one value and looks at nothing behind it;
  a body longer than the limit is an error only when the value does not end within the limit,
  and a scalar takes one more byte, or the end of the body, to end.
\<close>

definition Decode :: "(raw \<Rightarrow> 'a \<Rightarrow> 'a option) \<Rightarrow> int \<Rightarrow> string \<Rightarrow> 'a \<Rightarrow> 'a option" where
  "Decode into limit body x =
     (let avail = take (nat limit) body
      in case scan_value maxNestingDepth avail of
           None \<Rightarrow> None
         | Some (v, rest) \<Rightarrow>
             if length avail < length body \<and> rest = [] \<and> is_scalar v then None else into v x)"

text \<open>\<open>json.Unmarshal\<close>: the text is one value and blanks.\<close>

definition Unmarshal :: "(raw \<Rightarrow> 'a \<Rightarrow> 'a option) \<Rightarrow> string \<Rightarrow> 'a \<Rightarrow> 'a option" where
  "Unmarshal into text x =
     (case scan_value maxNestingDepth text of
        None \<Rightarrow> None
      | Some (v, rest) \<Rightarrow> if skip_blanks rest = [] then into v x else None)"

section \<open>Laws of the syntax\<close>

text \<open>Whatever is scanned takes something off the text.\<close>

lemma prepend_eq_Some: "prepend p x = Some (a, r) \<longleftrightarrow> (\<exists>b. x = Some (b, r) \<and> a = p @ b)"
  by (cases x) (auto simp: prepend_def)

lemma unquote_shorter: "unquote s = Some (a, r) \<Longrightarrow> length r < length s"
proof (induction "length s" arbitrary: s a rule: less_induct)
  case less
  have ih: "unquote t = Some (b, r) \<Longrightarrow> length t < length s \<Longrightarrow> length r < length s" for t b
    using less.hyps [of t b] by simp
  show ?case
  proof (cases s)
    case (Cons c t)
    then show ?thesis
      using less.prems
      by (auto simp: unquote.simps(2) Let_def prepend_eq_Some simp del: length_Cons length_drop
          split: if_splits list.splits option.splits dest!: ih) auto
  qed (use less.prems in simp)
qed

lemma scan_digits_shorter: "scan_digits s = Some (a, r) \<Longrightarrow> length r < length s"
  by (cases s) (auto simp: scan_digits_def le_imp_less_Suc length_dropWhile_le split: if_splits)

lemma scan_integer_shorter: "scan_integer s = Some (a, r) \<Longrightarrow> length r < length s"
  by (auto simp: scan_integer_def split: list.splits if_splits dest: scan_digits_shorter)

lemma scan_fraction_le: "scan_fraction s = Some (a, r) \<Longrightarrow> length r \<le> length s"
  by (auto simp: scan_fraction_def prepend_eq_Some split: list.splits if_splits dest: scan_digits_shorter)

lemma scan_exponent_le: "scan_exponent s = Some (a, r) \<Longrightarrow> length r \<le> length s"
  by (auto simp: scan_exponent_def prepend_eq_Some split: list.splits if_splits dest: scan_digits_shorter)

lemma scan_then_Some: "scan_then x f = Some (a, r) \<longleftrightarrow> (\<exists>b s c. x = Some (b, s) \<and> f s = Some (c, r) \<and> a = b @ c)"
  by (auto simp: scan_then_def prepend_eq_Some split: option.split)

lemma scan_number_shorter: "scan_number s = Some (a, r) \<Longrightarrow> length r < length s"
  by (auto simp: scan_number_def scan_then_Some split: list.splits if_splits
      dest!: scan_integer_shorter scan_fraction_le scan_exponent_le)

lemma scan_scalar_shorter: "scan_scalar s = Some (v, r) \<Longrightarrow> length r < length s"
  by (auto simp: scan_scalar_def scan_word_def split: list.splits if_splits
      dest!: unquote_shorter scan_number_shorter)

lemma scan_shorter:
  "\<And>v r. scan_value d s = Some (v, r) \<Longrightarrow> length r < length s"
  "\<And>vs r. scan_items d' s' = Some (vs, r) \<Longrightarrow> length r < length s'"
  "\<And>kvs r. scan_members d'' s'' = Some (kvs, r) \<Longrightarrow> length r < length s''"
proof (induction d s and d' s' and d'' s'' rule: scan_value_scan_items_scan_members.induct)
  case (1 d s)
  show ?case
  proof (cases "skip_blanks s")
    case (Cons c t)
    note t = skip_blanks_shorter [OF Cons]
    have *: "length r < length t" if "skip_blanks t = e # u"
      "(if e = CHR '']'' then Some (RArr [], u) else map_option (\<lambda>(vs, r). (RArr vs, r)) (scan_items (d - 1) t)) = Some (v, r)"
      "c = CHR ''[''" "d \<noteq> 0" for e u
      using that "1.IH"(1) [OF Cons _ _ that(1)] skip_blanks_shorter [OF that(1)] by (auto split: if_splits)
    have **: "length r < length t" if "skip_blanks t = e # u"
      "(if e = CHR ''}'' then Some (RObj [], u) else map_option (\<lambda>(kvs, r). (RObj kvs, r)) (scan_members (d - 1) t)) = Some (v, r)"
      "c = CHR ''{''" "d \<noteq> 0" for e u
      using that "1.IH"(2) [OF Cons _ _ _ that(1)] skip_blanks_shorter [OF that(1)] by (auto split: if_splits)
    have sc: "scan_scalar (c # t) = Some (v, r) \<Longrightarrow> length r < length s"
      using scan_scalar_shorter [of "c # t" v r] t by simp
    show ?thesis
    proof (cases "c = CHR ''['' \<or> c = CHR ''{''")
      case True
      then have "d \<noteq> 0" "skip_blanks t \<noteq> []"
        using "1.prems" by (auto simp: scan_value.simps [of d s] Cons split: if_splits)
      then obtain e u where eu: "skip_blanks t = e # u" by (cases "skip_blanks t") simp
      show ?thesis
      proof (cases "c = CHR ''[''")
        case True
        then show ?thesis using * [OF eu] "1.prems" \<open>d \<noteq> 0\<close> t by (simp add: scan_value.simps [of d s] Cons eu)
      next
        case False
        then show ?thesis
          using ** [OF eu] "1.prems" \<open>d \<noteq> 0\<close> t \<open>c = _ \<or> c = _\<close> by (simp add: scan_value.simps [of d s] Cons eu)
      qed
    qed (use "1.prems" sc in \<open>simp add: scan_value.simps [of d s] Cons\<close>)
  qed (use "1.prems" in \<open>simp add: scan_value.simps\<close>)
next
  case (2 d s)
  obtain v q c u where q: "scan_value d s = Some (v, q)" "skip_blanks q = c # u"
    using "2.prems" by (auto simp: scan_items.simps [of d s] split: option.splits list.splits)
  have "length u < length s" using "2.IH"(1) [OF q(1)] skip_blanks_shorter [OF q(2)] by simp
  moreover have "length r < length u" if "scan_items d u = Some (ws, r)" "c = CHR '',''" for ws
    using "2.IH"(2) [OF q(1) refl q(2)] that calculation by simp
  ultimately show ?case
    using "2.prems" by (auto simp: scan_items.simps [of d s] q split: if_splits)
next
  case (3 d s)
  obtain q t k q1 e t1 v q2 c u where q: "skip_blanks s = q # t" "q = DQT" "unquote t = Some (k, q1)"
    "skip_blanks q1 = e # t1" "e = CHR '':''" "length t1 < length s" "scan_value d t1 = Some (v, q2)" "skip_blanks q2 = c # u"
    using "3.prems" by (auto simp: scan_members.simps [of d s] split: option.splits list.splits if_splits)
  have "length q2 < length t1" using "3.IH"(1) [OF q(1) _ q(3) refl q(4) _ q(7)] q by simp
  then have u: "length u < length s" using q(6) skip_blanks_shorter [OF q(8)] by simp
  moreover have "length r < length u" if "scan_members d u = Some (ws, r)" "c = CHR '',''" for ws
    using "3.IH"(2) [OF q(1) _ q(3) refl q(4) _ q(7) refl q(8)] that u q by simp
  ultimately show ?case
    using "3.prems" by (auto simp: scan_members.simps [of d s] q split: if_splits)
qed

text \<open>More brackets allowed changes nothing for a text that was read.\<close>

lemma scan_deeper:
  "\<And>x. scan_value d s = Some x \<Longrightarrow> scan_value (d + e) s = Some x"
  "\<And>x. scan_items d' s' = Some x \<Longrightarrow> scan_items (d' + e) s' = Some x"
  "\<And>x. scan_members d'' s'' = Some x \<Longrightarrow> scan_members (d'' + e) s'' = Some x"
proof (induction d s and d' s' and d'' s'' rule: scan_value_scan_items_scan_members.induct)
  case (1 d s)
  show ?case
  proof (cases "skip_blanks s")
    case (Cons c t)
    show ?thesis
    proof (cases "c = CHR ''['' \<or> c = CHR ''{''")
      case True
      then have d: "d \<noteq> 0" "skip_blanks t \<noteq> []"
        using "1.prems" by (auto simp: scan_value.simps [of d s] Cons split: if_splits)
      then obtain b u where eu: "skip_blanks t = b # u" by (cases "skip_blanks t") simp
      have "d + e - 1 = d - 1 + e" using d by simp
      then show ?thesis
        using "1.prems" True d(1) "1.IH"(1) [OF Cons _ _ eu] "1.IH"(2) [OF Cons _ _ _ eu]
        by (auto simp: scan_value.simps [of d s] scan_value.simps [of "d + e" s] Cons eu split: if_splits)
    qed (use "1.prems" in \<open>simp add: scan_value.simps [of d s] scan_value.simps [of "d + e" s] Cons\<close>)
  qed (use "1.prems" in \<open>simp add: scan_value.simps\<close>)
next
  case (2 d s)
  obtain v q c u where q: "scan_value d s = Some (v, q)" "skip_blanks q = c # u"
    using "2.prems" by (auto simp: scan_items.simps [of d s] split: option.splits list.splits)
  then show ?case
    using "2.prems" "2.IH"(1) [OF q(1)] "2.IH"(2) [OF q(1) refl q(2)]
    by (auto simp: scan_items.simps [of d s] scan_items.simps [of "d + e" s] q split: if_splits)
next
  case (3 d s)
  obtain q t k q1 b t1 v q2 c u where q: "skip_blanks s = q # t" "q = DQT" "unquote t = Some (k, q1)"
    "skip_blanks q1 = b # t1" "b = CHR '':''" "length t1 < length s" "scan_value d t1 = Some (v, q2)" "skip_blanks q2 = c # u"
    using "3.prems" by (auto simp: scan_members.simps [of d s] split: option.splits list.splits if_splits)
  show ?case
    using "3.prems" "3.IH"(1) [OF q(1) _ q(3) refl q(4) _ q(7)] "3.IH"(2) [OF q(1) _ q(3) refl q(4) _ q(7) refl q(8)] q
    by (auto simp: scan_members.simps [of d s] scan_members.simps [of "d + e" s] split: if_splits)
qed

lemma scan_value_deep: "scan_value 8 s = Some x \<Longrightarrow> scan_value maxNestingDepth s = Some x"
  using scan_deeper(1) [of 8 s x 9992] by (simp add: maxNestingDepth_def)

section \<open>Reading what the encoder writes\<close>

fun raw_of :: "json \<Rightarrow> raw" where
  "raw_of (JStr s) = RStr s"
| "raw_of (JInt i) = RNum (Itoa i)"
| "raw_of (JBool b) = RBool b"
| "raw_of (JArr vs) = RArr (map raw_of vs)"
| "raw_of (JObj kvs) = RObj (map (\<lambda>(k, v). (k, raw_of v)) kvs)"

text \<open>How many brackets are open at once.\<close>

fun nesting :: "json \<Rightarrow> nat" where
  "nesting (JArr vs) = Suc (Max (insert 0 (nesting ` set vs)))"
| "nesting (JObj kvs) = Suc (Max (insert 0 ((\<lambda>kv. nesting (snd kv)) ` set kvs)))"
| "nesting _ = 0"

lemma nesting_le:
  "nesting (JArr vs) \<le> d \<longleftrightarrow> 0 < d \<and> (\<forall>v \<in> set vs. nesting v \<le> d - 1)"
  "nesting (JObj kvs) \<le> d \<longleftrightarrow> 0 < d \<and> (\<forall>kv \<in> set kvs. nesting (snd kv) \<le> d - 1)"
  by (cases d; simp)+

lemma utf8_rune_width:
  assumes "well_formed u"
  shows "rune_width (u @ s) = length u"
proof -
  have "nth_in i lo hi t \<Longrightarrow> nth_in i lo hi (t @ s)" for i lo hi t
    by (simp add: nth_in_def nth_append)
  then have "seq2 c t \<Longrightarrow> seq2 c (t @ s)" "seq3 c t \<Longrightarrow> seq3 c (t @ s)" "seq4 c t \<Longrightarrow> seq4 c (t @ s)" for c t
    unfolding seq2_def seq3_def seq4_def by blast+
  moreover have "seq3 c t \<Longrightarrow> \<not> seq2 c t'" "seq4 c t \<Longrightarrow> \<not> seq2 c t'" "seq4 c t \<Longrightarrow> \<not> seq3 c t'" for c t t'
    by (auto simp: seq2_def seq3_def seq4_def)
  ultimately show ?thesis
    using assms by (auto simp: well_formed_def rune_width.simps)
qed

interpretation go: literal_reader unquote
proof unfold_locales
  show "unquote (DQT # s) = Some ([], s)" for s by (simp add: unquote.simps)
  show "unquote (c # s) = prepend [c] (unquote s)" if "c \<noteq> DQT" "c \<noteq> BSL" "0x20 \<le> byte c" "byte c < 0x80" for c s
    using that rune_width_ascii [of c s] by (simp add: unquote.simps(2) clean_rune_def)
  show "unquote (BSL # e # s) = prepend [x] (unquote s)" if "simple_escape e = Some x" "e \<noteq> CHR ''u''" for e x s
    using that by (simp add: unquote.simps(2) BSL_def DQT_def)
  show "unquote (BSL # CHR ''u'' # s) = prepend (utf8 n) (unquote (drop 4 s))"
    if "hex4 s = Some n" "n < 0xD800 \<or> 0xDFFF < n" for s n
    using that by (auto simp: unquote.simps(2) BSL_def DQT_def low_surrogate_def)
  show "unquote (u @ s) = prepend u (unquote s)" if u: "well_formed u" for u s
  proof -
    obtain c t where c: "u = c # t" "length t \<noteq> 0" using u unfolding well_formed_def by force
    then have "0x80 \<le> byte c" using well_formed_high [OF u] by simp
    then have "c \<noteq> DQT" "c \<noteq> BSL" "\<not> byte c < 0x20" by (auto simp: DQT_def BSL_def)
    moreover have "rune_width (c # t @ s) = Suc (length t)" using utf8_rune_width [OF u, of s] c(1) by simp
    ultimately show ?thesis using c by (simp add: unquote.simps(2) clean_rune_def)
  qed
qed

lemma nat_str_nonzero: "0 < n \<Longrightarrow> hd (nat_str n) \<noteq> CHR ''0''"
proof (induction n rule: nat_str.induct)
  case (1 n)
  show ?case
  proof (cases "n < 10")
    case True
    have "byte (CHR ''0'') = 48" by simp
    then have "digit n \<noteq> CHR ''0''" using byte_digit [OF True] "1.prems" by (metis add_cancel_right_right less_irrefl)
    then show ?thesis using True by (simp add: nat_str.simps [of n])
  next
    case False
    then have "0 < n div 10" by linarith
    then show ?thesis using 1 False nat_str_digits [of "n div 10"] by (simp add: nat_str.simps [of n])
  qed
qed

lemma scan_digits_nat: "r = [] \<or> \<not> is_digit (hd r) \<Longrightarrow> scan_digits (nat_str n @ r) = Some (nat_str n, r)"
proof -
  assume r: "r = [] \<or> \<not> is_digit (hd r)"
  have d: "\<forall>c \<in> set (nat_str n). is_digit c" "nat_str n \<noteq> []" using nat_str_digits [of n] by (auto simp: list_all_iff)
  then have "takeWhile is_digit (nat_str n @ r) = nat_str n" "dropWhile is_digit (nat_str n @ r) = r"
    using r by (cases r; auto)+
  then show ?thesis using d(2) by (simp add: scan_digits_def)
qed

lemma scan_integer_nat:
  assumes "r = [] \<or> \<not> is_digit (hd r)"
  shows "scan_integer (nat_str n @ r) = Some (nat_str n, r)"
proof (cases "n = 0")
  case True
  have "nat_str 0 = ''0''" by code_simp
  then show ?thesis using True by (simp add: scan_integer_def)
next
  case False
  obtain c s where c: "nat_str n = c # s" using nat_str_digits [of n] by (cases "nat_str n") auto
  then have "c \<noteq> CHR ''0''" using nat_str_nonzero [of n] False by simp
  then show ?thesis using scan_digits_nat [OF assms, of n] c by (simp add: scan_integer_def)
qed

lemma scan_number_Itoa:
  assumes "ends_value r"
  shows "scan_number (Itoa i @ r) = Some (Itoa i, r)"
proof -
  have r: "r = [] \<or> \<not> is_digit (hd r)" by (rule ends_value_digit [OF assms])
  have f: "scan_fraction r = Some ([], r)" "scan_exponent r = Some ([], r)"
    using assms by (auto simp: ends_value_def scan_fraction_def scan_exponent_def split: list.split)
  obtain c s where c: "nat_str (nat i) = c # s" "is_digit c"
    using nat_str_digits [of "nat i"] by (cases "nat_str (nat i)") auto
  then have "c \<noteq> CHR ''-''" by (auto simp: is_digit_def)
  then show ?thesis
    using scan_integer_nat [OF r, of "nat i"] scan_integer_nat [OF r, of "nat (- i)"] c
    by (simp add: scan_number_def scan_then_def Itoa_def f)
qed

text \<open>The head of a written value: no blank, and a bracket or brace only when the value is an array or an object.\<close>

lemma text_head: "\<exists>c s. json_text v = c # s \<and> \<not> is_blank c \<and> c \<noteq> CHR '']'' \<and> c \<noteq> CHR ''}''"
proof (cases v)
  case (JInt i)
  obtain d s where d: "nat_str (nat i) = d # s" "is_digit d"
    using nat_str_digits [of "nat i"] by (cases "nat_str (nat i)") auto
  then have "\<not> is_blank d" "d \<noteq> CHR '']''" "d \<noteq> CHR ''}''"
    by (auto simp: is_digit_def is_blank_def)
  then show ?thesis using JInt d by (auto simp: Itoa_def is_blank_def)
qed (auto simp: json_string_def is_blank_def DQT_def)

lemma skip_blanks_text: "skip_blanks (json_text v @ r) = json_text v @ r"
  using text_head [of v] by (auto simp: skip_blanks_def)

lemma skip_blanks_head: "\<not> is_blank c \<Longrightarrow> skip_blanks (c # s) = c # s"
  by (simp add: skip_blanks_def)

lemma not_blank [simp]: "\<not> is_blank DQT" "\<not> is_blank (CHR '','')" "\<not> is_blank (CHR '':'')" "\<not> is_blank (CHR '']'')"
  "\<not> is_blank (CHR ''}'')" "\<not> is_blank (CHR ''['')" "\<not> is_blank (CHR ''{'')"
  by (simp_all add: is_blank_def DQT_def)

text \<open>Everything but a number ends itself, whatever follows.\<close>

fun ends_itself :: "json \<Rightarrow> bool" where
  "ends_itself (JInt i) = False"
| "ends_itself _ = True"

definition scans_back :: "json \<Rightarrow> bool" where
  "scans_back v \<longleftrightarrow> (\<forall>d r. ends_itself v \<or> ends_value r \<longrightarrow> nesting v \<le> d \<longrightarrow>
     scan_value d (json_text v @ r) = Some (raw_of (clean_json v), r))"

lemma scans_backD: "scans_back v \<Longrightarrow> ends_itself v \<or> ends_value r \<Longrightarrow> nesting v \<le> d \<Longrightarrow>
    scan_value d (json_text v @ r) = Some (raw_of (clean_json v), r)"
  unfolding scans_back_def by blast

lemma scan_items_join:
  "vs \<noteq> [] \<Longrightarrow> \<forall>v \<in> set vs. scans_back v \<and> nesting v \<le> d \<Longrightarrow>
     scan_items d (Join (map json_text vs) '','' @ CHR '']'' # r) = Some (map (raw_of \<circ> clean_json) vs, r)"
proof (induction vs)
  case (Cons v vs)
  show ?case
  proof (cases "vs = []")
    case True
    then have "scan_value d (json_text v @ CHR '']'' # r) = Some (raw_of (clean_json v), CHR '']'' # r)"
      using Cons.prems by (intro scans_backD) simp_all
    then show ?thesis using True by (simp add: scan_items.simps skip_blanks_head)
  next
    case False
    let ?rest = "Join (map json_text vs) '','' @ CHR '']'' # r"
    have j: "Join (map json_text (v # vs)) '','' = json_text v @ '','' @ Join (map json_text vs) '',''"
      using False Join_Cons2 [of "map json_text vs" "json_text v" "'',''"] by simp
    have "scan_value d (json_text v @ CHR '','' # ?rest) = Some (raw_of (clean_json v), CHR '','' # ?rest)"
      using Cons.prems j by (intro scans_backD) simp_all
    moreover have "scan_items d ?rest = Some (map (raw_of \<circ> clean_json) vs, r)"
      using Cons.prems False by (intro Cons.IH) simp_all
    ultimately show ?thesis
      unfolding j by (simp add: scan_items.simps [of d "json_text v @ CHR '','' # ?rest"] skip_blanks_head)
  qed
qed simp

lemma scan_members_join:
  "kvs \<noteq> [] \<Longrightarrow> \<forall>kv \<in> set kvs. scans_back (snd kv) \<and> nesting (snd kv) \<le> d \<Longrightarrow>
     scan_members d (Join (map field_text kvs) '','' @ CHR ''}'' # r) =
       Some (map (\<lambda>(k, v). (clean k, raw_of (clean_json v))) kvs, r)"
proof (induction kvs)
  case (Cons kv kvs)
  obtain k v where kv: "kv = (k, v)" by fastforce
  have f: "field_text kv @ t = DQT # concat (map json_rune (split_runes k)) @ DQT # CHR '':'' # json_text v @ t" for t
    by (simp add: field_text_def json_string_def kv)
  show ?case
  proof (cases "kvs = []")
    case True
    then have "scan_value d (json_text v @ CHR ''}'' # r) = Some (raw_of (clean_json v), CHR ''}'' # r)"
      using Cons.prems by (intro scans_backD) (simp_all add: kv)
    then show ?thesis using True f [of "CHR ''}'' # r"]
      by (simp add: scan_members.simps skip_blanks_head go.read_string kv)
  next
    case False
    let ?rest = "Join (map field_text kvs) '','' @ CHR ''}'' # r"
    have j: "Join (map field_text (kv # kvs)) '','' = field_text kv @ '','' @ Join (map field_text kvs) '',''"
      using False Join_Cons2 [of "map field_text kvs" "field_text kv" "'',''"] by simp
    have "scan_value d (json_text v @ CHR '','' # ?rest) = Some (raw_of (clean_json v), CHR '','' # ?rest)"
      using Cons.prems j by (intro scans_backD) (simp_all add: kv)
    moreover have "scan_members d ?rest = Some (map (\<lambda>(k, v). (clean k, raw_of (clean_json v))) kvs, r)"
      using Cons.prems False by (intro Cons.IH) simp_all
    ultimately show ?thesis
      unfolding j using f [of "CHR '','' # ?rest"]
      by (simp add: scan_members.simps [of d "DQT # _"] skip_blanks_head go.read_string kv)
  qed
qed simp

lemma scan_text: "scans_back v"
proof (induction v)
  case (JStr s)
  show ?case
    by (simp add: scans_back_def scan_value.simps skip_blanks_head json_string_def scan_scalar_def go.read_string)
       (simp add: DQT_def)
next
  case (JInt i)
  show ?case unfolding scans_back_def
  proof (intro allI impI)
    fix d r assume "ends_itself (JInt i) \<or> ends_value r"
    then have r: "ends_value r" by simp
    obtain c s where c: "Itoa i = c # s" "c = CHR ''-'' \<or> is_digit c"
      using nat_str_digits [of "nat i"] by (cases "i < 0"; cases "nat_str (nat i)") (auto simp: Itoa_def)
    then have "c \<noteq> DQT" "c \<noteq> CHR ''[''" "c \<noteq> CHR ''{''" "c \<noteq> CHR ''t''" "c \<noteq> CHR ''f''" "c \<noteq> CHR ''n''"
      by (auto simp: is_digit_def DQT_def)
    then show "scan_value d (json_text (JInt i) @ r) = Some (raw_of (clean_json (JInt i)), r)"
      using scan_number_Itoa [OF r, of i] skip_blanks_text [of "JInt i" r] c(1)
      by (simp add: scan_value.simps scan_scalar_def)
  qed
next
  case (JBool b)
  show ?case
    by (simp add: scans_back_def scan_value.simps skip_blanks_head is_blank_def scan_scalar_def scan_word_def DQT_def)
next
  case (JArr vs)
  show ?case unfolding scans_back_def
  proof (intro allI impI)
    fix d r assume d: "nesting (JArr vs) \<le> d"
    show "scan_value d (json_text (JArr vs) @ r) = Some (raw_of (clean_json (JArr vs)), r)"
    proof (cases vs)
      case (Cons v ws)
      obtain c s where "json_text v = c # s" "\<not> is_blank c" "c \<noteq> CHR '']''" using text_head by blast
      then obtain s' where s: "Join (map json_text vs) '','' = c # s'" "\<not> is_blank c" "c \<noteq> CHR '']''"
        using Cons by (cases ws) simp_all
      have "scan_items (d - 1) (Join (map json_text vs) '','' @ CHR '']'' # r) = Some (map (raw_of \<circ> clean_json) vs, r)"
        using d [unfolded nesting_le] JArr Cons by (intro scan_items_join) simp_all
      then show ?thesis using s d [unfolded nesting_le] by (simp add: scan_value.simps skip_blanks_head comp_def)
    qed (use d in \<open>simp add: scan_value.simps skip_blanks_head\<close>)
  qed
next
  case (JObj kvs)
  have t: "map (\<lambda>(k, v). json_string k @ CHR '':'' # json_text v) kvs = map field_text kvs"
    by (auto simp: field_text_def)
  show ?case unfolding scans_back_def
  proof (intro allI impI)
    fix d r assume d: "nesting (JObj kvs) \<le> d"
    show "scan_value d (json_text (JObj kvs) @ r) = Some (raw_of (clean_json (JObj kvs)), r)"
    proof (cases kvs)
      case (Cons kv ks)
      obtain s' where s: "Join (map field_text kvs) '','' = DQT # s'"
        using Cons by (cases ks) (simp_all add: field_text_def json_string_def)
      have "\<forall>kv \<in> set kvs. scans_back (snd kv)" using JObj by (metis snds.intros)
      then have "scan_members (d - 1) (Join (map field_text kvs) '','' @ CHR ''}'' # r) =
          Some (map (\<lambda>(k, v). (clean k, raw_of (clean_json v))) kvs, r)"
        using d [unfolded nesting_le] Cons by (intro scan_members_join) simp_all
      moreover have "map (\<lambda>(k, v). (k, raw_of v)) (map (\<lambda>(k, v). (clean k, clean_json v)) kvs) =
          map (\<lambda>(k, v). (clean k, raw_of (clean_json v))) kvs" by (simp add: case_prod_beta)
      ultimately show ?thesis unfolding json_text.simps clean_json.simps raw_of.simps t
        using s d [unfolded nesting_le] by (simp add: scan_value.simps skip_blanks_head) (simp add: DQT_def)
    qed (use d in \<open>simp add: scan_value.simps skip_blanks_head\<close>)
  qed
qed

lemma scan_value_text:
  assumes "ends_itself v \<or> ends_value r" "nesting v \<le> d" "valid_json v"
  shows "scan_value d (json_text v @ r) = Some (raw_of v, r)"
  using scans_backD [OF scan_text assms(1,2)] assms(3) by (simp add: clean_json_valid)

section \<open>Strings that come out are UTF-8\<close>

definition rune_ok :: "string \<Rightarrow> bool" where
  "rune_ok u \<longleftrightarrow> (\<exists>c. u = [c] \<and> byte c < 0x80) \<or> well_formed u"

lemma split_runes_wide:
  assumes "well_formed u"
  shows "split_runes (u @ s) = u # split_runes s"
proof -
  obtain c t where c: "u = c # t" using assms by (auto simp: well_formed_def)
  then have "rune_width (c # t @ s) = Suc (length t)" using utf8_rune_width [OF assms, of s] by simp
  then show ?thesis using c by (simp add: split_runes.simps(2))
qed

lemma valid_utf8_rune: "rune_ok u \<Longrightarrow> valid_utf8 (u @ s) \<longleftrightarrow> valid_utf8 s"
proof -
  assume u: "rune_ok u"
  have "\<not> (length u = 1 \<and> well_formed u)" by (auto simp: well_formed_def)
  with u show ?thesis
    by (auto simp: rune_ok_def valid_utf8_def split_runes_ascii split_runes_wide)
qed

lemma valid_utf8_Nil [simp]: "valid_utf8 []"
  by (simp add: valid_utf8_def)

lemma byte_char: "n < 256 \<Longrightarrow> byte (char_of n) = n"
  by (simp add: take_bit_nat_def)

lemma nth_in_Cons [simp]: "nth_in 0 lo hi (c # s) \<longleftrightarrow> lo \<le> byte c \<and> byte c \<le> hi"
  "nth_in (Suc i) lo hi (c # s) \<longleftrightarrow> nth_in i lo hi s" "nth_in 1 lo hi (c # s) \<longleftrightarrow> nth_in 0 lo hi s"
  "nth_in 2 lo hi (c # s) \<longleftrightarrow> nth_in 1 lo hi s"
  by (simp_all add: nth_in_def numeral_2_eq_2)

lemma utf8_ok:
  assumes "n < 0x10000"
  shows "rune_ok (utf8 n)"
proof -
  let ?m = "if 0xD800 \<le> n \<and> n \<le> 0xDFFF then 0xFFFD else n"
  obtain m where m: "m = ?m" "m < 0x10000" "\<not> (0xD800 \<le> m \<and> m \<le> 0xDFFF)" using assms by auto
  have u: "utf8 n = (if m < 0x80 then [char_of m]
      else if m < 0x800 then [char_of (0xC0 + m div 64), char_of (0x80 + m mod 64)]
      else [char_of (0xE0 + m div 4096), char_of (0x80 + m div 64 mod 64), char_of (0x80 + m mod 64)])"
    unfolding utf8_def m(1) Let_def by (rule refl)
  consider "m < 0x80" | "0x80 \<le> m" "m < 0x800" | "0x800 \<le> m" by linarith
  then show ?thesis
  proof cases
    case 1
    then show ?thesis unfolding u rune_ok_def by (auto simp: byte_char)
  next
    case 2
    then have "2 \<le> m div 64" "m div 64 < 32" "m mod 64 < 64" by auto
    then have "seq2 (char_of (0xC0 + m div 64)) [char_of (0x80 + m mod 64)]"
      by (simp add: seq2_def byte_char del: of_char_of)
    then show ?thesis using 2 unfolding u rune_ok_def well_formed_def by simp
  next
    case 3
    define p q r where "p = m div 4096" and "q = m div 64 mod 64" and "r = m mod 64"
    have b: "p < 16" "q < 64" "r < 64" using m(2) by (auto simp: p_def q_def r_def)
    have "m = m div 64 * 64 + r" "m div 64 = p * 64 + q"
      unfolding p_def q_def r_def using div_mult2_eq [of m 64 64] by simp_all
    then have s: "m = p * 4096 + q * 64 + r" by simp
    have "p = 0 \<Longrightarrow> 32 \<le> q" "p = 13 \<Longrightarrow> q < 32" using 3 m(3) s b by auto
    then have "seq3 (char_of (0xE0 + p)) [char_of (0x80 + q), char_of (0x80 + r)]"
      using b by (auto simp: seq3_def byte_char simp del: of_char_of)
    then show ?thesis using 3 unfolding u rune_ok_def well_formed_def p_def q_def r_def by auto
  qed
qed

lemma utf8_pair_ok:
  assumes "0xD800 \<le> n" "n < 0xDC00" "0xDC00 \<le> m" "m \<le> 0xDFFF"
  shows "rune_ok (utf8_pair n m)"
proof -
  define k where "k = 0x10000 + (n - 0xD800) * 0x400 + (m - 0xDC00)"
  have k: "0x10000 \<le> k" "k < 0x110000" using assms by (auto simp: k_def)
  define p q r t where "p = k div 0x40000" and "q = k div 4096 mod 64" and "r = k div 64 mod 64" and "t = k mod 64"
  have d: "k div 4096 = p * 64 + q" unfolding p_def q_def using div_mult2_eq [of k 4096 64] by simp
  have b: "q < 64" "r < 64" "t < 64" by (simp_all add: q_def r_def t_def)
  have "16 \<le> k div 4096" "k div 4096 < 272" using k by auto
  then have "p = 0 \<Longrightarrow> 16 \<le> q" "p \<le> 4" "p = 4 \<Longrightarrow> q < 16" unfolding d using b by auto
  moreover from this have "p = 0 \<or> p = 1 \<or> p = 2 \<or> p = 3 \<or> p = 4" by linarith
  ultimately have "seq4 (char_of (0xF0 + p)) [char_of (0x80 + q), char_of (0x80 + r), char_of (0x80 + t)]"
    using b by (auto simp: seq4_def byte_char simp del: of_char_of)
  then show ?thesis
    unfolding rune_ok_def well_formed_def utf8_pair_def k_def [symmetric] Let_def p_def q_def r_def t_def by auto
qed

lemma hex4_bound: "hex4 s = Some n \<Longrightarrow> n < 0x10000"
proof -
  have h: "hex_value c = Some d \<Longrightarrow> d < 16" for c d
    by (auto simp: hex_value_def Let_def split: if_splits)
  assume "hex4 s = Some n"
  then obtain x y z w where "n = ((x * 16 + y) * 16 + z) * 16 + w" "x < 16" "y < 16" "z < 16" "w < 16"
    by (cases s rule: hex4.cases) (auto split: option.splits dest!: h)
  then show ?thesis by simp
qed

lemma clean_rune_ok:
  assumes "0x80 \<le> byte c"
  shows "rune_ok (clean_rune (take (rune_width (c # s)) (c # s)))"
proof -
  have "rune_ok [CHR 0xEF, CHR 0xBF, CHR 0xBD]" using utf8_ok [of "0xFFFD"] by (simp add: utf8_def char_codes)
  then show ?thesis using take_rune [of c s] assms by (auto simp: clean_rune_def rune_ok_def)
qed

lemma simple_escape_ascii: "simple_escape e = Some x \<Longrightarrow> byte x < 0x80"
  by (auto simp: simple_escape_def DQT_def BSL_def split: if_splits)

lemma unquote_valid: "unquote s = Some (a, r) \<Longrightarrow> valid_utf8 a"
proof (induction "length s" arbitrary: s a rule: less_induct)
  case less
  have ih: "valid_utf8 a" if "prepend u (unquote t) = Some (a, r)" "rune_ok u" "length t < length s" for t u
    using less.hyps [OF that(3)] that(1,2) by (auto simp: prepend_eq_Some valid_utf8_rune)
  have sur: "rune_ok (utf8_pair n m)" if "low_surrogate n t = Some m" for n m t
    using that by (auto simp: low_surrogate_def intro!: utf8_pair_ok split: if_splits option.splits)
  have asc: "rune_ok [x]" if "byte x < 0x80" for x using that by (simp add: rune_ok_def)
  have cl: "rune_ok (clean_rune (take (rune_width (c # t)) (c # t)))" for c t
    using clean_rune_ok [of c t] asc [of c] rune_width_ascii [of c t] by (cases "byte c < 0x80") (auto simp: clean_rune_def)
  show ?case
  proof (cases s)
    case (Cons c t)
    show ?thesis
    proof (cases "c = BSL")
      case True
      then show ?thesis
        using less.prems Cons ih utf8_ok [OF hex4_bound] sur asc simple_escape_ascii
        by (auto simp: unquote.simps(2) split: if_splits list.splits option.splits)
    next
      case False
      then show ?thesis
        using less.prems Cons ih [OF _ cl] by (auto simp: unquote.simps(2) Let_def split: if_splits)
    qed
  qed (use less.prems in simp)
qed

fun valid_raw :: "raw \<Rightarrow> bool" where
  "valid_raw (RStr s) = valid_utf8 s"
| "valid_raw (RArr vs) = (\<forall>v \<in> set vs. valid_raw v)"
| "valid_raw (RObj kvs) = (\<forall>kv \<in> set kvs. valid_utf8 (fst kv) \<and> valid_raw (snd kv))"
| "valid_raw _ = True"

lemma scan_scalar_valid: "scan_scalar s = Some (v, r) \<Longrightarrow> valid_raw v"
  by (auto simp: scan_scalar_def scan_word_def unquote_valid split: list.splits if_splits)

lemma scan_valid:
  "\<And>v r. scan_value d s = Some (v, r) \<Longrightarrow> valid_raw v"
  "\<And>vs r. scan_items d' s' = Some (vs, r) \<Longrightarrow> \<forall>v \<in> set vs. valid_raw v"
  "\<And>kvs r. scan_members d'' s'' = Some (kvs, r) \<Longrightarrow> \<forall>kv \<in> set kvs. valid_utf8 (fst kv) \<and> valid_raw (snd kv)"
proof (induction d s and d' s' and d'' s'' rule: scan_value_scan_items_scan_members.induct)
  case (1 d s)
  show ?case
  proof (cases "skip_blanks s")
    case (Cons c t)
    show ?thesis
    proof (cases "c = CHR ''['' \<or> c = CHR ''{''")
      case True
      then have "d \<noteq> 0" "skip_blanks t \<noteq> []"
        using "1.prems" by (auto simp: scan_value.simps [of d s] Cons split: if_splits)
      then obtain e u where eu: "skip_blanks t = e # u" by (cases "skip_blanks t") simp
      show ?thesis
        using "1.prems" True \<open>d \<noteq> 0\<close> "1.IH"(1) [OF Cons _ _ eu] "1.IH"(2) [OF Cons _ _ _ eu]
        by (auto simp: scan_value.simps [of d s] Cons eu split: if_splits)
    qed (use "1.prems" scan_scalar_valid in \<open>simp add: scan_value.simps [of d s] Cons\<close>)
  qed (use "1.prems" in \<open>simp add: scan_value.simps\<close>)
next
  case (2 d s)
  obtain v q c u where q: "scan_value d s = Some (v, q)" "skip_blanks q = c # u"
    using "2.prems" by (auto simp: scan_items.simps [of d s] split: option.splits list.splits)
  then show ?case
    using "2.prems" "2.IH"(1) [OF q(1)] "2.IH"(2) [OF q(1) refl q(2)]
    by (auto simp: scan_items.simps [of d s] q split: if_splits)
next
  case (3 d s)
  obtain q t k q1 e t1 v q2 c u where q: "skip_blanks s = q # t" "q = DQT" "unquote t = Some (k, q1)"
    "skip_blanks q1 = e # t1" "e = CHR '':''" "length t1 < length s" "scan_value d t1 = Some (v, q2)" "skip_blanks q2 = c # u"
    using "3.prems" by (auto simp: scan_members.simps [of d s] split: option.splits list.splits if_splits)
  show ?case
    using "3.prems" "3.IH"(1) [OF q(1) _ q(3) refl q(4) _ q(7)] "3.IH"(2) [OF q(1) _ q(3) refl q(4) _ q(7) refl q(8)]
      unquote_valid [OF q(3)] q
    by (auto simp: scan_members.simps [of d s] split: if_splits) force+
qed

section \<open>Laws of the decoding\<close>

lemma into_string_valid: "into_string v old = Some s \<Longrightarrow> valid_raw v \<Longrightarrow> valid_utf8 old \<Longrightarrow> valid_utf8 s"
  by (cases v) auto

lemma into_int_i64: "into_int v old = Some i \<Longrightarrow> i64 old \<Longrightarrow> i64 i"
  by (cases v) (auto simp: Atoi_def Let_def split: if_splits)

text \<open>A property of the target that decoding keeps.\<close>

definition keeps :: "('a \<Rightarrow> bool) \<Rightarrow> (raw \<Rightarrow> 'a \<Rightarrow> 'a option) \<Rightarrow> bool" where
  "keeps P f \<longleftrightarrow> (\<forall>v x y. f v x = Some y \<longrightarrow> valid_raw v \<longrightarrow> P x \<longrightarrow> P y)"

lemma keepsD: "keeps P f \<Longrightarrow> f v x = Some y \<Longrightarrow> valid_raw v \<Longrightarrow> P x \<Longrightarrow> P y"
  by (auto simp: keeps_def)

text \<open>What every element decoder keeps holds of all elements a slice has or may get back.\<close>

definition slice_all :: "('a \<Rightarrow> bool) \<Rightarrow> 'a slice \<Rightarrow> bool" where
  "slice_all P sl \<longleftrightarrow> (\<forall>x \<in> set (sl_elems sl) \<union> set (sl_spare sl). P x)"

lemma into_elems_all:
  assumes "keeps P f" "P z"
  shows "into_elems f z vs old = Some sl \<Longrightarrow> \<forall>v \<in> set vs. valid_raw v \<Longrightarrow> \<forall>x \<in> set old. P x \<Longrightarrow> slice_all P sl"
proof (induction vs arbitrary: old sl)
  case (Cons v vs)
  let ?x = "case old of [] \<Rightarrow> z | x # _ \<Rightarrow> x"
  have x: "P ?x" using Cons.prems(3) assms(2) by (simp split: list.split)
  obtain y sl' where y: "f v ?x = Some y" "into_elems f z vs (tl old) = Some sl'" "sl = sl'\<lparr>sl_elems := y # sl_elems sl'\<rparr>"
    using Cons.prems(1) by (auto split: option.splits)
  have "\<forall>x \<in> set (tl old). P x" using Cons.prems(3) by (cases old) simp_all
  then have "slice_all P sl'" using Cons.IH [OF y(2)] Cons.prems(2) by simp
  then show ?case using keepsD [OF assms(1) y(1) _ x] Cons.prems(2) y(3) by (simp add: slice_all_def)
qed (auto simp: slice_all_def)

lemma into_slice_all:
  assumes "keeps P f" "P z"
  shows "into_slice f z v sl = Some sl' \<Longrightarrow> valid_raw v \<Longrightarrow> slice_all P sl \<Longrightarrow> slice_all P sl'"
  by (cases "(f, z, v, sl)" rule: into_slice.cases)
     (auto simp: slice_all_def simp del: into_elems.simps dest!: into_elems_all [OF assms])

text \<open>Struct invariants, field by field.\<close>

lemma struct_field_in: "struct_field fs k = Some f \<Longrightarrow> \<exists>n. (n, f) \<in> set fs \<and> fold_name n = fold_name k"
  by (auto simp: struct_field_def find_Some_iff split: option.splits dest: map_of_SomeD) (metis nth_mem)

lemma into_members_keeps:
  assumes "\<forall>(n, f) \<in> set fs. keeps P f"
  shows "into_members strict fs kvs x = Some y \<Longrightarrow> \<forall>kv \<in> set kvs. valid_raw (snd kv) \<Longrightarrow> P x \<Longrightarrow> P y"
proof (induction kvs arbitrary: x)
  case (Cons kv kvs)
  obtain k v where kv: "kv = (k, v)" by fastforce
  show ?case
  proof (cases "struct_field fs k")
    case None
    then show ?thesis using Cons kv by (auto split: if_splits)
  next
    case (Some f)
    then have "keeps P f" using struct_field_in assms by fastforce
    then show ?thesis using Cons kv Some by (auto split: option.splits dest: keepsD)
  qed
qed simp

lemma into_struct_keeps: "\<forall>(n, f) \<in> set fs. keeps P f \<Longrightarrow> keeps P (into_struct strict fs)"
proof -
  assume a: "\<forall>(n, f) \<in> set fs. keeps P f"
  show ?thesis unfolding keeps_def
  proof (intro allI impI)
    fix v x y assume "into_struct strict fs v x = Some y" "valid_raw v" "P x"
    then show "P y" using into_members_keeps [OF a] by (cases v) auto
  qed
qed

lemma into_members_known:
  "into_members True fs kvs x = Some y \<Longrightarrow> kv \<in> set kvs \<Longrightarrow> \<exists>n \<in> fst ` set fs. fold_name n = fold_name (fst kv)"
proof (induction kvs arbitrary: x)
  case (Cons kw kvs)
  obtain k v where kw: "kw = (k, v)" by fastforce
  then obtain f x' where f: "struct_field fs k = Some f" "into_members True fs kvs x' = Some y"
    using Cons.prems(1) by (auto split: option.splits)
  show ?case
  proof (cases "kv = kw")
    case True
    then show ?thesis using struct_field_in [OF f(1)] kw by force
  next
    case False
    then show ?thesis using Cons.IH [OF f(2)] Cons.prems(2) by simp
  qed
qed simp

text \<open>Members written with \<open>omitempty\<close> are read back, and one left out leaves the zero value.\<close>

definition raw_member :: "string \<times> json \<Rightarrow> string \<times> raw" where
  "raw_member kv = (fst kv, raw_of (snd kv))"

lemma raw_of_JObj: "raw_of (JObj kvs) = RObj (map raw_member kvs)"
  by (simp add: raw_member_def case_prod_beta cong: map_cong)

lemma into_members_append:
  "into_members strict fs (a @ b) x = Option.bind (into_members strict fs a x) (into_members strict fs b)"
  by (induction a arbitrary: x) (auto split: option.split)

lemma read_member:
  assumes "struct_field fs k = Some (at_field into get upd)" "into (raw_of v) (get x) = Some y"
  shows "into_members strict fs [raw_member (k, v)] x = Some (upd (\<lambda>_. y) x)"
  using assms by (simp add: raw_member_def at_field_def)

lemma read_omitted:
  assumes "struct_field fs k = Some (at_field into get upd)" "\<not> e \<Longrightarrow> into (raw_of v) (get x) = Some y"
    and "e \<Longrightarrow> upd (\<lambda>_. y) x = x"
  shows "into_members strict fs (map raw_member (omit_empty e (k, v))) x = Some (upd (\<lambda>_. y) x)"
  using assms by (auto simp: omit_empty_def raw_member_def at_field_def)

lemma read_int: "i64 i \<Longrightarrow> into_int (raw_of (JInt i)) x = Some i"
  by (simp add: Atoi_Itoa)

lemma valid_utf8_ascii: "\<forall>c \<in> set k. byte c < 0x80 \<Longrightarrow> valid_utf8 k"
  by (induction k) (simp_all add: valid_utf8_rune [of "[_]", simplified] rune_ok_def)

section \<open>Laws of the numbers\<close>

lemma rne_nonneg: "0 \<le> x \<Longrightarrow> 0 \<le> rne x"
  by (auto simp: rne_def Let_def)

lemma float64_finite: "float64 x = Some y \<Longrightarrow> \<bar>y\<bar> < 2 ^ 1024"
proof -
  assume f: "float64 x = Some y"
  show ?thesis
  proof (cases "x = 0")
    case False
    define r :: rat where "r = of_int (rne (\<bar>x\<bar> * 2 powi (52 - max (expo \<bar>x\<bar>) (- 1022)))) * 2 powi (max (expo \<bar>x\<bar>) (- 1022) - 52)"
    have "0 \<le> r" unfolding r_def by (intro mult_nonneg_nonneg) (simp_all add: rne_nonneg)
    moreover have "\<not> 2 ^ 1024 \<le> r" "y = sgn x * r"
      using f False unfolding float64_def Let_def r_def [symmetric] by (auto split: if_splits)
    ultimately show ?thesis using False by (simp add: abs_mult abs_sgn_eq)
  qed (use f in \<open>simp add: float64_def\<close>)
qed

lemma ParseFloat_finite: "ParseFloat s = Some y \<Longrightarrow> \<bar>y\<bar> < 2 ^ 1024"
proof -
  assume "ParseFloat s = Some y"
  then have "\<exists>x. float64 x = Some y" by (auto simp: ParseFloat_def Let_def split: prod.splits)
  then show ?thesis using float64_finite by blast
qed

text \<open>Integers of at most 53 bits are read exactly.\<close>

lemma float64_int: "\<bar>z\<bar> < 2 ^ 53 \<Longrightarrow> float64 (of_int z) = Some (of_int z)"
proof (cases "z = 0")
  case False
  assume z: "\<bar>z\<bar> < 2 ^ 53"
  define y :: rat where "y = of_int \<bar>z\<bar>"
  define r :: rat where "r = of_int (rne (y * 2 powi (52 - expo y))) * 2 powi (expo y - 52)"
  have y: "1 \<le> y" "y < 2 ^ 53" "y < 2 powi (expo y + 1)"
    using False z expo_bounds [of y] by (auto simp: y_def simp flip: of_int_abs)
  then have "0 \<le> expo y"
    using power_int_increasing [of "expo y + 1" 0 "2 :: rat"] by (cases "0 \<le> expo y") auto
  then have e: "max (expo y) (- 1022) = expo y" by simp
  have s: "sgn (of_int z) * r = of_int z"
    using fl_of_int [OF z] False by (simp add: fl_def r_def y_def Let_def)
  then have "r = y" using False by (simp add: y_def sgn_if split: if_splits)
  moreover have "(2 :: rat) ^ 53 \<le> 2 ^ 1024" by (rule power_increasing) simp_all
  ultimately have "\<not> 2 ^ 1024 \<le> r" using y(2) by linarith
  then show ?thesis
    using False s unfolding float64_def Let_def of_int_abs [symmetric] y_def [symmetric] e r_def [symmetric] by simp
qed (simp add: float64_def)

lemma ParseFloat_digits:
  assumes "list_all is_digit t" "t \<noteq> []"
  shows "ParseFloat t = float64 (of_nat (digits_val 0 t))" "ParseFloat (CHR ''-'' # t) = float64 (- of_nat (digits_val 0 t))"
proof -
  obtain c s where c: "t = c # s" using assms(2) by (cases t) auto
  then have "c \<noteq> CHR ''-''" using assms(1) by (auto simp: is_digit_def)
  then have m: "(case t of [] \<Rightarrow> (False, []) | c # u \<Rightarrow> if c = CHR ''-'' then (True, u) else (False, t)) = (False, t)"
    using c by simp
  have d: "takeWhile is_digit t = t" "dropWhile is_digit t = []" using assms(1) by (simp_all add: list_all_iff)
  show "ParseFloat t = float64 (of_nat (digits_val 0 t))" unfolding ParseFloat_def m by (simp add: d Let_def)
  show "ParseFloat (CHR ''-'' # t) = float64 (- of_nat (digits_val 0 t))" by (simp add: ParseFloat_def d Let_def)
qed

lemma ParseFloat_Itoa:
  assumes "\<bar>z\<bar> < 2 ^ 53"
  shows "ParseFloat (Itoa z) = Some (of_int z)"
proof -
  note digits = nat_str_digits [of "nat z", THEN conjunct1] nat_str_digits [of "nat z", THEN conjunct2]
    nat_str_digits [of "nat (- z)", THEN conjunct1] nat_str_digits [of "nat (- z)", THEN conjunct2]
  have "ParseFloat (Itoa z) = float64 (of_int z)"
    using ParseFloat_digits(1) [OF digits(1,2)] ParseFloat_digits(2) [OF digits(3,4)]
    by (simp add: Itoa_def digits_val_nat_str of_nat_nat)
  then show ?thesis using float64_int [OF assms] by simp
qed

lemma Decode_Some:
  "Decode into limit body x = Some y \<longleftrightarrow> (\<exists>v rest. scan_value maxNestingDepth (take (nat limit) body) = Some (v, rest) \<and>
     into v x = Some y \<and> \<not> (nat limit < length body \<and> rest = [] \<and> is_scalar v))"
  by (auto simp: Decode_def Let_def min_def split: option.split if_splits)

lemma Decode_whole:
  "int (length body) \<le> limit \<Longrightarrow> scan_value 8 body = Some (v, rest) \<Longrightarrow> Decode into limit body x = into v x"
  using scan_value_deep [of body] by (simp add: Decode_def Let_def)

text \<open>A text with \<open>~\<close> for a quotation mark and \<open>^\<close> for a backslash.\<close>

definition quoted :: "string \<Rightarrow> string" where
  "quoted s = map (\<lambda>c. if c = CHR ''~'' then DQT else if c = CHR ''^'' then BSL else c) s"

text \<open>What evaluates the scanner on a concrete text.\<close>

lemma skip_blanks_simps [go_scan]:
  "skip_blanks [] = []" "skip_blanks (c # s) = (if is_blank c then skip_blanks s else c # s)"
  by (simp_all add: skip_blanks_def)

lemmas [go_scan] = scan_value.simps scan_items.simps scan_members.simps scan_scalar_def scan_word_def is_blank_def
  scan_number_def scan_then_def scan_integer_def scan_digits_def scan_fraction_def scan_exponent_def is_digit_def
  DQT_def BSL_def

lemmas [go_scan] = go.read_quote [unfolded DQT_def] go.read_plain [unfolded DQT_def BSL_def]
  go.read_simple [unfolded BSL_def] go.read_u [unfolded BSL_def]

end
