(* ===== verification/Request_Text.thy ===== *)
theory Request_Text
  imports Json_Decode Api
begin

text \<open>
  The body of \<open>POST /run\<close>: the JSON tags of \<open>Request\<close> and \<open>TestCase\<close> (\<open>types.go\<close>) as field
  tables of the decoder, and the decoder \<open>Server.run\<close> sets up (a limit on the body, unknown
  fields refused). \<open>Decode_request\<close> is what \<open>Server_run\<close> takes as its argument \<open>decode\<close>; the wording
  of the decoder's errors is left open (\<open>msg\<close>). \<open>request_json\<close> is the same struct as
  \<open>encoding/json\<close> writes it on the client's side.
\<close>

section \<open>The decoder of a request\<close>

definition test_case_fields :: "test_case fields" where
  "test_case_fields =
     [(''input'', at_field into_string tc_Input tc_Input_update),
      (''expected_output'', at_field into_string tc_ExpectedOutput tc_ExpectedOutput_update),
      (''time_limit_s'', at_field into_int tc_TimeLimitS tc_TimeLimitS_update),
      (''memory_kb'', at_field into_int tc_MemoryKB tc_MemoryKB_update)]"

definition zero_test_case :: test_case where
  "zero_test_case = \<lparr>tc_Input = [], tc_ExpectedOutput = [], tc_TimeLimitS = 0, tc_MemoryKB = 0\<rparr>"

text \<open>A request while it is decoded: its slices with what their arrays hold beyond the end.\<close>

record request_target =
  rt_Language :: string
  rt_Source :: string
  rt_BuildFlags :: "string slice"
  rt_RunFlags :: "string slice"
  rt_TestCases :: "test_case slice"
  rt_TimeLimitS :: int
  rt_MemoryKB :: int

definition request_fields :: "request_target fields" where
  "request_fields =
     [(''language'', at_field into_string rt_Language rt_Language_update),
      (''source'', at_field into_string rt_Source rt_Source_update),
      (''build_flags'', at_field (into_slice into_string []) rt_BuildFlags rt_BuildFlags_update),
      (''run_flags'', at_field (into_slice into_string []) rt_RunFlags rt_RunFlags_update),
      (''test_cases'', at_field (into_slice (into_struct True test_case_fields) zero_test_case)
         rt_TestCases rt_TestCases_update),
      (''time_limit_s'', at_field into_int rt_TimeLimitS rt_TimeLimitS_update),
      (''memory_kb'', at_field into_int rt_MemoryKB rt_MemoryKB_update)]"

definition empty_slice :: "'a slice" where
  "empty_slice = \<lparr>sl_elems = [], sl_spare = []\<rparr>"

definition zero_request :: request_target where
  "zero_request = \<lparr>rt_Language = [], rt_Source = [], rt_BuildFlags = empty_slice, rt_RunFlags = empty_slice,
     rt_TestCases = empty_slice, rt_TimeLimitS = 0, rt_MemoryKB = 0\<rparr>"

definition request_of :: "request_target \<Rightarrow> request" where
  "request_of t = \<lparr>rq_Language = rt_Language t, rq_Source = rt_Source t,
     rq_BuildFlags = sl_elems (rt_BuildFlags t), rq_RunFlags = sl_elems (rt_RunFlags t),
     rq_TestCases = sl_elems (rt_TestCases t), rq_TimeLimitS = rt_TimeLimitS t, rq_MemoryKB = rt_MemoryKB t\<rparr>"

definition Decode_request :: "(int \<Rightarrow> string \<Rightarrow> string) \<Rightarrow> int \<Rightarrow> string \<Rightarrow> string + request" where
  "Decode_request msg limit body =
     (case Decode (into_struct True request_fields) limit body zero_request of
        None \<Rightarrow> Inl (msg limit body)
      | Some t \<Rightarrow> Inr (request_of t))"

section \<open>A request as its client writes it\<close>

definition test_case_json :: "test_case \<Rightarrow> json" where
  "test_case_json tc = JObj
     ([(''input'', JStr (tc_Input tc)), (''expected_output'', JStr (tc_ExpectedOutput tc))]
      @ omit_empty (tc_TimeLimitS tc = 0) (''time_limit_s'', JInt (tc_TimeLimitS tc))
      @ omit_empty (tc_MemoryKB tc = 0) (''memory_kb'', JInt (tc_MemoryKB tc)))"

definition request_json :: "request \<Rightarrow> json" where
  "request_json r = JObj
     ([(''language'', JStr (rq_Language r)), (''source'', JStr (rq_Source r))]
      @ omit_empty (rq_BuildFlags r = []) (''build_flags'', JArr (map JStr (rq_BuildFlags r)))
      @ omit_empty (rq_RunFlags r = []) (''run_flags'', JArr (map JStr (rq_RunFlags r)))
      @ omit_empty (rq_TestCases r = []) (''test_cases'', JArr (map test_case_json (rq_TestCases r)))
      @ omit_empty (rq_TimeLimitS r = 0) (''time_limit_s'', JInt (rq_TimeLimitS r))
      @ omit_empty (rq_MemoryKB r = 0) (''memory_kb'', JInt (rq_MemoryKB r)))"

text \<open>What a Go value of these types is: UTF-8 strings as the decoder makes them, 64-bit integers.\<close>

definition plain_test_case :: "test_case \<Rightarrow> bool" where
  "plain_test_case tc \<longleftrightarrow> valid_utf8 (tc_Input tc) \<and> valid_utf8 (tc_ExpectedOutput tc) \<and>
     i64 (tc_TimeLimitS tc) \<and> i64 (tc_MemoryKB tc)"

definition plain_request :: "request \<Rightarrow> bool" where
  "plain_request r \<longleftrightarrow> valid_utf8 (rq_Language r) \<and> valid_utf8 (rq_Source r) \<and>
     (\<forall>f \<in> set (rq_BuildFlags r) \<union> set (rq_RunFlags r). valid_utf8 f) \<and>
     (\<forall>tc \<in> set (rq_TestCases r). plain_test_case tc) \<and> i64 (rq_TimeLimitS r) \<and> i64 (rq_MemoryKB r)"

section \<open>Laws\<close>

lemma test_case_fields_keep: "\<forall>(n, f) \<in> set test_case_fields. keeps plain_test_case f"
  by (auto simp: test_case_fields_def keeps_def at_field_def plain_test_case_def dest: into_string_valid into_int_i64)

definition plain_target :: "request_target \<Rightarrow> bool" where
  "plain_target t \<longleftrightarrow> valid_utf8 (rt_Language t) \<and> valid_utf8 (rt_Source t) \<and>
     slice_all valid_utf8 (rt_BuildFlags t) \<and> slice_all valid_utf8 (rt_RunFlags t) \<and>
     slice_all plain_test_case (rt_TestCases t) \<and> i64 (rt_TimeLimitS t) \<and> i64 (rt_MemoryKB t)"

lemma request_fields_keep: "\<forall>(n, f) \<in> set request_fields. keeps plain_target f"
proof -
  have s: "keeps valid_utf8 into_string" "valid_utf8 []" by (auto simp: keeps_def dest: into_string_valid)
  have t: "keeps plain_test_case (into_struct True test_case_fields)" "plain_test_case zero_test_case"
    using into_struct_keeps [OF test_case_fields_keep] by (simp_all add: zero_test_case_def plain_test_case_def i64_def)
  show ?thesis
    by (auto simp: request_fields_def keeps_def at_field_def plain_target_def
        dest: into_string_valid into_int_i64 into_slice_all [OF s] into_slice_all [OF t])
qed

lemma zero_request_plain: "plain_target zero_request"
  by (simp add: zero_request_def plain_target_def empty_slice_def slice_all_def i64_def)

lemma plain_request_of: "plain_target t \<Longrightarrow> plain_request (request_of t)"
  by (auto simp: plain_target_def plain_request_def request_of_def slice_all_def)

lemma into_elems_fresh:
  assumes "\<forall>x \<in> set xs. f (g x) z = Some x"
  shows "into_elems f z (map g xs) [] = Some \<lparr>sl_elems = xs, sl_spare = []\<rparr>"
  using assms by (induction xs) simp_all

lemma read_array:
  assumes "\<forall>x \<in> set xs. f (raw_of (g x)) z = Some x"
  shows "into_slice f z (raw_of (JArr (map g xs))) empty_slice = Some \<lparr>sl_elems = xs, sl_spare = []\<rparr>"
  using into_elems_fresh [of xs f "\<lambda>x. raw_of (g x)" z] assms
  by (cases xs) (simp_all add: empty_slice_def comp_def)

lemma test_case_field:
  "struct_field test_case_fields ''input'' = Some (at_field into_string tc_Input tc_Input_update)"
  "struct_field test_case_fields ''expected_output'' = Some (at_field into_string tc_ExpectedOutput tc_ExpectedOutput_update)"
  "struct_field test_case_fields ''time_limit_s'' = Some (at_field into_int tc_TimeLimitS tc_TimeLimitS_update)"
  "struct_field test_case_fields ''memory_kb'' = Some (at_field into_int tc_MemoryKB tc_MemoryKB_update)"
  by (simp_all add: struct_field_def test_case_fields_def)

lemma request_field:
  "struct_field request_fields ''language'' = Some (at_field into_string rt_Language rt_Language_update)"
  "struct_field request_fields ''source'' = Some (at_field into_string rt_Source rt_Source_update)"
  "struct_field request_fields ''build_flags'' = Some (at_field (into_slice into_string []) rt_BuildFlags rt_BuildFlags_update)"
  "struct_field request_fields ''run_flags'' = Some (at_field (into_slice into_string []) rt_RunFlags rt_RunFlags_update)"
  "struct_field request_fields ''test_cases'' = Some (at_field (into_slice (into_struct True test_case_fields) zero_test_case)
     rt_TestCases rt_TestCases_update)"
  "struct_field request_fields ''time_limit_s'' = Some (at_field into_int rt_TimeLimitS rt_TimeLimitS_update)"
  "struct_field request_fields ''memory_kb'' = Some (at_field into_int rt_MemoryKB rt_MemoryKB_update)"
  by (simp_all add: struct_field_def request_fields_def)

lemma read_test_case:
  assumes "plain_test_case tc"
  shows "into_struct True test_case_fields (raw_of (test_case_json tc)) zero_test_case = Some tc"
proof -
  have i: "i64 (tc_TimeLimitS tc)" "i64 (tc_MemoryKB tc)" using assms by (simp_all add: plain_test_case_def)
  let ?s = "\<lparr>tc_Input = tc_Input tc, tc_ExpectedOutput = tc_ExpectedOutput tc, tc_TimeLimitS = 0, tc_MemoryKB = 0\<rparr>"
  have "into_members True test_case_fields [raw_member (''input'', JStr (tc_Input tc)),
      raw_member (''expected_output'', JStr (tc_ExpectedOutput tc))] zero_test_case = Some ?s"
    by (simp add: raw_member_def test_case_field at_field_def zero_test_case_def)
  moreover have "into_members True test_case_fields
      (map raw_member (omit_empty (tc_TimeLimitS tc = 0) (''time_limit_s'', JInt (tc_TimeLimitS tc)))) ?s =
      Some (?s\<lparr>tc_TimeLimitS := tc_TimeLimitS tc\<rparr>)"
    by (rule read_omitted [OF test_case_field(3)]) (use i in \<open>simp_all add: Atoi_Itoa\<close>)
  moreover have "into_members True test_case_fields
      (map raw_member (omit_empty (tc_MemoryKB tc = 0) (''memory_kb'', JInt (tc_MemoryKB tc))))
      (?s\<lparr>tc_TimeLimitS := tc_TimeLimitS tc\<rparr>) = Some (?s\<lparr>tc_TimeLimitS := tc_TimeLimitS tc, tc_MemoryKB := tc_MemoryKB tc\<rparr>)"
    by (rule read_omitted [OF test_case_field(4)]) (use i in \<open>simp_all add: Atoi_Itoa\<close>)
  ultimately show ?thesis
    unfolding test_case_json_def raw_of_JObj into_struct.simps map_append list.map into_members_append
    by (simp del: into_members.simps)
qed

lemma read_request:
  assumes "plain_request r"
  shows "\<exists>t. into_struct True request_fields (raw_of (request_json r)) zero_request = Some t \<and> request_of t = r"
proof -
  have i: "i64 (rq_TimeLimitS r)" "i64 (rq_MemoryKB r)" using assms by (simp_all add: plain_request_def)
  have tcs: "into_slice (into_struct True test_case_fields) zero_test_case (raw_of (JArr (map test_case_json (rq_TestCases r)))) empty_slice =
      Some \<lparr>sl_elems = rq_TestCases r, sl_spare = []\<rparr>"
    by (rule read_array) (use assms read_test_case in \<open>auto simp: plain_request_def simp del: raw_of.simps\<close>)
  have strs: "into_slice into_string [] (raw_of (JArr (map JStr xs))) empty_slice = Some \<lparr>sl_elems = xs, sl_spare = []\<rparr>" for xs
    by (rule read_array) simp
  let ?s = "\<lambda>xs. \<lparr>sl_elems = xs, sl_spare = []\<rparr>"
  let ?t = "\<lambda>bf rf tcs tl. \<lparr>rt_Language = rq_Language r, rt_Source = rq_Source r, rt_BuildFlags = ?s bf, rt_RunFlags = ?s rf,
    rt_TestCases = ?s tcs, rt_TimeLimitS = tl, rt_MemoryKB = 0\<rparr>"
  let ?read = "\<lambda>e kv x y. into_members True request_fields (map raw_member (omit_empty e kv)) x = Some y"
  have "into_members True request_fields [raw_member (''language'', JStr (rq_Language r)),
      raw_member (''source'', JStr (rq_Source r))] zero_request = Some (?t [] [] [] 0)"
    by (simp add: raw_member_def request_field at_field_def zero_request_def empty_slice_def)
  moreover have "?read (rq_BuildFlags r = []) (''build_flags'', JArr (map JStr (rq_BuildFlags r)))
      (?t [] [] [] 0) ((?t [] [] [] 0)\<lparr>rt_BuildFlags := ?s (rq_BuildFlags r)\<rparr>)"
    by (rule read_omitted [OF request_field(3)])
       (use strs in \<open>simp_all add: empty_slice_def del: raw_of.simps\<close>)
  moreover have "?read (rq_RunFlags r = []) (''run_flags'', JArr (map JStr (rq_RunFlags r)))
      (?t (rq_BuildFlags r) [] [] 0) ((?t (rq_BuildFlags r) [] [] 0)\<lparr>rt_RunFlags := ?s (rq_RunFlags r)\<rparr>)"
    by (rule read_omitted [OF request_field(4)])
       (use strs in \<open>simp_all add: empty_slice_def del: raw_of.simps\<close>)
  moreover have "?read (rq_TestCases r = []) (''test_cases'', JArr (map test_case_json (rq_TestCases r)))
      (?t (rq_BuildFlags r) (rq_RunFlags r) [] 0)
      ((?t (rq_BuildFlags r) (rq_RunFlags r) [] 0)\<lparr>rt_TestCases := ?s (rq_TestCases r)\<rparr>)"
    by (rule read_omitted [OF request_field(5)])
       (use tcs in \<open>simp_all add: empty_slice_def del: raw_of.simps\<close>)
  moreover have "?read (rq_TimeLimitS r = 0) (''time_limit_s'', JInt (rq_TimeLimitS r))
      (?t (rq_BuildFlags r) (rq_RunFlags r) (rq_TestCases r) 0)
      ((?t (rq_BuildFlags r) (rq_RunFlags r) (rq_TestCases r) 0)\<lparr>rt_TimeLimitS := rq_TimeLimitS r\<rparr>)"
    by (rule read_omitted [OF request_field(6)]) (use i in \<open>simp_all add: Atoi_Itoa\<close>)
  moreover have "?read (rq_MemoryKB r = 0) (''memory_kb'', JInt (rq_MemoryKB r))
      (?t (rq_BuildFlags r) (rq_RunFlags r) (rq_TestCases r) (rq_TimeLimitS r))
      ((?t (rq_BuildFlags r) (rq_RunFlags r) (rq_TestCases r) (rq_TimeLimitS r))\<lparr>rt_MemoryKB := rq_MemoryKB r\<rparr>)"
    by (rule read_omitted [OF request_field(7)]) (use i in \<open>simp_all add: Atoi_Itoa\<close>)
  ultimately have "into_struct True request_fields (raw_of (request_json r)) zero_request =
      Some (?t (rq_BuildFlags r) (rq_RunFlags r) (rq_TestCases r) (rq_TimeLimitS r) \<lparr>rt_MemoryKB := rq_MemoryKB r\<rparr>)"
    unfolding request_json_def raw_of_JObj into_struct.simps map_append list.map into_members_append
    by (simp del: into_members.simps)
  then show ?thesis by (intro exI conjI) (assumption, simp add: request_of_def)
qed

lemma nesting_request: "nesting (request_json r) \<le> maxNestingDepth"
proof -
  have "nesting (test_case_json tc) \<le> 1" for tc
    by (auto simp: test_case_json_def nesting_le omit_empty_def simp del: nesting.simps(1,2)) 
  then have "nesting (JArr (map test_case_json tcs)) \<le> 2" "nesting (JArr (map JStr ss)) \<le> 2" for tcs ss
    by (simp_all add: nesting_le del: nesting.simps(1,2))
  then have "nesting (request_json r) \<le> 3"
    by (auto simp: request_json_def nesting_le omit_empty_def simp del: nesting.simps(1,2))
  then show ?thesis by (simp add: maxNestingDepth_def)
qed

lemma valid_request_json: "plain_request r \<Longrightarrow> valid_json (request_json r)"
proof -
  assume r: "plain_request r"
  have names: "valid_utf8 ''language''" "valid_utf8 ''source''" "valid_utf8 ''build_flags''" "valid_utf8 ''run_flags''"
    "valid_utf8 ''test_cases''" "valid_utf8 ''time_limit_s''" "valid_utf8 ''memory_kb''" "valid_utf8 ''input''"
    "valid_utf8 ''expected_output''"
    by (rule valid_utf8_ascii; simp)+
  have "valid_json (test_case_json tc)" if "tc \<in> set (rq_TestCases r)" for tc
    using r that by (auto simp: test_case_json_def plain_request_def plain_test_case_def omit_empty_def names)
  then show ?thesis using r by (auto simp: request_json_def plain_request_def omit_empty_def names)
qed

lemma decode_request_text:
  assumes "plain_request r" "int (length (json_text (request_json r))) \<le> limit"
  shows "Decode_request msg limit (json_text (request_json r) @ rest) = Inr r"
proof -
  let ?t = "json_text (request_json r)"
  obtain t where t: "into_struct True request_fields (raw_of (request_json r)) zero_request = Some t" "request_of t = r"
    using read_request [OF assms(1)] by blast
  have "take (nat limit) (?t @ rest) = ?t @ take (nat limit - length ?t) rest" using assms(2) by simp
  then have "scan_value maxNestingDepth (take (nat limit) (?t @ rest)) =
      Some (raw_of (request_json r), take (nat limit - length ?t) rest)"
    using scan_value_text [OF _ nesting_request valid_request_json [OF assms(1)]] by (simp add: request_json_def)
  moreover have "\<not> is_scalar (raw_of (request_json r))" by (simp add: request_json_def)
  ultimately have "Decode (into_struct True request_fields) limit (?t @ rest) zero_request = Some t"
    using t(1) unfolding Decode_Some by blast
  then show ?thesis using t(2) by (simp add: Decode_request_def)
qed

section \<open>Properties\<close>

text \<open>C23. The decoder of request bodies only lets well-formed requests through: every string is
  valid UTF-8, every integer fits 64 bits, and the body began with null or with an object whose
  members all name a field of the request, up to the case of their letters.\<close>

theorem decoded_request_is_well_formed:
  assumes "Decode_request msg limit body = Inr r"
  shows "plain_request r \<and>
    (\<exists>v rest. scan_value 10000 (take (nat limit) body) = Some (v, rest) \<and>
      (v = RNull \<or> (\<exists>kvs. v = RObj kvs \<and> (\<forall>(k, w) \<in> set kvs. fold_name k \<in>
        {''LANGUAGE'', ''SOURCE'', ''BUILD_FLAGS'', ''RUN_FLAGS'', ''TEST_CASES'', ''TIME_LIMIT_S'', ''MEMORY_KB''}))))"
proof -
  obtain t v rest where t: "scan_value maxNestingDepth (take (nat limit) body) = Some (v, rest)"
    "into_struct True request_fields v zero_request = Some t" "r = request_of t"
    using assms by (auto simp: Decode_request_def Decode_Some split: option.splits)
  have "plain_request r"
    using keepsD [OF into_struct_keeps [OF request_fields_keep] t(2) scan_valid(1) [OF t(1)] zero_request_plain] t(3)
    by (simp add: plain_request_of)
  moreover have "v = RNull \<or> (\<exists>kvs. v = RObj kvs)" using t(2) by (cases v) auto
  moreover have "fold_name ` fst ` set request_fields =
      {''LANGUAGE'', ''SOURCE'', ''BUILD_FLAGS'', ''RUN_FLAGS'', ''TEST_CASES'', ''TIME_LIMIT_S'', ''MEMORY_KB''}"
  proof -
    have "map (\<lambda>f. fold_name (fst f)) request_fields =
      [''LANGUAGE'', ''SOURCE'', ''BUILD_FLAGS'', ''RUN_FLAGS'', ''TEST_CASES'', ''TIME_LIMIT_S'', ''MEMORY_KB'']"
      unfolding request_fields_def list.map fst_conv by code_simp
    from arg_cong [OF this, of set] show ?thesis by (simp only: set_map image_image list.set)
  qed
  moreover have "fold_name (fst kv) \<in> fold_name ` fst ` set request_fields" if "v = RObj kvs" "kv \<in> set kvs" for kvs kv
    using into_members_known [of request_fields kvs zero_request t kv] t(2) that
    by (metis (no_types) image_eqI into_struct.simps(1))
  ultimately show ?thesis using t(1) unfolding maxNestingDepth_def case_prod_beta by metis
qed

definition loud_body :: string where
  "loud_body = quoted ''{~SOURCE~:~^u0041~, ~run_flags~:[null]} x''"

lemma loud_body_scanned: "scan_value 8 loud_body =
    Some (RObj [(''SOURCE'', RStr ''A''), (''run_flags'', RArr [RNull])], '' x'')"
proof -
  have "hex_value CHR ''0'' = Some 0" "hex_value CHR ''4'' = Some 4" "hex_value CHR ''1'' = Some 1"
    "char_of (65 :: nat) = CHR ''A''" by code_simp+
  moreover from this have "utf8 65 = ''A''" by (simp add: utf8_ascii)
  ultimately show ?thesis by (simp add: loud_body_def quoted_def go_scan)
qed

definition loud_target :: request_target where
  "loud_target = zero_request\<lparr>rt_Source := ''A'', rt_RunFlags := \<lparr>sl_elems = [[]], sl_spare = []\<rparr>\<rparr>"

lemma loud_body_decoded: "into_struct True request_fields
    (RObj [(''SOURCE'', RStr ''A''), (''run_flags'', RArr [RNull])]) zero_request = Some loud_target"
  by code_simp

theorem decoded_request_is_well_formed_witness:
  "\<exists>r. Decode_request (\<lambda>_ _. []) 262144 loud_body = Inr r \<and> plain_request r \<and> rq_RunFlags r = [[]]"
proof -
  have l: "int (length loud_body) \<le> 262144" by code_simp
  have d: "Decode_request (\<lambda>_ _. []) 262144 loud_body = Inr (request_of loud_target)"
    by (simp add: Decode_request_def Decode_whole [OF l loud_body_scanned] loud_body_decoded del: into_struct.simps)
  moreover have "plain_request (request_of loud_target)"
    using decoded_request_is_well_formed [OF d] by (rule conjunct1)
  ultimately show ?thesis by (intro exI conjI) (assumption, assumption, simp add: request_of_def loud_target_def)
qed

text \<open>C21. Over the wire and back: the JSON text of a request within the body limit, posted to /run,
  makes the executor run exactly that request, whatever follows it in the body and however long
  that is; the text of a 200 answer is the JSON of the response the executor returned, and an
  error of the executor is never a 200.\<close>

theorem posted_request_is_run:
  assumes "reg_ok reg" "exec_ok cfg st" "plain_request r" "rq_Language r \<noteq> []" "rq_Source r \<noteq> []"
    and "int (length (json_text (request_json r))) \<le> body_limit cfg"
  shows "\<exists>resp err st' a.
    Run env cfg reg (cf_RequestTimeout cfg # rctx) r st = (Ret (resp, err), st') \<and>
    Server_run env pr (Decode_request msg) cfg reg rctx (json_text (request_json r) @ rest) st = (Ret a, st') \<and>
    (hr_code a = 200 \<longleftrightarrow> err = None) \<and>
    (err = None \<longrightarrow> read_json (body_text a) = Some (clean_json (response_json resp)))"
proof -
  have d: "Decode_request msg (body_limit cfg) (json_text (request_json r) @ rest) = Inr r"
    using decode_request_text [OF assms(3,6)] .
  obtain resp err st' where run: "Run env cfg reg (cf_RequestTimeout cfg # rctx) r st = (Ret (resp, err), st')"
    using Run_Ret [OF assms(1,2), of env "cf_RequestTimeout cfg # rctx" r] by (metis prod.collapse)
  have "Server_run env pr (Decode_request msg) cfg reg rctx (json_text (request_json r) @ rest) st = (Ret (run_answer pr (resp, err)), st')"
    by (rule Server_run_Run [where decode = "Decode_request msg", OF d assms(4,5) run])
  moreover have "hr_code (run_answer pr (resp, err)) = 200 \<longleftrightarrow> err = None"
    by (simp add: run_answer_def run_error_code split: option.split)
  moreover have "err = None \<longrightarrow> read_json (body_text (run_answer pr (resp, err))) = Some (clean_json (response_json resp))"
    by (simp add: run_answer_def body_text_def read_json_Encode)
  ultimately show ?thesis using run by blast
qed

theorem posted_request_is_run_witness:
  "\<exists>resp st' a. Run sample_env sample_config sample_registry [cf_RequestTimeout sample_config] modest_request sample_state =
      (Ret (resp, None), st') \<and>
    Server_run sample_env (\<lambda>_. True) (Decode_request (\<lambda>_ _. [])) sample_config sample_registry []
      (json_text (request_json modest_request) @ ''{'') sample_state = (Ret a, st') \<and> hr_code a = 200"
proof -
  have f: "plain_request modest_request" by code_simp
  have l: "int (length (json_text (request_json modest_request))) \<le> body_limit sample_config" by code_simp
  have n: "rq_Language modest_request \<noteq> []" "rq_Source modest_request \<noteq> []"
    by (simp_all add: modest_request_def sample_request_def)
  obtain resp st' where "Run sample_env sample_config sample_registry [cf_RequestTimeout sample_config] modest_request sample_state =
      (Ret (resp, None), st')" using modest_answer by blast
  then show ?thesis
    using posted_request_is_run [OF sample_reg_ok sample_exec_ok f n l, of sample_env "[]" "\<lambda>_. True" "\<lambda>_ _. []"] by auto
qed

end
