(* ===== verification/Job_Text.thy ===== *)
theory Job_Text
  imports Json_Decode Worker
begin

text \<open>
  The body of a queue message: the JSON tags of \<open>Job\<close> (\<open>job.go\<close>) as a field table of the decoder,
  and \<open>json.Unmarshal\<close> into a job as \<open>handleMessage\<close> calls it. \<open>Unmarshal_job\<close> is what \<open>worker_env\<close>
  holds as \<open>we_unmarshal\<close>; \<open>order\<close> is the order in which the loop of \<open>buildRequest\<close> happens to range
  over the decoded map, and the wording of the errors is left open (\<open>msg\<close>). \<open>tells_job\<close> says when a
  text stands for a job, whatever its publisher; the text of \<open>docs/api.md\<close> is an instance.
\<close>

section \<open>The decoder of a job\<close>

definition job_fields :: "job fields" where
  "job_fields =
     [(''jobId'', at_field into_string j_JobID j_JobID_update),
      (''type'', at_field into_string j_Type j_Type_update),
      (''sourceCode'', at_field into_string j_SourceCode j_SourceCode_update),
      (''language'', at_field into_string j_Language j_Language_update),
      (''stdin'', at_field into_string j_Stdin j_Stdin_update),
      (''testCases'', at_field into_map j_TestCases j_TestCases_update),
      (''timeLimitSeconds'', at_field into_float_ptr j_TimeLimitSeconds j_TimeLimitSeconds_update),
      (''memoryLimitKb'', at_field into_int_ptr j_MemoryLimitKb j_MemoryLimitKb_update),
      (''userId'', at_field into_string j_UserID j_UserID_update),
      (''queuedAt'', at_field into_int j_QueuedAt j_QueuedAt_update)]"

definition zero_job :: job where
  "zero_job = \<lparr>j_JobID = [], j_Type = [], j_SourceCode = [], j_Language = [], j_Stdin = [], j_TestCases = [],
     j_TimeLimitSeconds = None, j_MemoryLimitKb = None, j_UserID = [], j_QueuedAt = 0\<rparr>"

definition Unmarshal_job ::
  "(string \<Rightarrow> string) \<Rightarrow> ((string \<times> string) list \<Rightarrow> (string \<times> string) list) \<Rightarrow> string \<Rightarrow> string + job" where
  "Unmarshal_job msg order body =
     (case Unmarshal (into_struct False job_fields) body zero_job of
        None \<Rightarrow> Inl (msg body)
      | Some j \<Rightarrow> Inr (j\<lparr>j_TestCases := order (j_TestCases j)\<rparr>))"

definition is_order :: "('a list \<Rightarrow> 'a list) \<Rightarrow> bool" where
  "is_order order \<longleftrightarrow> (\<forall>xs. mset (order xs) = mset xs)"

section \<open>What a message says\<close>

text \<open>
  The job a message stands for, whoever wrote it and however: the members of its object in any
  order, any white space and escapes, numbers in any form - the front end of the repository
  writes \<open>2.0\<close> for two seconds -, optional members left out or null, members unknown to \<open>Job\<close>
  besides. \<open>told n v j\<close>: the member \<open>n\<close> with value \<open>v\<close>, if it is there, says what \<open>j\<close> holds.
\<close>

definition job_names :: "string list" where
  "job_names = [''jobId'', ''type'', ''sourceCode'', ''language'', ''stdin'', ''testCases'', ''timeLimitSeconds'',
     ''memoryLimitKb'', ''userId'', ''queuedAt'']"

definition absent :: "raw option \<Rightarrow> bool" where
  "absent v \<longleftrightarrow> v = None \<or> v = Some RNull"

definition told_text :: "raw option \<Rightarrow> string \<Rightarrow> bool" where
  "told_text v s \<longleftrightarrow> v = Some (RStr s) \<or> absent v \<and> s = []"

definition told :: "string \<Rightarrow> raw option \<Rightarrow> job \<Rightarrow> bool" where
  "told n v j \<longleftrightarrow>
     (n = ''jobId'' \<longrightarrow> told_text v (j_JobID j)) \<and>
     (n = ''type'' \<longrightarrow> told_text v (j_Type j)) \<and>
     (n = ''sourceCode'' \<longrightarrow> told_text v (j_SourceCode j)) \<and>
     (n = ''language'' \<longrightarrow> told_text v (j_Language j)) \<and>
     (n = ''stdin'' \<longrightarrow> told_text v (j_Stdin j)) \<and>
     (n = ''testCases'' \<longrightarrow>
        v = Some (RObj (map (\<lambda>(i, e). (i, RStr e)) (j_TestCases j))) \<and> distinct (map fst (j_TestCases j)) \<or>
        absent v \<and> j_TestCases j = []) \<and>
     (n = ''timeLimitSeconds'' \<longrightarrow>
        (\<exists>l x. v = Some (RNum l) \<and> ParseFloat l = Some x \<and> j_TimeLimitSeconds j = Some x) \<or>
        absent v \<and> j_TimeLimitSeconds j = None) \<and>
     (n = ''memoryLimitKb'' \<longrightarrow>
        (\<exists>l m. v = Some (RNum l) \<and> Atoi l = Some m \<and> j_MemoryLimitKb j = Some m) \<or>
        absent v \<and> j_MemoryLimitKb j = None) \<and>
     (n = ''userId'' \<longrightarrow> told_text v (j_UserID j)) \<and>
     (n = ''queuedAt'' \<longrightarrow>
        (\<exists>l. v = Some (RNum l) \<and> Atoi l = Some (j_QueuedAt j)) \<or> absent v \<and> j_QueuedAt j = 0)"

definition tells_job :: "string \<Rightarrow> job \<Rightarrow> bool" where
  "tells_job body j \<longleftrightarrow>
     (\<exists>kvs rest. scan_value maxNestingDepth body = Some (RObj kvs, rest) \<and> skip_blanks rest = [] \<and>
        distinct (map fst kvs) \<and> (\<forall>n \<in> set job_names. told n (map_of kvs n) j) \<and>
        (\<forall>k \<in> fst ` set kvs. k \<in> set job_names \<or> fold_name k \<notin> fold_name ` set job_names))"

definition plain_job :: "job \<Rightarrow> bool" where
  "plain_job j \<longleftrightarrow> (\<forall>s \<in> {j_JobID j, j_Type j, j_SourceCode j, j_Language j, j_Stdin j, j_UserID j}. valid_utf8 s) \<and>
     (\<forall>(i, e) \<in> set (j_TestCases j). valid_utf8 i \<and> valid_utf8 e) \<and> distinct (map fst (j_TestCases j)) \<and>
     (\<forall>x. j_TimeLimitSeconds j = Some x \<longrightarrow> \<bar>x\<bar> < 2 ^ 1024) \<and>
     (\<forall>m. j_MemoryLimitKb j = Some m \<longrightarrow> i64 m) \<and> i64 (j_QueuedAt j)"

section \<open>Laws of the decoding\<close>

lemma into_entries_keeps:
  assumes "into_entries kvs m = Some m'" "\<forall>kv \<in> set kvs. valid_utf8 (fst kv) \<and> valid_raw (snd kv)"
    and "distinct (map fst m) \<and> (\<forall>(i, e) \<in> set m. valid_utf8 i \<and> valid_utf8 e)"
  shows "distinct (map fst m') \<and> (\<forall>(i, e) \<in> set m'. valid_utf8 i \<and> valid_utf8 e)"
  using assms
proof (induction kvs arbitrary: m)
  case (Cons kv kvs)
  obtain k v where kv: "kv = (k, v)" by fastforce
  obtain s where s: "into_string v [] = Some s" "into_entries kvs (AList.update k s m) = Some m'"
    using Cons.prems(1) kv by (auto split: option.splits)
  have "valid_utf8 k" "valid_utf8 s" using Cons.prems(2) kv into_string_valid [OF s(1)] by auto
  moreover have "set (AList.update k s m) \<subseteq> insert (k, s) (set m)" by (induction m) auto
  ultimately have "\<forall>(i, e) \<in> set (AList.update k s m). valid_utf8 i \<and> valid_utf8 e" using Cons.prems(3) by fastforce
  then show ?case
    using Cons.IH [OF s(2)] Cons.prems(2,3) distinct_update [of m k s] by simp
qed simp

lemma into_map_keeps:
  assumes "into_map v m = Some m'" "valid_raw v"
    and "distinct (map fst m) \<and> (\<forall>(i, e) \<in> set m. valid_utf8 i \<and> valid_utf8 e)"
  shows "distinct (map fst m') \<and> (\<forall>(i, e) \<in> set m'. valid_utf8 i \<and> valid_utf8 e)"
  using assms into_entries_keeps by (cases v) (auto simp del: into_entries.simps)

lemma into_int_ptr_i64: "into_int_ptr v old = Some p \<Longrightarrow> p = Some i \<Longrightarrow> i64 i"
  by (cases v) (auto simp: Atoi_def Let_def split: if_splits)

lemma into_float_ptr_finite: "into_float_ptr v old = Some p \<Longrightarrow> p = Some x \<Longrightarrow> \<bar>x\<bar> < 2 ^ 1024"
  using ParseFloat_finite by (cases v) (auto simp del: power_numeral)

lemma job_fields_keep: "\<forall>(n, f) \<in> set job_fields. keeps plain_job f"
  unfolding job_fields_def
  by (simp add: keeps_def at_field_def plain_job_def del: into_map.simps power_numeral;
      intro conjI allI impI; elim exE conjE; hypsubst;
      simp add: into_string_valid into_int_i64 into_int_ptr_i64 into_map_keeps into_float_ptr_finite del: power_numeral)

lemma zero_job_plain: "plain_job zero_job"
  by (simp add: plain_job_def zero_job_def i64_def)

section \<open>Laws of the text\<close>

lemma job_field:
  "struct_field job_fields ''jobId'' = Some (at_field into_string j_JobID j_JobID_update)"
  "struct_field job_fields ''type'' = Some (at_field into_string j_Type j_Type_update)"
  "struct_field job_fields ''sourceCode'' = Some (at_field into_string j_SourceCode j_SourceCode_update)"
  "struct_field job_fields ''language'' = Some (at_field into_string j_Language j_Language_update)"
  "struct_field job_fields ''stdin'' = Some (at_field into_string j_Stdin j_Stdin_update)"
  "struct_field job_fields ''testCases'' = Some (at_field into_map j_TestCases j_TestCases_update)"
  "struct_field job_fields ''timeLimitSeconds'' = Some (at_field into_float_ptr j_TimeLimitSeconds j_TimeLimitSeconds_update)"
  "struct_field job_fields ''memoryLimitKb'' = Some (at_field into_int_ptr j_MemoryLimitKb j_MemoryLimitKb_update)"
  "struct_field job_fields ''userId'' = Some (at_field into_string j_UserID j_UserID_update)"
  "struct_field job_fields ''queuedAt'' = Some (at_field into_int j_QueuedAt j_QueuedAt_update)"
  by (simp_all add: struct_field_def job_fields_def)

lemma into_entries_fresh:
  "distinct (map fst (m @ es)) \<Longrightarrow> into_entries (map (\<lambda>(i, e). (i, RStr e)) es) m = Some (m @ es)"
proof (induction es arbitrary: m)
  case (Cons p es)
  obtain i e where p: "p = (i, e)" by fastforce
  have "i \<notin> fst ` set m" using Cons.prems p by auto
  then have "AList.update i e m = m @ [(i, e)]" by (induction m) auto
  then show ?case using Cons.IH [of "m @ [(i, e)]"] Cons.prems p by simp
qed simp

lemma read_entries: "distinct (map fst es) \<Longrightarrow> into_map (RObj (map (\<lambda>(i, e). (i, RStr e)) es)) [] = Some es"
  using into_entries_fresh [of "[]" es] by simp

lemma job_fields_names: "map fst job_fields = job_names"
  by (simp add: job_fields_def job_names_def)

lemma unknown_field: "k \<notin> set job_names \<Longrightarrow> fold_name k \<notin> fold_name ` set job_names \<Longrightarrow> struct_field job_fields k = None"
proof -
  assume k: "k \<notin> set job_names" "fold_name k \<notin> fold_name ` set job_names"
  then have "map_of job_fields k = None" by (simp add: map_of_eq_None_iff flip: job_fields_names)
  moreover have "fold_name n \<noteq> fold_name k" if "(n, f) \<in> set job_fields" for n f
    using that k(2) unfolding job_fields_names [symmetric] set_map by (metis fst_conv image_eqI)
  then have "List.find (\<lambda>(n, f). fold_name n = fold_name k) job_fields = None"
    by (auto simp: find_None_iff)
  ultimately show ?thesis by (simp add: struct_field_def)
qed

text \<open>Two jobs with the same field of that name.\<close>

definition agree :: "string \<Rightarrow> job \<Rightarrow> job \<Rightarrow> bool" where
  "agree n x y \<longleftrightarrow>
     (n = ''jobId'' \<longrightarrow> j_JobID x = j_JobID y) \<and> (n = ''type'' \<longrightarrow> j_Type x = j_Type y) \<and>
     (n = ''sourceCode'' \<longrightarrow> j_SourceCode x = j_SourceCode y) \<and> (n = ''language'' \<longrightarrow> j_Language x = j_Language y) \<and>
     (n = ''stdin'' \<longrightarrow> j_Stdin x = j_Stdin y) \<and> (n = ''testCases'' \<longrightarrow> j_TestCases x = j_TestCases y) \<and>
     (n = ''timeLimitSeconds'' \<longrightarrow> j_TimeLimitSeconds x = j_TimeLimitSeconds y) \<and>
     (n = ''memoryLimitKb'' \<longrightarrow> j_MemoryLimitKb x = j_MemoryLimitKb y) \<and>
     (n = ''userId'' \<longrightarrow> j_UserID x = j_UserID y) \<and> (n = ''queuedAt'' \<longrightarrow> j_QueuedAt x = j_QueuedAt y)"

lemma agree_refl [simp]: "agree n x x"
  by (simp add: agree_def)

lemma agree_trans: "agree n x y \<Longrightarrow> agree n y z \<Longrightarrow> agree n x z"
  by (simp add: agree_def)

lemma agree_all: "\<forall>n \<in> set job_names. agree n x y \<Longrightarrow> x = y"
  by (rule job.equality) (simp_all add: agree_def job_names_def)

lemma told_absent: "n \<in> set job_names \<Longrightarrow> told n None j \<Longrightarrow> agree n zero_job j"
  by (auto simp: job_names_def told_def told_text_def agree_def zero_job_def)

lemma told_into:
  "told_text (Some v) t \<Longrightarrow> into_string v [] = Some t"
  "told ''testCases'' (Some v) j \<Longrightarrow> into_map v [] = Some (j_TestCases j)"
  "told ''timeLimitSeconds'' (Some v) j \<Longrightarrow> into_float_ptr v None = Some (j_TimeLimitSeconds j)"
  "told ''memoryLimitKb'' (Some v) j \<Longrightarrow> into_int_ptr v None = Some (j_MemoryLimitKb j)"
  "told ''queuedAt'' (Some v) j \<Longrightarrow> into_int v 0 = Some (j_QueuedAt j)"
  by (auto simp: told_text_def told_def absent_def read_entries simp del: into_map.simps(2))

lemma read_field:
  assumes "struct_field job_fields n = Some (at_field into get upd)" "into v (get x) = Some t"
    and "agree n (upd (\<lambda>_. t) x) j" "\<forall>m \<in> set job_names. m \<noteq> n \<longrightarrow> agree m (upd (\<lambda>_. t) x) x"
  shows "\<exists>f y. struct_field job_fields n = Some f \<and> f v x = Some y \<and> agree n y j \<and>
    (\<forall>m \<in> set job_names. m \<noteq> n \<longrightarrow> agree m y x)"
  using assms by (simp add: at_field_def)

lemma read_told:
  assumes "n \<in> set job_names" "told n (Some v) j" "agree n x zero_job"
  shows "\<exists>f y. struct_field job_fields n = Some f \<and> f v x = Some y \<and> agree n y j \<and>
    (\<forall>m \<in> set job_names. m \<noteq> n \<longrightarrow> agree m y x)"
proof -
  from assms(1) consider "n = ''jobId''" | "n = ''type''" | "n = ''sourceCode''" | "n = ''language''" | "n = ''stdin''" |
    "n = ''testCases''" | "n = ''timeLimitSeconds''" | "n = ''memoryLimitKb''" | "n = ''userId''" | "n = ''queuedAt''"
    unfolding job_names_def by (simp; elim disjE; blast)
  then show ?thesis
  proof cases
    case 1
    then have "told_text (Some v) (j_JobID j)" "j_JobID x = []" using assms(2,3) by (simp_all add: told_def agree_def zero_job_def)
    then show ?thesis unfolding 1 using told_into(1) [of v "j_JobID j"]
      by (intro read_field [OF job_field(1), of v x "j_JobID j"]) (simp_all add: agree_def job_names_def)
  next
    case 2
    then have "told_text (Some v) (j_Type j)" "j_Type x = []" using assms(2,3) by (simp_all add: told_def agree_def zero_job_def)
    then show ?thesis unfolding 2 using told_into(1) [of v "j_Type j"]
      by (intro read_field [OF job_field(2), of v x "j_Type j"]) (simp_all add: agree_def job_names_def)
  next
    case 3
    then have "told_text (Some v) (j_SourceCode j)" "j_SourceCode x = []" using assms(2,3) by (simp_all add: told_def agree_def zero_job_def)
    then show ?thesis unfolding 3 using told_into(1) [of v "j_SourceCode j"]
      by (intro read_field [OF job_field(3), of v x "j_SourceCode j"]) (simp_all add: agree_def job_names_def)
  next
    case 4
    then have "told_text (Some v) (j_Language j)" "j_Language x = []" using assms(2,3) by (simp_all add: told_def agree_def zero_job_def)
    then show ?thesis unfolding 4 using told_into(1) [of v "j_Language j"]
      by (intro read_field [OF job_field(4), of v x "j_Language j"]) (simp_all add: agree_def job_names_def)
  next
    case 5
    then have "told_text (Some v) (j_Stdin j)" "j_Stdin x = []" using assms(2,3) by (simp_all add: told_def agree_def zero_job_def)
    then show ?thesis unfolding 5 using told_into(1) [of v "j_Stdin j"]
      by (intro read_field [OF job_field(5), of v x "j_Stdin j"]) (simp_all add: agree_def job_names_def)
  next
    case 6
    then have "told ''testCases'' (Some v) j" "j_TestCases x = []" using assms(2,3) by (simp_all add: agree_def zero_job_def)
    then show ?thesis unfolding 6 using told_into(2) [of v j]
      by (intro read_field [OF job_field(6), of v x "j_TestCases j"]) (simp_all add: agree_def job_names_def)
  next
    case 7
    then have "told ''timeLimitSeconds'' (Some v) j" "j_TimeLimitSeconds x = None" using assms(2,3) by (simp_all add: agree_def zero_job_def)
    then show ?thesis unfolding 7 using told_into(3) [of v j]
      by (intro read_field [OF job_field(7), of v x "j_TimeLimitSeconds j"]) (simp_all add: agree_def job_names_def)
  next
    case 8
    then have "told ''memoryLimitKb'' (Some v) j" "j_MemoryLimitKb x = None" using assms(2,3) by (simp_all add: agree_def zero_job_def)
    then show ?thesis unfolding 8 using told_into(4) [of v j]
      by (intro read_field [OF job_field(8), of v x "j_MemoryLimitKb j"]) (simp_all add: agree_def job_names_def)
  next
    case 9
    then have "told_text (Some v) (j_UserID j)" "j_UserID x = []" using assms(2,3) by (simp_all add: told_def agree_def zero_job_def)
    then show ?thesis unfolding 9 using told_into(1) [of v "j_UserID j"]
      by (intro read_field [OF job_field(9), of v x "j_UserID j"]) (simp_all add: agree_def job_names_def)
  next
    case 10
    then have "told ''queuedAt'' (Some v) j" "j_QueuedAt x = 0" using assms(2,3) by (simp_all add: agree_def zero_job_def)
    then show ?thesis unfolding 10 using told_into(5) [of v j]
      by (intro read_field [OF job_field(10), of v x "j_QueuedAt j"]) (simp_all add: agree_def job_names_def)
  qed
qed

lemma read_members:
  assumes "distinct (map fst kvs)"
    and "\<And>k v. (k, v) \<in> set kvs \<Longrightarrow> k \<in> set job_names \<Longrightarrow> told k (Some v) j \<and> agree k x zero_job"
    and "\<And>k. k \<in> fst ` set kvs \<Longrightarrow> k \<notin> set job_names \<Longrightarrow> fold_name k \<notin> fold_name ` set job_names"
  shows "\<exists>y. into_members False job_fields kvs x = Some y \<and>
    (\<forall>n \<in> set job_names. if n \<in> fst ` set kvs then agree n y j else agree n y x)"
  using assms
proof (induction kvs arbitrary: x)
  case Nil
  then show ?case by (simp add: agree_def)
next
  case (Cons kv kvs)
  obtain k v where kv: "kv = (k, v)" by fastforce
  have new: "k \<notin> fst ` set kvs" "distinct (map fst kvs)" using Cons.prems(1) kv by simp_all
  have told: "told k' (Some v') j" "agree k' x zero_job" if "(k', v') \<in> set kvs" "k' \<in> set job_names" for k' v'
    using Cons.prems(2) [of k' v'] that by simp_all
  have rest: "fold_name k' \<notin> fold_name ` set job_names" if "k' \<in> fst ` set kvs" "k' \<notin> set job_names" for k'
    using Cons.prems(3) [of k'] that by simp
  show ?case
  proof (cases "k \<in> set job_names")
    case True
    then obtain f x' where f: "struct_field job_fields k = Some f" "f v x = Some x'" "agree k x' j"
      "\<forall>m \<in> set job_names. m \<noteq> k \<longrightarrow> agree m x' x"
      using read_told [of k v j x] Cons.prems(2) [of k v] kv by auto
    have "told k' (Some v') j \<and> agree k' x' zero_job" if "(k', v') \<in> set kvs" "k' \<in> set job_names" for k' v'
      using told [OF that] f(4) that new(1) agree_trans by (metis fst_conv image_eqI)
    then obtain y where y: "into_members False job_fields kvs x' = Some y"
      "\<forall>n \<in> set job_names. if n \<in> fst ` set kvs then agree n y j else agree n y x'"
      using Cons.IH [OF new(2) _ rest, of x'] by blast
    have "if n \<in> fst ` set (kv # kvs) then agree n y j else agree n y x" if n: "n \<in> set job_names" for n
      using y(2) n f(3,4) new(1) kv agree_trans [of n y x'] by (cases "n = k") auto
    then show ?thesis using y(1) f(1,2) kv by auto
  next
    case False
    then have "struct_field job_fields k = None"
      using Cons.prems(3) [of k] kv by (intro unknown_field) simp_all
    moreover obtain y where y: "into_members False job_fields kvs x = Some y"
      "\<forall>n \<in> set job_names. if n \<in> fst ` set kvs then agree n y j else agree n y x"
      using Cons.IH [OF new(2) _ rest, of x] told by blast
    ultimately show ?thesis using False kv by auto
  qed
qed

lemma Unmarshal_told:
  assumes "tells_job body j"
  shows "Unmarshal_job msg order body = Inr (j\<lparr>j_TestCases := order (j_TestCases j)\<rparr>)"
proof -
  obtain kvs rest where b: "scan_value maxNestingDepth body = Some (RObj kvs, rest)" "skip_blanks rest = []"
    "distinct (map fst kvs)" "\<forall>n \<in> set job_names. told n (map_of kvs n) j"
    "\<forall>k \<in> fst ` set kvs. k \<in> set job_names \<or> fold_name k \<notin> fold_name ` set job_names"
    using assms by (auto simp: tells_job_def)
  have "told k (Some v) j \<and> agree k zero_job zero_job" if "(k, v) \<in> set kvs" "k \<in> set job_names" for k v
  proof -
    have "map_of kvs k = Some v" using map_of_is_SomeI [OF b(3) that(1)] .
    then show ?thesis using b(4) that(2) by (metis agree_refl)
  qed
  then obtain y where y: "into_members False job_fields kvs zero_job = Some y"
    "\<forall>n \<in> set job_names. if n \<in> fst ` set kvs then agree n y j else agree n y zero_job"
    using read_members [OF b(3), of j zero_job] b(5) by blast
  have "agree n y j" if n: "n \<in> set job_names" for n
  proof (cases "n \<in> fst ` set kvs")
    case False
    then have "map_of kvs n = None" by (simp add: map_of_eq_None_iff)
    then have "agree n zero_job j" using told_absent [OF n] b(4) n by metis
    moreover have "agree n y zero_job" using y(2) n False by simp
    ultimately show ?thesis by (rule agree_trans [rotated])
  qed (use y(2) n in simp)
  then have "y = j" by (intro agree_all) simp
  then show ?thesis using b(1,2) y(1) by (simp add: Unmarshal_job_def Unmarshal_def)
qed

section \<open>Properties\<close>

text \<open>C19. What Unmarshal makes of the body of a queue message, whatever it holds: the strings are valid
  UTF-8, the numbers fit their types, and no input occurs twice among the test cases of the
  request built from it - two tests with the same input are one test, whatever they expect.\<close>

theorem unmarshalled_job_is_well_formed:
  assumes "Unmarshal_job msg order body = Inr j" "is_order order"
  shows "plain_job j \<and> (\<forall>env req. buildRequest env j = Inr req \<longrightarrow> distinct (map tc_Input (rq_TestCases req)))"
proof -
  obtain v rest j' where j': "scan_value maxNestingDepth body = Some (v, rest)" "into_struct False job_fields v zero_job = Some j'"
    "j = j'\<lparr>j_TestCases := order (j_TestCases j')\<rparr>"
    using assms(1) by (auto simp: Unmarshal_job_def Unmarshal_def split: option.splits if_splits)
  have m: "mset (order (j_TestCases j')) = mset (j_TestCases j')" using assms(2) by (simp add: is_order_def)
  then have perm: "set (order (j_TestCases j')) = set (j_TestCases j')" by (rule mset_eq_setD)
  have "distinct (map fst (order (j_TestCases j'))) = distinct (map fst (j_TestCases j'))"
    by (rule mset_eq_imp_distinct_iff) (simp add: m)
  moreover have "plain_job j'"
    using keepsD [OF into_struct_keeps [OF job_fields_keep] j'(2) scan_valid(1) [OF j'(1)] zero_job_plain] .
  ultimately have pj: "plain_job j"
    unfolding j'(3) plain_job_def by (simp add: perm del: power_numeral)
  have "distinct (map tc_Input (rq_TestCases req))" if "buildRequest env j = Inr req" for env req
  proof -
    have "map tc_Input (map (\<lambda>(i, e). plain_case i e) (j_TestCases j)) = map fst (j_TestCases j)"
      by (simp add: plain_case_def case_prod_unfold)
    moreover have "distinct (map fst (j_TestCases j))" using pj unfolding plain_job_def by blast
    ultimately show ?thesis using buildRequest_accepts(7) [OF that] by (elim disjE conjE) (simp, simp only:)
  qed
  with pj show ?thesis by blast
qed

definition twice_body :: string where
  "twice_body = quoted ''{~type~:~submit~,~testCases~:{~1~:~a~,~1~:null},~x~:[]}''"

lemma twice_body_scanned: "scan_value 8 twice_body = Some (RObj [(''type'', RStr ''submit''),
    (''testCases'', RObj [(''1'', RStr ''a''), (''1'', RNull)]), (''x'', RArr [])], [])"
  by (simp add: twice_body_def quoted_def go_scan)

lemma twice_body_decoded: "into_struct False job_fields (RObj [(''type'', RStr ''submit''),
    (''testCases'', RObj [(''1'', RStr ''a''), (''1'', RNull)]), (''x'', RArr [])]) zero_job =
  Some (zero_job\<lparr>j_Type := ''submit'', j_TestCases := [(''1'', [])]\<rparr>)"
  by code_simp

theorem unmarshalled_job_is_well_formed_witness:
  "\<exists>j. Unmarshal_job (\<lambda>_. []) (\<lambda>xs. xs) twice_body = Inr j \<and> plain_job j \<and> j_TestCases j = [(''1'', [])]"
proof -
  have u: "Unmarshal_job (\<lambda>_. []) (\<lambda>xs. xs) twice_body = Inr (zero_job\<lparr>j_Type := ''submit'', j_TestCases := [(''1'', [])]\<rparr>)"
    by (simp add: Unmarshal_job_def Unmarshal_def scan_value_deep [OF twice_body_scanned] twice_body_decoded
        skip_blanks_def del: into_struct.simps)
  have "is_order (\<lambda>xs. xs)" by (simp add: is_order_def)
  from unmarshalled_job_is_well_formed [OF u this] show ?thesis using u by auto
qed

text \<open>C16. From the text of a message to the executor: whatever text a message has, if its members say
  the job j - in any order, spacing and number format - with source, language and one of the two
  types, then RUNNING is stored under its id and the executor gets exactly the request of j: its
  language and source, no flags, its time limit rounded to whole seconds and its memory limit if
  given, and as test cases the one of its stdin for a run, or for a submit all of its map, in the
  order in which the map is ranged over. With another type it is answered with ERROR and
  deleted.\<close>

theorem published_job_is_run:
  fixes env j order ws
  assumes "tells_job body j" "is_order order" "we_unmarshal env = Unmarshal_job msg order"
    and "ms_Body m = Some body" "j_SourceCode j \<noteq> []" "j_Language j \<noteq> []"
  defines "tcs \<equiv> if j_Type j = ''run'' then [plain_case (j_Stdin j) []]
      else map (\<lambda>(i, e). plain_case i e) (order (j_TestCases j))"
  defines "req \<equiv> \<lparr>rq_Language = j_Language j, rq_Source = j_SourceCode j, rq_BuildFlags = [], rq_RunFlags = [],
      rq_TestCases = tcs,
      rq_TimeLimitS = (case j_TimeLimitSeconds j of None \<Rightarrow> 0 | Some x \<Rightarrow> float_to_int env (math_Round x)),
      rq_MemoryKB = (case j_MemoryLimitKb j of None \<Rightarrow> 0 | Some kb \<Rightarrow> kb)\<rparr>"
  defines "ws' \<equiv> snd (writeRedis env (j_JobID j) ''RUNNING'' None [] ws)"
  shows "(j_Type j \<in> {''run'', ''submit''} \<longrightarrow>
      handleMessage env cfg reg ctx wk m ws = run_job env cfg reg ctx wk m (j\<lparr>j_TestCases := order (j_TestCases j)\<rparr>) req ws') \<and>
    (j_Type j = ''submit'' \<longrightarrow> mset tcs = mset (map (\<lambda>(i, e). plain_case i e) (j_TestCases j))) \<and>
    (j_Type j \<notin> {''run'', ''submit''} \<longrightarrow>
      handleMessage env cfg reg ctx wk m ws = (None, deleteMessage wk m (snd (writeRedis env (j_JobID j) ''ERROR'' None
        (''unknown job type: '' @ Quote (we_is_print env) (j_Type j)) ws'))))"
proof -
  let ?j = "j\<lparr>j_TestCases := order (j_TestCases j)\<rparr>"
  have u: "we_unmarshal env body = Inr ?j" using Unmarshal_told [OF assms(1)] assms(3) by simp
  have "buildRequest env ?j = (if j_Type j \<in> {''run'', ''submit''} then Inr req
      else Inl (''unknown job type: '' @ Quote (we_is_print env) (j_Type j)))"
    using assms(5,6) by (simp add: buildRequest_def Let_def req_def tcs_def)
  moreover have "mset (map (\<lambda>(i, e). plain_case i e) (order (j_TestCases j))) = mset (map (\<lambda>(i, e). plain_case i e) (j_TestCases j))"
    using assms(2) by (simp add: is_order_def)
  ultimately show ?thesis
    using u assms(4) by (auto simp: handleMessage_def ws'_def tcs_def)
qed

text \<open>A message as in \<open>docs/api.md\<close>: the limit is 2.5 seconds here, which is rounded to three.\<close>

definition doc_message :: string where
  "doc_message = quoted (''{~jobId~: ~85b8~, ~type~: ~submit~, ~sourceCode~: ~print(1)^n~, ~language~: ~python~, '' @
     ''~stdin~: ~1^n~, ~testCases~: {~1^n~: ~2~, ~3^n~: ~4~}, ~timeLimitSeconds~: 2.5, ~memoryLimitKb~: 64, '' @
     ''~userId~: ~system-user~, ~queuedAt~: 17}'')"

definition doc_job :: job where
  "doc_job = \<lparr>j_JobID = ''85b8'', j_Type = ''submit'', j_SourceCode = ''print(1)'' @ [LF], j_Language = ''python'',
     j_Stdin = ''1'' @ [LF], j_TestCases = [(''1'' @ [LF], ''2''), (''3'' @ [LF], ''4'')],
     j_TimeLimitSeconds = Some (5 / 2), j_MemoryLimitKb = Some 64, j_UserID = ''system-user'', j_QueuedAt = 17\<rparr>"

definition doc_members :: "(string \<times> raw) list" where
  "doc_members = [(''jobId'', RStr ''85b8''), (''type'', RStr ''submit''), (''sourceCode'', RStr (''print(1)'' @ [LF])),
     (''language'', RStr ''python''), (''stdin'', RStr (''1'' @ [LF])),
     (''testCases'', RObj [(''1'' @ [LF], RStr ''2''), (''3'' @ [LF], RStr ''4'')]), (''timeLimitSeconds'', RNum ''2.5''),
     (''memoryLimitKb'', RNum ''64''), (''userId'', RStr ''system-user''), (''queuedAt'', RNum ''17'')]"

lemma doc_message_scanned: "scan_value 8 doc_message = Some (RObj doc_members, [])"
proof -
  have "simple_escape CHR ''n'' = Some LF" by code_simp
  then show ?thesis by (simp add: doc_message_def doc_members_def quoted_def go_scan)
qed

lemma doc_message_tells: "tells_job doc_message doc_job"
proof -
  have n: "ParseFloat ''2.5'' = Some (5 / 2)" "Atoi ''64'' = Some 64" "Atoi ''17'' = Some 17" by code_simp+
  have half: "\<exists>x :: rat. x * 2 = 5" by (rule exI [of _ "5 / 2"]) simp
  have "told n (map_of doc_members n) doc_job" if "n \<in> set job_names" for n
    using that unfolding job_names_def
    by (simp; elim disjE; hypsubst; simp add: told_def told_text_def doc_members_def doc_job_def n half)
  moreover have "distinct (map fst doc_members)" "fst ` set doc_members \<subseteq> set job_names"
    by (simp_all add: doc_members_def job_names_def)
  ultimately show ?thesis
    unfolding tells_job_def using scan_value_deep [OF doc_message_scanned]
    by (intro exI [of _ doc_members] exI [of _ "[]"]) (auto simp: skip_blanks_def)
qed

theorem published_job_is_run_witness:
  "\<exists>req. rq_TestCases req = [plain_case (''3'' @ [LF]) ''4'', plain_case (''1'' @ [LF]) ''2''] \<and> rq_TimeLimitS req = 3 \<and>
     rq_MemoryKB req = 64 \<and>
     handleMessage ((sample_worker_env zero_job)\<lparr>we_unmarshal := Unmarshal_job (\<lambda>_. []) rev\<rparr>) sample_config sample_registry []
       sample_worker (sample_message\<lparr>ms_Body := Some doc_message\<rparr>) sample_worker_state =
     run_job ((sample_worker_env zero_job)\<lparr>we_unmarshal := Unmarshal_job (\<lambda>_. []) rev\<rparr>) sample_config sample_registry []
       sample_worker (sample_message\<lparr>ms_Body := Some doc_message\<rparr>) (doc_job\<lparr>j_TestCases := rev (j_TestCases doc_job)\<rparr>) req
       (snd (writeRedis ((sample_worker_env zero_job)\<lparr>we_unmarshal := Unmarshal_job (\<lambda>_. []) rev\<rparr>) ''85b8'' ''RUNNING'' None [] sample_worker_state))"
proof -
  let ?env = "(sample_worker_env zero_job)\<lparr>we_unmarshal := Unmarshal_job (\<lambda>_. []) rev\<rparr>"
  have o: "is_order rev" by (simp add: is_order_def)
  have r: "math_Round (5 / 2) = 3" by code_simp
  have j: "j_Type doc_job = ''submit''" "j_SourceCode doc_job \<noteq> []" "j_Language doc_job \<noteq> []" "j_JobID doc_job = ''85b8''"
    by (simp_all add: doc_job_def)
  show ?thesis
    using published_job_is_run [OF doc_message_tells o, of ?env "\<lambda>_. []" "sample_message\<lparr>ms_Body := Some doc_message\<rparr>"
        sample_config sample_registry "[]" sample_worker sample_worker_state] j
    by (intro exI conjI) (rule sym, simp_all add: doc_job_def r float_to_int_def i64_def)
qed

end
