(* ===== verification/Response_Text.thy ===== *)
theory Response_Text
  imports Json_Decode Api
begin

text \<open>
  The text of an answer: what a client can read back of a \<open>Response\<close> that \<open>writeJSON\<close> wrote, given
  the tags of \<open>Response\<close>, \<open>BuildPhase\<close> and \<open>TestResult\<close>, and of the error bodies of \<open>writeErr\<close>. The
  encoder replaces bytes that are no UTF-8; \<open>clean_response\<close> is the response after that.
\<close>

definition clean_build :: "build_phase \<Rightarrow> build_phase" where
  "clean_build b = b\<lparr>bp_Stdout := clean (bp_Stdout b), bp_Stderr := clean (bp_Stderr b)\<rparr>"

definition clean_test :: "test_result \<Rightarrow> test_result" where
  "clean_test t = t\<lparr>tr_Stdout := clean (tr_Stdout t), tr_Stderr := clean (tr_Stderr t), tr_Signal := clean (tr_Signal t)\<rparr>"

definition clean_response :: "response \<Rightarrow> response" where
  "clean_response r = r\<lparr>rp_Build := map_option clean_build (rp_Build r), rp_Tests := map clean_test (rp_Tests r)\<rparr>"

definition valid_response :: "response \<Rightarrow> bool" where
  "valid_response r \<longleftrightarrow> (\<forall>b. rp_Build r = Some b \<longrightarrow> valid_utf8 (bp_Stdout b) \<and> valid_utf8 (bp_Stderr b)) \<and>
     (\<forall>t \<in> set (rp_Tests r). valid_utf8 (tr_Stdout t) \<and> valid_utf8 (tr_Stderr t) \<and> valid_utf8 (tr_Signal t))"

section \<open>Nothing but invalid bytes is lost\<close>

lemma build_status_text_inject: "build_status_text a = build_status_text b \<longleftrightarrow> a = b"
  by (cases a; cases b) simp_all

lemma build_json_inject: "build_json a = build_json b \<longleftrightarrow> a = b"
  by (cases a; cases b) (auto simp: build_json_def build_status_text_inject)

lemma test_json_inject: "test_json a = test_json b \<longleftrightarrow> a = b"
  by (cases a; cases b) (auto simp: test_json_def omit_empty_def status_text_inject split: if_splits)

lemma response_json_inject: "response_json a = response_json b \<longleftrightarrow> a = b"
proof
  assume eq: "response_json a = response_json b"
  have "status_text (rp_Status a) = status_text (rp_Status b)"
    using arg_cong [OF eq, of "json_field ''status''"] by (simp add: response_json_fields)
  moreover have "map_option build_json (rp_Build a) = map_option build_json (rp_Build b)"
    using arg_cong [OF eq, of "json_field ''build''"] by (simp add: response_json_fields)
  moreover have "map test_json (rp_Tests a) = map test_json (rp_Tests b)"
    using arg_cong [OF eq, of "json_field ''tests''"] by (auto simp: response_json_fields split: if_splits)
  moreover have "inj test_json" "inj build_json" by (auto intro: injI simp: test_json_inject build_json_inject)
  ultimately have "rp_Status a = rp_Status b" "rp_Build a = rp_Build b" "rp_Tests a = rp_Tests b"
    by (simp_all add: status_text_inject inj_map_eq_map inj_eq [OF option.inj_map])
  then show "a = b" by simp
qed simp

section \<open>What a reader gets\<close>

lemma clean_Nil_iff: "clean s = [] \<longleftrightarrow> s = []"
proof (cases s)
  case (Cons c cs)
  have "split_runes s \<noteq> []" by (simp add: Cons split_runes.simps(2) Let_def)
  moreover have "[] \<notin> set (split_runes s)" using split_runes_cases [of "[]" s] by (auto simp: well_formed_def)
  moreover have "clean_rune u \<noteq> []" if "u \<noteq> []" for u using that by (simp add: clean_rune_def)
  ultimately show ?thesis using Cons by (cases "split_runes s") (auto simp: clean_def)
qed (simp add: clean_def)

lemma clean_names:
  "clean ''status'' = ''status''" "clean ''stdout'' = ''stdout''" "clean ''stderr'' = ''stderr''"
  "clean ''duration_ms'' = ''duration_ms''" "clean ''exit_code'' = ''exit_code''" "clean ''signal'' = ''signal''"
  "clean ''memory_kb'' = ''memory_kb''" "clean ''build'' = ''build''" "clean ''tests'' = ''tests''"
  "clean ''error'' = ''error''" "clean ''message'' = ''message''"
  by (rule clean_valid, rule valid_utf8_ascii, simp)+

lemma clean_status: "clean (status_text st) = status_text st" "clean (build_status_text bs) = build_status_text bs"
  by (cases st; rule clean_valid; rule valid_utf8_ascii; simp) (cases bs; rule clean_valid; rule valid_utf8_ascii; simp)

lemma clean_build_json: "clean_json (build_json b) = build_json (clean_build b)"
  by (simp add: build_json_def clean_build_def clean_names clean_status)

lemma clean_test_json: "clean_json (test_json t) = test_json (clean_test t)"
  by (simp add: test_json_def clean_test_def clean_names clean_status omit_empty_def clean_Nil_iff)

lemma clean_response_json: "clean_json (response_json r) = response_json (clean_response r)"
  by (simp add: response_json_def clean_response_def clean_names clean_status omit_empty_def clean_build_json
      clean_test_json split: option.split)

lemma clean_response_valid: "valid_response r \<Longrightarrow> clean_response r = r"
proof -
  assume v: "valid_response r"
  have "map_option clean_build (rp_Build r) = rp_Build r"
    using v by (cases "rp_Build r") (auto simp: valid_response_def clean_build_def clean_valid)
  moreover have "map clean_test (rp_Tests r) = rp_Tests r"
    using v by (intro map_idI) (auto simp: valid_response_def clean_test_def clean_valid)
  ultimately show ?thesis by (simp add: clean_response_def)
qed

lemma read_response: "read_json (body_text (writeJSON hs code (response_json r))) = Some (response_json (clean_response r))"
  by (simp add: body_text_def writeJSON_def read_json_Encode clean_response_json)

lemma error_json: "json_map [(''error'', a), (''message'', b)] = JObj [(''error'', a), (''message'', b)]"
proof -
  have "''error'' \<le> (''message'' :: string)" by code_simp
  then show ?thesis by (simp add: json_map_def)
qed

section \<open>What an object tells\<close>

text \<open>The names and values of \<open>docs/api.md\<close>, with empty signals and memory readings left out.\<close>

definition tells_build :: "json \<Rightarrow> build_phase \<Rightarrow> bool" where
  "tells_build j b \<longleftrightarrow>
     json_field ''status'' j = Some (JStr (build_status_text (bp_Status b))) \<and>
     json_field ''stdout'' j = Some (JStr (clean (bp_Stdout b))) \<and>
     json_field ''stderr'' j = Some (JStr (clean (bp_Stderr b))) \<and>
     json_field ''duration_ms'' j = Some (JInt (bp_DurationMS b))"

definition tells_test :: "json \<Rightarrow> test_result \<Rightarrow> bool" where
  "tells_test j t \<longleftrightarrow>
     json_field ''status'' j = Some (JStr (status_text (tr_Status t))) \<and>
     json_field ''stdout'' j = Some (JStr (clean (tr_Stdout t))) \<and>
     json_field ''stderr'' j = Some (JStr (clean (tr_Stderr t))) \<and>
     json_field ''exit_code'' j = Some (JInt (tr_ExitCode t)) \<and>
     json_field ''signal'' j = (if tr_Signal t = [] then None else Some (JStr (clean (tr_Signal t)))) \<and>
     json_field ''duration_ms'' j = Some (JInt (tr_DurationMS t)) \<and>
     json_field ''memory_kb'' j = (if tr_MemoryKB t = 0 then None else Some (JInt (tr_MemoryKB t)))"

lemma build_json_tells: "tells_build (build_json (clean_build b)) b"
  by (simp add: tells_build_def build_json_def clean_build_def)

lemma test_json_tells: "tells_test (test_json (clean_test t)) t"
  by (simp add: tells_test_def test_json_def clean_test_def omit_empty_def clean_Nil_iff)

section \<open>Properties\<close>

text \<open>C22. The text of an answer tells its client everything. Two responses that writeJSON turns into the
  same text are the same response - every status, output, exit code, signal and time, of the
  build and of each test in order - but for bytes of an output that are no UTF-8, which are
  replaced by U+FFFD; a reader of the text finds the status, the build and the tests with all
  their values under the documented names, the latter two only when there are any. The text of an error holds its kind and its
  message. Whatever a program printed, no text holds a control character or one that HTML gives a
  meaning.\<close>

theorem answer_text_is_faithful:
  fixes r r' hs hs' code code'
  defines "text \<equiv> body_text (writeJSON hs code (response_json r))"
    and "text' \<equiv> body_text (writeJSON hs' code' (response_json r'))"
  shows "(text = text' \<longrightarrow> clean_response r = clean_response r' \<and> (valid_response r \<longrightarrow> valid_response r' \<longrightarrow> r = r')) \<and>
    (\<exists>j. read_json text = Some j \<and>
       json_field ''status'' j = Some (JStr (status_text (rp_Status r))) \<and>
       (case rp_Build r of None \<Rightarrow> json_field ''build'' j = None
          | Some b \<Rightarrow> \<exists>k. json_field ''build'' j = Some k \<and> tells_build k b) \<and>
       (if rp_Tests r = [] then json_field ''tests'' j = None
        else \<exists>ks. json_field ''tests'' j = Some (JArr ks) \<and> list_all2 tells_test ks (rp_Tests r))) \<and>
    read_json (body_text (writeErr hs code kind msg)) =
      Some (JObj [(''error'', JStr (clean kind)), (''message'', JStr (clean msg))]) \<and>
    (\<forall>b \<in> {text, body_text (writeErr hs code kind msg)}. \<exists>t. b = t @ [LF] \<and>
       (\<forall>c \<in> set t. 0x20 \<le> byte c \<and> c \<noteq> CHR ''<'' \<and> c \<noteq> CHR ''>'' \<and> c \<noteq> CHR ''&''))"
proof -
  have same: "clean_response r = clean_response r'" if "text = text'"
    using that read_response [of hs code r] read_response [of hs' code' r']
    by (simp add: text_def text'_def response_json_inject)
  have inert: "\<exists>t. body_text (writeJSON hs code v) = t @ [LF] \<and>
      (\<forall>c \<in> set t. 0x20 \<le> byte c \<and> c \<noteq> CHR ''<'' \<and> c \<noteq> CHR ''>'' \<and> c \<noteq> CHR ''&'')" for v
    using json_text_inert [of v] by (auto simp: body_text_def writeJSON_def Encode_def list_all_iff inert_def)
  have err: "read_json (body_text (writeErr hs code kind msg)) =
      Some (JObj [(''error'', JStr (clean kind)), (''message'', JStr (clean msg))])"
    by (simp add: body_text_def writeErr_def writeJSON_def read_json_Encode error_json clean_names)
  have fields: "\<exists>j. read_json text = Some j \<and>
       json_field ''status'' j = Some (JStr (status_text (rp_Status r))) \<and>
       (case rp_Build r of None \<Rightarrow> json_field ''build'' j = None
          | Some b \<Rightarrow> \<exists>k. json_field ''build'' j = Some k \<and> tells_build k b) \<and>
       (if rp_Tests r = [] then json_field ''tests'' j = None
        else \<exists>ks. json_field ''tests'' j = Some (JArr ks) \<and> list_all2 tells_test ks (rp_Tests r))"
  proof (intro exI [of _ "response_json (clean_response r)"] conjI)
    show "if rp_Tests r = [] then json_field ''tests'' (response_json (clean_response r)) = None
      else \<exists>ks. json_field ''tests'' (response_json (clean_response r)) = Some (JArr ks) \<and> list_all2 tells_test ks (rp_Tests r)"
      by (auto simp: response_json_fields clean_response_def list_all2_conv_all_nth test_json_tells)
  qed (use read_response in \<open>auto simp: text_def response_json_fields clean_response_def build_json_tells split: option.split\<close>)
  show ?thesis
    using same clean_response_valid [of r] clean_response_valid [of r'] fields err inert
    by (intro conjI) (metis, assumption, assumption, simp add: text_def writeErr_def)
qed

text \<open>Two outputs of one byte each, neither of them UTF-8: the texts are the same.\<close>

definition byte_response :: "char \<Rightarrow> response" where
  "byte_response c = \<lparr>rp_Status = StatusAccepted, rp_Build = None, rp_Tests = [\<lparr>tr_Status = StatusAccepted,
     tr_Stdout = [c], tr_Stderr = [], tr_ExitCode = 0, tr_Signal = [], tr_DurationMS = 3, tr_MemoryKB = 0\<rparr>]\<rparr>"

theorem answer_text_is_faithful_witness:
  "byte_response (CHR 0xFF) \<noteq> byte_response (CHR 0xFE) \<and>
   clean_response (byte_response (CHR 0xFF)) = clean_response (byte_response (CHR 0xFE))"
proof
  have "body_text (writeJSON [] 200 (response_json (byte_response (CHR 0xFF)))) =
      body_text (writeJSON [] 200 (response_json (byte_response (CHR 0xFE))))" by code_simp
  then show "clean_response (byte_response (CHR 0xFF)) = clean_response (byte_response (CHR 0xFE))"
    using answer_text_is_faithful [of "[]" 200 "byte_response (CHR 0xFF)" "[]" 200 "byte_response (CHR 0xFE)"] by blast
qed (simp add: byte_response_def)

end
