(* ===== verification/Go_Tests.thy ===== *)
theory Go_Tests
  imports Executor
begin

text \<open>
  The unit tests of the repository (\<open>executor_test.go\<close>, \<open>sandbox_test.go\<close>, \<open>registry_test.go\<close>) with
  their tables, run against the model: one definition per test function, true when the test
  passes. The registry tests write YAML files into a temporary directory; here the directory
  lists those files and the decoder yields what the texts say.
\<close>

section \<open>executor\_test.go\<close>

definition TestFilterFlags :: bool where
  "TestFilterFlags \<longleftrightarrow> list_all (\<lambda>(user, allow, wantErr).
       case filterFlags user allow of
         None \<Rightarrow> \<not> wantErr
       | Some err \<Rightarrow> wantErr \<and> (case err of ErrDisallowedFlag _ \<Rightarrow> True | _ \<Rightarrow> False))
     [([], [''-O2''], False),
      ([''-O2'', ''-Wall''], [''-O2'', ''-Wall''], False),
      ([''-fbad''], [''-O2''], True),
      ([''-x''], [], True)]"

definition TestSafeNameRegex :: bool where
  "TestSafeNameRegex \<longleftrightarrow>
     list_all safeName [''main.py'', ''Main.java'', ''main_1.cpp'', ''a-b.c'', ''x.y.z''] \<and>
     list_all (\<lambda>b. \<not> safeName b)
       [''../etc/passwd'', ''main.py;rm -rf /'', ''main py'', ''main.py'' @ [LF], '''', ''main$'']"

definition TestCompareOutput :: bool where
  "TestCompareOutput \<longleftrightarrow> list_all (\<lambda>(actual, expected, want). compareOutput actual expected = want)
     [(''42'' @ [LF], ''42'' @ [LF], outputExact),
      (''42'', ''42'' @ [LF], outputExact),
      (''42 '' @ [LF], ''42'' @ [LF], outputExact),
      (''4 2'', ''42'', outputMismatch),
      (''43'', ''42'', outputMismatch),
      (''hello world'' @ [LF], ''hello'' @ TAB # ''world'', outputWhitespaceOnly),
      (''hello  world'' @ [LF], ''hello world'' @ [LF], outputWhitespaceOnly),
      (''foo'' @ LF # ''bar'' @ [LF], ''foo bar'', outputWhitespaceOnly)]"

definition result_with :: "status \<Rightarrow> test_result" where
  "result_with s = \<lparr>tr_Status = s, tr_Stdout = [], tr_Stderr = [], tr_ExitCode = 0, tr_Signal = [],
     tr_DurationMS = 0, tr_MemoryKB = 0\<rparr>"

definition results :: "status list \<Rightarrow> response" where
  "results ss = \<lparr>rp_Status = StatusAccepted, rp_Build = None, rp_Tests = map result_with ss\<rparr>"

definition TestRollup :: bool where
  "TestRollup \<longleftrightarrow> list_all (\<lambda>(r, want). rollup r = want)
     [(results [StatusAccepted, StatusAccepted], StatusAccepted),
      (results [StatusWrongOutput, StatusAccepted], StatusWrongOutput),
      ((results [])\<lparr>rp_Build := Some \<lparr>bp_Status = BuildFailed, bp_Stdout = [], bp_Stderr = [], bp_DurationMS = 0\<rparr>\<rparr>,
        StatusBuildFailed),
      (results [StatusTimeExceeded, StatusWrongOutput], StatusTimeExceeded)]"

definition empty_request :: request where
  "empty_request = \<lparr>rq_Language = [], rq_Source = [], rq_BuildFlags = [], rq_RunFlags = [],
     rq_TestCases = [], rq_TimeLimitS = 0, rq_MemoryKB = 0\<rparr>"

definition empty_language :: language where
  "empty_language = \<lparr>l_Name = [], l_Version = [], l_SourceFile = [], l_Artifact = [], l_Build = None, l_Run = None\<rparr>"

definition empty_phase :: phase where
  "empty_phase = \<lparr>ph_Command = [], ph_Args = [], ph_AllowedFlags = [], ph_TimeLimitS = 0, ph_MemoryKB = 0, ph_MaxProcesses = 0\<rparr>"

definition too_big :: "exec_error option go \<Rightarrow> bool" where
  "too_big r = (case r of Ret (Some (ErrOverrideTooBig _)) \<Rightarrow> True | _ \<Rightarrow> False)"

definition TestBoundOverrides :: bool where
  "TestBoundOverrides \<longleftrightarrow>
     (let lang = empty_language\<lparr>l_Run := Some (empty_phase\<lparr>ph_TimeLimitS := 5, ph_MemoryKB := 262144\<rparr>)\<rparr>
      in boundOverrides lang (empty_request\<lparr>rq_TimeLimitS := 3, rq_MemoryKB := 100000\<rparr>) = Ret None \<and>
         too_big (boundOverrides lang (empty_request\<lparr>rq_TimeLimitS := 10\<rparr>)) \<and>
         too_big (boundOverrides lang (empty_request\<lparr>rq_MemoryKB := 999999\<rparr>)) \<and>
         too_big (boundOverrides lang (empty_request\<lparr>rq_TestCases :=
           [\<lparr>tc_Input = [], tc_ExpectedOutput = [], tc_TimeLimitS = 100, tc_MemoryKB = 0\<rparr>]\<rparr>)))"

definition TestRenderArgsSubstitutes :: bool where
  "TestRenderArgsSubstitutes \<longleftrightarrow>
     (let lang = empty_language\<lparr>l_SourceFile := ''main.cpp'', l_Artifact := ''main''\<rparr>
      in Join (renderArgs [''-o'', ''{{artifact}}'', ''{{source}}''] lang [''-O2'']) '' '' =
         Join [''-o'', ''main'', ''main.cpp'', ''-O2''] '' '')"

section \<open>sandbox\_test.go\<close>

definition TestCappedBufferUnderLimit :: bool where
  "TestCappedBufferUnderLimit \<longleftrightarrow>
     (let b = snd (cb_Write ''hello'' (new_capped 1024)) in cb_Bytes b = ''hello'' \<and> \<not> cb_capped b)"

definition TestCappedBufferTruncates :: bool where
  "TestCappedBufferTruncates \<longleftrightarrow>
     (let b = snd (cb_Write ''defgh'' (snd (cb_Write ''abc'' (new_capped 5)))) in cb_Bytes b = ''abcde'' \<and> cb_capped b)"

definition TestCappedBufferUnlimited :: bool where
  "TestCappedBufferUnlimited \<longleftrightarrow>
     (let huge = replicate 10000 (CHR ''x'') in length (cb_Bytes (snd (cb_Write huge (new_capped 0)))) = length huge)"

section \<open>registry\_test.go\<close>

text \<open>\<open>LoadDir\<close> of a temporary directory with these files; \<open>Inl\<close>: not YAML.\<close>

definition load_temp :: "(string \<times> (string + language)) list \<Rightarrow> load_error option \<times> registry" where
  "load_temp files = LoadDir (\<lambda>dir. Inr (map (\<lambda>(f, b). \<lparr>de_Name = f, de_IsDir = False\<rparr>) files)) Inr
     (\<lambda>path. case map_of (map (\<lambda>(f, b). (''/tmp/t/'' @ f, b)) files) path of Some b \<Rightarrow> b | None \<Rightarrow> Inl ''no such file'')
     ''/tmp/t'' New"

definition python_run :: phase where
  "python_run = empty_phase\<lparr>ph_Command := ''/usr/bin/python3''\<rparr>"

definition TestLoadDirValidLanguage :: bool where
  "TestLoadDirValidLanguage \<longleftrightarrow>
     (case load_temp [(''py.yaml'', Inr (empty_language\<lparr>l_Name := ''py'', l_SourceFile := ''main.py'',
         l_Run := Some (python_run\<lparr>ph_Args := [''{{source}}''], ph_TimeLimitS := 5, ph_MemoryKB := 1024\<rparr>)\<rparr>))] of
        (err, r) \<Rightarrow> err = None \<and>
          (case Get r ''py'' of
             None \<Rightarrow> False
           | Some lang \<Rightarrow> (case l_Run lang of None \<Rightarrow> False | Some run \<Rightarrow> ph_Command run = ''/usr/bin/python3'')))"

definition TestLoadDirRejectsBadConfig :: bool where
  "TestLoadDirRejectsBadConfig \<longleftrightarrow> list_all (\<lambda>lang. fst (load_temp [(''bad.yaml'', Inr lang)]) \<noteq> None)
     [empty_language\<lparr>l_SourceFile := ''main.py'', l_Run := Some python_run\<rparr>,
      empty_language\<lparr>l_Name := ''x'', l_Run := Some python_run\<rparr>,
      empty_language\<lparr>l_Name := ''x'', l_SourceFile := ''main.py''\<rparr>,
      empty_language\<lparr>l_Name := ''x'', l_SourceFile := ''main.py'', l_Run := Some empty_phase\<rparr>]"

text \<open>\<open>Names\<close> may come in any order; of one name there is only one.\<close>

definition TestLoadDirSkipsNonYAML :: bool where
  "TestLoadDirSkipsNonYAML \<longleftrightarrow>
     (case load_temp [(''README.md'', Inl ''not yaml''), (''ok.yaml'', Inr (empty_language\<lparr>l_Name := ''ok'',
         l_SourceFile := ''f'', l_Run := Some (empty_phase\<lparr>ph_Command := ''/bin/true''\<rparr>)\<rparr>))] of
        (err, r) \<Rightarrow> err = None \<and> (\<forall>names. is_Names r names \<longleftrightarrow> names = [''ok'']))"

section \<open>The tests pass\<close>

lemma filter_flags_test: "TestFilterFlags" by code_simp

lemma safe_name_test: "TestSafeNameRegex" by code_simp

lemma rollup_test: "TestRollup" by code_simp

lemma bound_overrides_test: "TestBoundOverrides" by code_simp

lemma render_args_test: "TestRenderArgsSubstitutes" by code_simp

lemma compare_output_test: "TestCompareOutput"
  by (simp add: TestCompareOutput_def compareOutput_def normalizeStrict_def normalizeLoose_def crlf_to_lf_def
      ReplaceAll.simps TrimRight_def Fields_def split_runes_ascii space_rune_def rune_value_def rune_width_ascii IsSpace_def)

lemma sandbox_tests: "TestCappedBufferUnderLimit" "TestCappedBufferTruncates" "TestCappedBufferUnlimited"
proof -
  show "TestCappedBufferUnderLimit" "TestCappedBufferTruncates"
    by (simp_all add: TestCappedBufferUnderLimit_def TestCappedBufferTruncates_def cb_Write_def cb_Bytes_def new_capped_def Let_def)
  show "TestCappedBufferUnlimited"
    unfolding TestCappedBufferUnlimited_def Let_def by (simp add: cb_Write_def cb_Bytes_def new_capped_def)
qed

lemma temp_path: "filepath_Join [''/tmp/t'', ''py.yaml''] = ''/tmp/t/py.yaml''"
  "filepath_Join [''/tmp/t'', ''bad.yaml''] = ''/tmp/t/bad.yaml''" "filepath_Join [''/tmp/t'', ''ok.yaml''] = ''/tmp/t/ok.yaml''"
  by code_simp+

lemma temp_name: "is_yaml_name ''py.yaml''" "is_yaml_name ''bad.yaml''" "is_yaml_name ''ok.yaml''" "\<not> is_yaml_name ''README.md''"
  by code_simp+

lemmas load_temp_simps = load_temp_def LoadDir_def loadFile_def validate_def New_def Get_def Let_def temp_path temp_name
  empty_language_def empty_phase_def python_run_def

lemma load_valid_test: "TestLoadDirValidLanguage"
  by (simp add: TestLoadDirValidLanguage_def load_temp_simps)

lemma load_bad_test: "TestLoadDirRejectsBadConfig"
  by (simp add: TestLoadDirRejectsBadConfig_def load_temp_simps)

lemma one_name: "distinct ns \<and> set ns = {n} \<longleftrightarrow> ns = [n]"
proof
  assume ns: "distinct ns \<and> set ns = {n}"
  then have "length ns = 1" using distinct_card [of ns] by simp
  then obtain m where "ns = [m]" by (cases ns) auto
  then show "ns = [n]" using ns by simp
qed simp

lemma load_skips_test: "TestLoadDirSkipsNonYAML"
  by (simp add: TestLoadDirSkipsNonYAML_def load_temp_simps is_Names_def one_name)

section \<open>Properties\<close>

text \<open>The unit tests of the repository pass in the model, table by table: the filter for flags, the
  pattern for names, the comparison, the rollup, the bounds on overrides, the templates, the
  capped buffer and the loading of languages behave as the authors' own tests expect.\<close>

theorem unit_tests_pass:
  "TestFilterFlags \<and> TestSafeNameRegex \<and> TestCompareOutput \<and> TestRollup \<and> TestBoundOverrides \<and>
   TestRenderArgsSubstitutes \<and> TestCappedBufferUnderLimit \<and> TestCappedBufferTruncates \<and> TestCappedBufferUnlimited \<and>
   TestLoadDirValidLanguage \<and> TestLoadDirRejectsBadConfig \<and> TestLoadDirSkipsNonYAML"
  by (intro conjI filter_flags_test safe_name_test compare_output_test rollup_test bound_overrides_test render_args_test
      sandbox_tests load_valid_test load_bad_test load_skips_test)

end
