(* ===== verification/Load_Generator.thy ===== *)
theory Load_Generator
  imports Stats Os Transitions
begin

text \<open>
  \<open>tests/load/main.go\<close>, the load generator of the repository: a number of workers that post the
  same body until a deadline, counters of the answers, and the latencies of the requests sent
  after a warm-up. The workers are a step relation on the shared counters and samples; one step
  is one atomic addition, one guarded append or one call of another package. What the server
  answers, and when, is open, and so is the passing of the time. \<open>load_summary\<close> is what \<open>main\<close>
  prints once every worker is done, without the texts.

  The result of \<open>http.NewRequest\<close> is used without a look at its error, so a bad URL is a nil
  dereference in a worker, which ends the program (\<open>ld_panic\<close>).
\<close>

section \<open>State and steps\<close>

record load_flags =
  lf_url :: string
  lf_concurrency :: int
  lf_duration :: int
  lf_payload :: string
  lf_warmup :: int

text \<open>
  A worker before the deadline check, before the call, in the call sent at \<open>t0\<close>, and after it
  with the latency and the status code, if there was an answer.
\<close>

datatype load_pc =
    AtCheck
  | AtSend
  | InCall int
  | Returned int int "int option"
  | Counted int int "int option"
  | Classified int int int
  | WorkerDone

record load_state =
  ld_now :: int
  ld_total :: int
  ld_http200 :: int
  ld_http429 :: int
  ld_http4xx :: int
  ld_http5xx :: int
  ld_netErr :: int
  ld_samples :: "(int \<times> int) list"
  ld_workers :: "load_pc list"
  ld_panic :: "panic option"

definition tally :: "int \<Rightarrow> load_state \<Rightarrow> load_state" where
  "tally c s =
     (if c = 200 then s\<lparr>ld_http200 := wrap64 (ld_http200 s + 1)\<rparr>
      else if c = 429 then s\<lparr>ld_http429 := wrap64 (ld_http429 s + 1)\<rparr>
      else if c \<ge> 500 then s\<lparr>ld_http5xx := wrap64 (ld_http5xx s + 1)\<rparr>
      else s\<lparr>ld_http4xx := wrap64 (ld_http4xx s + 1)\<rparr>)"

definition goto :: "nat \<Rightarrow> load_pc \<Rightarrow> load_state \<Rightarrow> load_state" where
  "goto i pc s = s\<lparr>ld_workers := (ld_workers s)[i := pc]\<rparr>"

definition worker_at :: "load_state \<Rightarrow> nat \<Rightarrow> load_pc \<Rightarrow> bool" where
  "worker_at s i pc \<longleftrightarrow> i < length (ld_workers s) \<and> ld_workers s ! i = pc"

definition statsCutoff :: "load_flags \<Rightarrow> int \<Rightarrow> int" where
  "statsCutoff f startWall = startWall + lf_warmup f"

definition deadline :: "load_flags \<Rightarrow> int \<Rightarrow> int" where
  "deadline f startWall = startWall + wrap64 (lf_warmup f + lf_duration f)"

inductive load_moves :: "(string \<Rightarrow> bool) \<Rightarrow> load_flags \<Rightarrow> int \<Rightarrow> load_state \<Rightarrow> load_state \<Rightarrow> bool"
  for newRequest f startWall where
  clock: "ld_now s \<le> t \<Longrightarrow> load_moves newRequest f startWall s (s\<lparr>ld_now := t\<rparr>)"
| stop: "worker_at s i AtCheck \<Longrightarrow> deadline f startWall < ld_now s \<Longrightarrow>
    load_moves newRequest f startWall s (goto i WorkerDone s)"
| go_on: "worker_at s i AtCheck \<Longrightarrow> \<not> deadline f startWall < ld_now s \<Longrightarrow>
    load_moves newRequest f startWall s (goto i AtSend s)"
| bad_url: "worker_at s i AtSend \<Longrightarrow> \<not> newRequest (lf_url f) \<Longrightarrow>
    load_moves newRequest f startWall s (s\<lparr>ld_panic := Some NilDereference\<rparr>)"
| send: "worker_at s i AtSend \<Longrightarrow> newRequest (lf_url f) \<Longrightarrow>
    load_moves newRequest f startWall s (goto i (InCall (ld_now s)) s)"
| answer: "worker_at s i (InCall t0) \<Longrightarrow>
    load_moves newRequest f startWall s (goto i (Returned t0 (since t0 (ld_now s)) r) s)"
| count: "worker_at s i (Returned t0 d r) \<Longrightarrow>
    load_moves newRequest f startWall s (goto i (Counted t0 d r) (s\<lparr>ld_total := wrap64 (ld_total s + 1)\<rparr>))"
| failed: "worker_at s i (Counted t0 d None) \<Longrightarrow>
    load_moves newRequest f startWall s (goto i AtCheck (s\<lparr>ld_netErr := wrap64 (ld_netErr s + 1)\<rparr>))"
| classify: "worker_at s i (Counted t0 d (Some c)) \<Longrightarrow>
    load_moves newRequest f startWall s (goto i (Classified t0 d c) (tally c s))"
| sampled: "worker_at s i (Classified t0 d c) \<Longrightarrow> statsCutoff f startWall < t0 \<Longrightarrow>
    load_moves newRequest f startWall s (goto i AtCheck (s\<lparr>ld_samples := ld_samples s @ [(d, c)]\<rparr>))"
| warming_up: "worker_at s i (Classified t0 d c) \<Longrightarrow> \<not> statsCutoff f startWall < t0 \<Longrightarrow>
    load_moves newRequest f startWall s (goto i AtCheck s)"

definition load_step :: "(string \<Rightarrow> bool) \<Rightarrow> load_flags \<Rightarrow> int \<Rightarrow> load_state \<Rightarrow> load_state \<Rightarrow> bool" where
  "load_step newRequest f startWall s s' \<longleftrightarrow> ld_panic s = None \<and> load_moves newRequest f startWall s s'"

definition load_start :: "load_flags \<Rightarrow> int \<Rightarrow> load_state" where
  "load_start f startWall =
     \<lparr>ld_now = startWall, ld_total = 0, ld_http200 = 0, ld_http429 = 0, ld_http4xx = 0, ld_http5xx = 0,
      ld_netErr = 0, ld_samples = [], ld_workers = replicate (nat (lf_concurrency f)) AtCheck,
      ld_panic = None\<rparr>"

text \<open>\<open>main\<close> up to the workers: the payload file is required and must be readable.\<close>

definition load_main :: "(string \<Rightarrow> string option) \<Rightarrow> load_flags \<Rightarrow> int \<Rightarrow> int + load_state" where
  "load_main readFile f startWall =
     (if lf_payload f = [] then Inl 2
      else case readFile (lf_payload f) of
          None \<Rightarrow> Inl 2
        | Some body \<Rightarrow> Inr (load_start f startWall))"

text \<open>\<open>wg.Wait\<close> has returned.\<close>

definition all_done :: "load_state \<Rightarrow> bool" where
  "all_done s \<longleftrightarrow> ld_panic s = None \<and> list_all (\<lambda>pc. pc = WorkerDone) (ld_workers s)"

section \<open>The summary\<close>

record load_summary =
  ls_total :: int
  ls_200 :: int
  ls_429 :: int
  ls_4xx :: int
  ls_5xx :: int
  ls_net :: int
  ls_samples :: int
  ls_throughput :: "rat option"
  ls_window :: int
  ls_p50 :: int
  ls_p95 :: int
  ls_p99 :: int
  ls_max :: "int option"

definition pct :: "int list \<Rightarrow> rat \<Rightarrow> int go" where
  "pct durs p =
     (if durs = [] then Ret 0
      else let n = int (length durs);
        i = trunc (fl (fl (of_int n) * p));
        i = (if i \<ge> n then n - 1 else i)
      in if 0 \<le> i then slice_get durs (nat i) else Panic IndexOutOfRange)"

text \<open>The time measured: since the end of the warm-up, or since the start if that lies ahead.\<close>

definition elapsed :: "load_flags \<Rightarrow> int \<Rightarrow> int \<Rightarrow> int" where
  "elapsed f startWall now =
     (let e = since (statsCutoff f startWall) now in if e \<le> 0 then since startWall now else e)"

text \<open>A division by zero gives no number but an infinity or NaN (\<open>None\<close>).\<close>

definition throughput :: "nat \<Rightarrow> int \<Rightarrow> rat option" where
  "throughput n e = (if Seconds e = 0 then None else Some (fl (fl (of_nat n) / Seconds e)))"

definition summarise :: "load_flags \<Rightarrow> int \<Rightarrow> load_state \<Rightarrow> load_summary go" where
  "summarise f startWall s =
     (let e = elapsed f startWall (ld_now s);
        durs = sort (map fst (ld_samples s)) in
      go_bind (pct durs (fl (50 / 100))) (\<lambda>p50.
      go_bind (pct durs (fl (95 / 100))) (\<lambda>p95.
      go_bind (pct durs (fl (99 / 100))) (\<lambda>p99.
        Ret \<lparr>ls_total = ld_total s, ls_200 = ld_http200 s, ls_429 = ld_http429 s,
             ls_4xx = ld_http4xx s, ls_5xx = ld_http5xx s, ls_net = ld_netErr s,
             ls_samples = int (length (ld_samples s)),
             ls_throughput = throughput (length (ld_samples s)) e, ls_window = e, ls_p50 = p50, ls_p95 = p95, ls_p99 = p99,
             ls_max = (if durs = [] then None else Some (durs ! (length durs - 1)))\<rparr>))))"

section \<open>The percentiles\<close>

definition pct_index :: "nat \<Rightarrow> rat \<Rightarrow> nat" where
  "pct_index n p = min (n - 1) (nat (trunc (fl (fl (of_nat n) * p))))"

lemma fl_nonneg: "0 \<le> x \<Longrightarrow> 0 \<le> fl x"
  using fl_mono [of 0 x] by simp

lemma trunc_mono: "x \<le> y \<Longrightarrow> 0 \<le> x \<Longrightarrow> trunc x \<le> trunc y"
  by (simp add: trunc_def floor_mono)

lemma pct_index_mono: "0 \<le> p \<Longrightarrow> p \<le> q \<Longrightarrow> pct_index n p \<le> pct_index n q"
  unfolding pct_index_def
  by (intro min.mono nat_mono trunc_mono fl_mono mult_left_mono fl_nonneg mult_nonneg_nonneg) simp_all

lemma pct_index_less: "0 < n \<Longrightarrow> pct_index n p < n"
  unfolding pct_index_def by linarith

lemma pct_Ret:
  assumes "durs \<noteq> []" "0 \<le> p"
  shows "pct durs p = Ret (durs ! pct_index (length durs) p)"
proof -
  define n t where "n = length durs" and "t = trunc (fl (fl (of_int (int n)) * p))"
  have n: "0 < n" using assms(1) by (simp add: n_def)
  have t: "0 \<le> t" unfolding t_def using assms(2) by (simp add: trunc_def fl_nonneg)
  define i where "i = (if int n \<le> t then int n - 1 else t)"
  have ix: "0 \<le> i" "nat i = pct_index n p"
    using n t unfolding i_def pct_index_def by (auto simp: t_def min_def)
  have "pct durs p = (if 0 \<le> i then slice_get durs (nat i) else Panic IndexOutOfRange)"
    using assms(1) by (simp add: pct_def Let_def i_def t_def n_def)
  then show ?thesis using ix pct_index_less [OF n, of p] by (simp add: slice_get_def n_def)
qed

definition percentiles_ordered :: "load_summary \<Rightarrow> bool" where
  "percentiles_ordered r \<longleftrightarrow> ls_p50 r \<le> ls_p95 r \<and> ls_p95 r \<le> ls_p99 r \<and>
     (case ls_max r of None \<Rightarrow> ls_samples r = 0 | Some m \<Rightarrow> ls_p99 r \<le> m)"

lemma summarise_Ret: "\<exists>r. summarise f startWall s = Ret r \<and> percentiles_ordered r \<and>
  ls_total r = ld_total s \<and> ls_200 r = ld_http200 s \<and> ls_429 r = ld_http429 s \<and>
  ls_4xx r = ld_http4xx s \<and> ls_5xx r = ld_http5xx s \<and> ls_net r = ld_netErr s"
proof -
  define durs where "durs = sort (map fst (ld_samples s))"
  have len: "length (ld_samples s) = length durs" by (simp add: durs_def)
  have s: "sorted durs" by (simp add: durs_def)
  define a b c where "a = fl (50 / 100)" and "b = fl (95 / 100)" and "c = fl (99 / 100)"
  have abc: "0 \<le> a" "a \<le> b" "b \<le> c" unfolding a_def b_def c_def fl_consts by simp_all
  show ?thesis
  proof (cases "durs = []")
    case True
    then show ?thesis unfolding summarise_def Let_def durs_def [symmetric] len
      by (simp add: pct_def percentiles_ordered_def)
  next
    case False
    then have n: "0 < length durs" by simp
    define x where "x = (\<lambda>q. durs ! pct_index (length durs) q)"
    have x: "pct durs q = Ret (x q)" if "0 \<le> q" for q using pct_Ret [OF False that] by (simp add: x_def)
    have le: "x q \<le> x q'" if "0 \<le> q" "q \<le> q'" for q q'
      unfolding x_def using s that n by (intro sorted_nth_mono pct_index_mono pct_index_less)
    have mx: "x c \<le> durs ! (length durs - 1)"
      unfolding x_def using s n pct_index_less [OF n, of c] by (intro sorted_nth_mono) simp_all
    have pcs: "pct durs a = Ret (x a)" "pct durs b = Ret (x b)" "pct durs c = Ret (x c)"
      using abc by (simp_all add: x)
    show ?thesis
      unfolding summarise_def Let_def durs_def [symmetric] a_def [symmetric] b_def [symmetric]
        c_def [symmetric] pcs go_bind.simps
      using le [of a b] le [of b c] abc mx False by (simp add: percentiles_ordered_def)
  qed
qed

section \<open>The counters add up\<close>

definition is_counted :: "load_pc \<Rightarrow> bool" where
  "is_counted pc = (case pc of Counted t0 d r \<Rightarrow> True | _ \<Rightarrow> False)"

lemma is_counted_simps [simp]:
  "\<not> is_counted AtCheck" "\<not> is_counted AtSend" "\<not> is_counted (InCall t0)" "\<not> is_counted (Returned t0 d r)"
  "is_counted (Counted t0 d r)" "\<not> is_counted (Classified t0 d c)" "\<not> is_counted WorkerDone"
  by (simp_all add: is_counted_def)

definition answers :: "load_state \<Rightarrow> int" where
  "answers s = ld_http200 s + ld_http429 s + ld_http4xx s + ld_http5xx s + ld_netErr s"

definition load_ok :: "load_state \<Rightarrow> bool" where
  "load_ok s \<longleftrightarrow> ld_total s = wrap64 (answers s + int (count_if is_counted (ld_workers s)))"

lemma wrap64_inner: "wrap64 (wrap64 x + y) = wrap64 (x + y)"
proof -
  have "(wrap64 x + y + 2 ^ 63) mod 2 ^ 64 = ((x + 2 ^ 63) mod 2 ^ 64 + y) mod 2 ^ 64"
    by (simp add: wrap64_def)
  also have "\<dots> = (x + y + 2 ^ 63) mod 2 ^ 64" by (simp only: mod_add_left_eq) (simp add: algebra_simps)
  finally show ?thesis by (simp add: wrap64_def)
qed

lemma wrap64_sum: "wrap64 a = wrap64 b \<Longrightarrow> wrap64 (a + y) = wrap64 (b + y)"
  by (metis wrap64_inner)

lemma answers_tally: "wrap64 (answers (tally c s)) = wrap64 (answers s + 1)"
proof -
  have w: "wrap64 (u + wrap64 (x + 1)) = wrap64 (u + x + 1)" for u x
    using wrap64_inner [of "x + 1" u] by (simp add: algebra_simps)
  show ?thesis
    using w [of "ld_http429 s + ld_http4xx s + ld_http5xx s + ld_netErr s" "ld_http200 s"]
      w [of "ld_http200 s + ld_http4xx s + ld_http5xx s + ld_netErr s" "ld_http429 s"]
      w [of "ld_http200 s + ld_http429 s + ld_http5xx s + ld_netErr s" "ld_http4xx s"]
      w [of "ld_http200 s + ld_http429 s + ld_http4xx s + ld_netErr s" "ld_http5xx s"]
    by (simp add: tally_def answers_def algebra_simps)
qed

lemma answers_simps [simp]:
  "answers (goto i pc s) = answers s" "ld_total (goto i pc s) = ld_total s"
  "answers (s\<lparr>ld_now := t\<rparr>) = answers s" "answers (s\<lparr>ld_panic := p\<rparr>) = answers s"
  "answers (s\<lparr>ld_total := n\<rparr>) = answers s" "answers (s\<lparr>ld_samples := xs\<rparr>) = answers s"
  "ld_total (tally c s) = ld_total s" "ld_workers (tally c s) = ld_workers s"
  by (simp_all add: answers_def goto_def tally_def)

lemma count_goto: "worker_at s i pc \<Longrightarrow>
  int (count_if is_counted (ld_workers (goto i pc' s))) =
    int (count_if is_counted (ld_workers s)) - (if is_counted pc then 1 else 0) +
      (if is_counted pc' then 1 else 0)"
  using count_if_update [of i "ld_workers s" is_counted pc'] by (auto simp: worker_at_def goto_def)

lemma worker_at_simps [simp]:
  "worker_at (s\<lparr>ld_total := n\<rparr>) i pc = worker_at s i pc"
  "worker_at (s\<lparr>ld_netErr := n\<rparr>) i pc = worker_at s i pc"
  "worker_at (s\<lparr>ld_samples := xs\<rparr>) i pc = worker_at s i pc"
  "worker_at (tally c s) i pc = worker_at s i pc"
  by (simp_all add: worker_at_def)

lemma load_ok_start: "load_ok (load_start f startWall)"
  by (simp add: load_ok_def load_start_def answers_def wrap64_small)

lemma load_ok_step:
  assumes ok: "load_ok s" and step: "load_moves newRequest f startWall s s'"
  shows "load_ok s'"
  using step
proof cases
  case (count i t0 d r)
  then show ?thesis using ok wrap64_inner [of _ 1]
    by (simp add: load_ok_def count_goto [OF _ , of _ i "Returned t0 d r"] algebra_simps)
next
  case (failed i t0 d)
  have "wrap64 (answers (s\<lparr>ld_netErr := wrap64 (ld_netErr s + 1)\<rparr>)) = wrap64 (answers s + 1)"
    using wrap64_inner [of "ld_netErr s + 1" "ld_http200 s + ld_http429 s + ld_http4xx s + ld_http5xx s"]
    by (simp add: answers_def algebra_simps)
  from wrap64_sum [OF this] show ?thesis using ok failed
    by (simp add: load_ok_def count_goto [of _ i "Counted t0 d None"])
next
  case (classify i t0 d c)
  from wrap64_sum [OF answers_tally] show ?thesis using ok classify
    by (simp add: load_ok_def count_goto [of _ i "Counted t0 d (Some c)"])
qed (use ok in \<open>simp_all add: load_ok_def count_goto\<close>)

interpretation load: transition_system "\<lambda>s. s = load_start f startWall" "load_step newRequest f startWall" load_ok
  for newRequest f startWall
  by unfold_locales (auto simp: load_step_def load_ok_start intro: load_ok_step)

lemma all_done_uncounted: "all_done s \<Longrightarrow> count_if is_counted (ld_workers s) = 0"
  by (auto simp: all_done_def count_if_def list_all_iff filter_empty_conv)

text \<open>
  A test of one worker and one second after a warm-up of two: its only request is sent and
  answered at once, in the warm-up, and the clock then passes the deadline. The request has no
  sample, but it is in the total and in the 200 counter of the summary.
\<close>

definition warm_flags :: load_flags where
  "warm_flags = \<lparr>lf_url = ''http://localhost:8080/run'', lf_concurrency = 1, lf_duration = 1000000000,
     lf_payload = ''python.json'', lf_warmup = 2000000000\<rparr>"

definition warm_end :: load_state where
  "warm_end = \<lparr>ld_now = 4000000000, ld_total = 1, ld_http200 = 1, ld_http429 = 0, ld_http4xx = 0,
     ld_http5xx = 0, ld_netErr = 0, ld_samples = [], ld_workers = [WorkerDone], ld_panic = None\<rparr>"

lemma warm_up_run: "reachable (\<lambda>s. s = load_start warm_flags 0) (load_step (\<lambda>u. True) warm_flags 0) warm_end"
proof -
  let ?R = "reachable (\<lambda>s. s = load_start warm_flags 0) (load_step (\<lambda>u. True) warm_flags 0)"
  let ?s = "load_start warm_flags 0"
  define S where "S = (\<lambda>n h pc. ?s\<lparr>ld_total := n, ld_http200 := h, ld_workers := [pc]\<rparr>)"
  have S: "?s = S 0 0 AtCheck" by (simp add: S_def load_start_def warm_flags_def)
  have a: "worker_at (S n h pc) 0 pc" and g: "goto 0 pc' (S n h pc) = S n h pc'"
    and now: "ld_now (S n h pc) = 0" and p: "ld_panic (S n h pc) = None" for n h pc pc'
    by (simp_all add: worker_at_def goto_def S_def load_start_def)
  note go = load_step_def p
  note clock = load_moves.clock [where newRequest = "\<lambda>u. True" and f = warm_flags and startWall = 0]
  note stop = load_moves.stop [where newRequest = "\<lambda>u. True" and f = warm_flags and startWall = 0]
  note go_on = load_moves.go_on [where newRequest = "\<lambda>u. True" and f = warm_flags and startWall = 0]
  note send = load_moves.send [where newRequest = "\<lambda>u. True" and f = warm_flags and startWall = 0]
  note answer = load_moves.answer [where newRequest = "\<lambda>u. True" and f = warm_flags and startWall = 0]
  note count = load_moves.count [where newRequest = "\<lambda>u. True" and f = warm_flags and startWall = 0]
  note classify = load_moves.classify [where newRequest = "\<lambda>u. True" and f = warm_flags and startWall = 0]
  note warming_up = load_moves.warming_up [where newRequest = "\<lambda>u. True" and f = warm_flags and startWall = 0]
  have "?R (S 0 0 AtCheck)" by (rule reachable.start) (simp add: S)
  then have "?R (S 0 0 AtSend)"
    by (rule reachable.step) (use go_on [OF a [of 0 0 AtCheck]]
      in \<open>simp add: go g now deadline_def warm_flags_def wrap64_small\<close>)
  then have "?R (S 0 0 (InCall 0))"
    by (rule reachable.step) (use send [OF a [of 0 0 AtSend]]
      in \<open>simp add: go g now\<close>)
  then have "?R (S 0 0 (Returned 0 0 (Some 200)))"
    by (rule reachable.step) (use answer [OF a [of 0 0 "InCall 0"], where r = "Some 200"]
      in \<open>simp add: go g now since_def\<close>)
  then have "?R (S 1 0 (Counted 0 0 (Some 200)))"
    by (rule reachable.step) (use count [OF a [of 0 0 "Returned 0 0 (Some 200)"]]
      in \<open>simp add: go, simp add: S_def load_start_def goto_def wrap64_small\<close>)
  then have "?R (S 1 1 (Classified 0 0 200))"
    by (rule reachable.step) (use classify [OF a [of 1 0 "Counted 0 0 (Some 200)"]]
      in \<open>simp add: go, simp add: S_def load_start_def goto_def tally_def wrap64_small\<close>)
  then have "?R (S 1 1 AtCheck)"
    by (rule reachable.step) (use warming_up [OF a [of 1 1 "Classified 0 0 200"]]
      in \<open>simp add: go g statsCutoff_def warm_flags_def\<close>)
  then have "?R ((S 1 1 AtCheck)\<lparr>ld_now := 4000000000\<rparr>)"
    by (rule reachable.step) (use clock [of "S 1 1 AtCheck" 4000000000]
      in \<open>simp add: go now\<close>)
  then have "?R warm_end"
    by (rule reachable.step) (use stop [of "(S 1 1 AtCheck)\<lparr>ld_now := 4000000000\<rparr>" 0]
      in \<open>simp add: go deadline_def worker_at_def goto_def wrap64_small S_def load_start_def
        warm_flags_def warm_end_def\<close>)
  then show ?thesis .
qed

lemma warm_up_is_counted: "\<exists>r. summarise warm_flags 0 warm_end = Ret r \<and> all_done warm_end \<and>
  ls_total r = 1 \<and> ls_200 r = 1 \<and> ls_samples r = 0"
  by (simp add: summarise_def pct_def warm_end_def all_done_def Let_def)

section \<open>Properties\<close>

text \<open>C40. The summary of a load test: when all workers are done, main prints it without a panic, every
  request sent is in exactly one of the five counters, up to the wrap-around of the 64-bit counters,
  however the workers were interleaved and whatever the server answered, and the percentiles are
  ordered: p50, p95, p99, maximum.\<close>

theorem load_summary_adds_up:
  assumes "load_main readFile f startWall = Inr s\<^sub>0"
    and "reachable (\<lambda>s. s = s\<^sub>0) (load_step newRequest f startWall) s" and "all_done s"
  shows "\<exists>r. summarise f startWall s = Ret r \<and> percentiles_ordered r \<and>
    ls_total r = wrap64 (ls_200 r + ls_429 r + ls_4xx r + ls_5xx r + ls_net r)"
proof -
  have "s\<^sub>0 = load_start f startWall" using assms(1)
    by (auto simp: load_main_def split: if_splits option.splits)
  then have "load_ok s" using load.inv_reachable assms(2) by blast
  then show ?thesis using summarise_Ret [of f startWall s] all_done_uncounted [OF assms(3)]
    by (auto simp: load_ok_def answers_def)
qed

theorem load_summary_adds_up_witness:
  "\<exists>r. summarise warm_flags 0 warm_end = Ret r \<and> percentiles_ordered r \<and>
     ls_total r = wrap64 (ls_200 r + ls_429 r + ls_4xx r + ls_5xx r + ls_net r)"
proof -
  have "load_main (\<lambda>f. Some ''{}'') warm_flags 0 = Inr (load_start warm_flags 0)"
    by (simp add: load_main_def warm_flags_def)
  then show ?thesis
    by (rule load_summary_adds_up [OF _ warm_up_run]) (simp add: all_done_def warm_end_def)
qed

end
