(* ===== verification/Spec2Isabelle.thy ===== *)
theory Spec2Isabelle
  imports Admission Concurrent_Jobs Main_Shutdown Shipped_Languages Request_Text Job_Text
    Response_Text Go_Tests Load_Generator
begin

text \<open>
  A verification library for goboxd, a service that compiles and runs untrusted programs in an
  nsjail sandbox. A request (source code, a language, test cases) arrives over HTTP
  (\<open>POST /run\<close>) or as a message of an SQS queue; the executor writes the source into a fresh
  job directory, builds it once, runs it once per test case under the limits of its language,
  compares what it printed with what was expected, and answers with one verdict per test and
  one for the whole.

  \<^bold>\<open>The program's parts and the theories that model them.\<close>

  \<^item> \<open>Stats\<close>: \<open>internal/executor/stats.go\<close>. The atomic counters and the ring of the last 1024
    latencies (\<open>stats\<close>), \<open>Observe\<close>, \<open>Snapshot\<close>, \<open>pIdx\<close>. The locale \<open>sliding_window\<close> is
    the contract of the ring; \<open>Observe\<close> refines it and \<open>Snapshot\<close> reports order statistics
    of the window.
  \<^item> \<open>Sandbox\<close>: \<open>internal/sandbox/sandbox.go\<close>. \<open>sandbox_Run\<close> is \<open>Run\<close>: \<open>ns_args\<close> the
    nsjail command line, \<open>make_invocation\<close> the process to start, \<open>finish_run\<close> everything after
    it ended, with \<open>cb_Write\<close> (\<open>cappedBuffer\<close>) and \<open>classifyExit\<close>. The locale \<open>byte_sink\<close> is
    the contract of the bounded writer.
  \<^item> \<open>Registry\<close>: \<open>internal/registry/registry.go\<close>. \<open>LoadDir\<close>, \<open>loadFile\<close>, \<open>validate\<close>,
    \<open>Get\<close>, \<open>Names\<close>. The locale \<open>language_source\<close> is what the executor relies on.
  \<^item> \<open>Config\<close>: \<open>internal/config/config.go\<close>. \<open>Load\<close>, \<open>envOr\<close>, \<open>envIntOr\<close>.
  \<^item> \<open>Executor\<close>: \<open>internal/executor/types.go\<close> and the functions of \<open>executor.go\<close> that
    do not touch the executor's state: the checks on a request (\<open>safeName\<close>, \<open>filterFlags\<close>,
    \<open>boundOverrides\<close>), the argument templates (\<open>renderArgs\<close>), the comparison of outputs
    (\<open>compareOutput\<close>, \<open>normalizeStrict\<close>, \<open>normalizeLoose\<close>), \<open>rollup\<close>, and the phases
    \<open>runBuild\<close>, \<open>runOne\<close>, \<open>runTest\<close>, one sandboxed process each.
  \<^item> \<open>Executor_Run\<close>, \<open>Run_Correct\<close>: \<open>Executor.Run\<close>, cut where the code has its \<open>defer\<close>s: \<open>Run\<close>
    (the semaphore and the deferred release and statistics), \<open>run_checked\<close> (the checks),
    \<open>with_job_dir\<close> (creation and removal of the job directory), \<open>in_job_dir\<close> (source file and
    ownership), \<open>build_and_run\<close>, \<open>run_phase\<close>. The state (\<open>exec_state\<close>) is the number of slots
    taken, the statistics and the world of \<open>Os\<close>.
  \<^item> \<open>Admission\<close>: many calls of \<open>Run\<close> at once, as a step relation on the semaphore and the
    counters.
  \<^item> \<open>Concurrent_Jobs\<close>: many runs on one file system, as a step relation whose steps are the calls
    of \<open>Run\<close> that touch it, each with its arguments and its error; the calls that \<open>with_job_dir\<close>
    logs are shown to be those along a path of it.
  \<^item> \<open>Api\<close>: \<open>internal/api/api.go\<close>. One definition per handler, \<open>writeJSON\<close>, \<open>writeErr\<close>, the
    access log and the table of routes. \<open>Json\<close> holds the JSON values of the answers, \<open>Json_Text\<close>
    their text as \<open>encoding/json\<close> writes it, and a reader it is measured against; \<open>Response_Text\<close>
    what the text of an answer tells its client.
  \<^item> \<open>Json_Decode\<close>, \<open>Request_Text\<close>, \<open>Job_Text\<close>: what the source uses of \<open>encoding/json\<close> to read: the
    scanner, the decoding into strings, numbers, slices, maps and structs, \<open>Decoder.Decode\<close> on a
    limited body and \<open>Unmarshal\<close>; the JSON tags of \<open>Request\<close>, \<open>TestCase\<close> and \<open>Job\<close> as field tables,
    and \<open>Decode_request\<close> and \<open>Unmarshal_job\<close>, which instantiate the decoders that \<open>Server_run\<close> and
    \<open>handleMessage\<close> take as arguments. The locale \<open>literal_reader\<close> of \<open>Json_Text\<close> is what both readers
    of string literals share.
  \<^item> \<open>Worker\<close>: \<open>internal/worker/worker.go\<close> and \<open>job.go\<close>. \<open>Worker_New\<close> and one message from
    receipt to deletion (\<open>handleMessage\<close>, \<open>buildRequest\<close>, \<open>run_job\<close>, \<open>responseToMap\<close>,
    \<open>writeRedis\<close>, \<open>deleteMessage\<close>), over the log of the calls made to Redis and SQS.
  \<^item> \<open>Worker_Pool\<close>: \<open>Worker.Start\<close> and \<open>pollLoop\<close> as a step relation on the goroutines.
  \<^item> \<open>Shipped_Languages\<close>: the nine files of \<open>configs/languages\<close>, and that they load and are sound.
  \<^item> \<open>Main_Startup\<close>, \<open>Main_Shutdown\<close>: \<open>cmd/goboxd/main.go\<close>. \<open>main_startup\<close> is \<open>main\<close> up to
    the point where it serves, \<open>sweepStaleJobs\<close> the sweep of old job directories;
    \<open>process_step\<close> is the life of the process from there on: the server, the signal handler,
    the worker and the exit (\<open>running_step\<close>), and the signals that end it (\<open>killed_step\<close>).
  \<^item> \<open>Go_Tests\<close>: the unit tests of the repository (\<open>executor_test.go\<close>, \<open>sandbox_test.go\<close>,
    \<open>registry_test.go\<close>), one definition per test function, evaluated on the model.
  \<^item> \<open>Load_Generator\<close>: \<open>tests/load/main.go\<close>, its workers as a step relation and its summary.
  \<^item> \<open>Go_Prelude\<close>, \<open>Go_Strings\<close>, \<open>Go_Path\<close>, \<open>Go_Float\<close>, \<open>Os\<close>: what the source uses of Go
    and its standard library: 64-bit integers with wrap-around (\<open>wrap64\<close>), results that may be
    a panic (\<open>go\<close>), the functions of \<open>strings\<close>, \<open>strconv\<close> and \<open>path/filepath\<close>, \<open>float64\<close>
    rounding, and a file system with the calls \<open>MkdirAll\<close>, \<open>WriteFile\<close>, \<open>RemoveAll\<close>,
    \<open>Chown\<close> and a log of them. \<open>Transitions\<close> holds reachability and the locale \<open>transition_system\<close> that every
    step relation interprets.

  \<^bold>\<open>How they interact.\<close> \<open>main_startup\<close> loads the configuration, creates and sweeps the job root,
  loads the registry and builds the executor and, when a queue is configured, the worker.
  \<open>Server_run\<close> and \<open>run_job\<close> both call \<open>Run\<close>, which calls \<open>Get\<close>, the phases of \<open>Executor\<close>,
  and through them \<open>sandbox_Run\<close>. The text of a request or a job reaches them through
  \<open>Decode_request\<close> and \<open>Unmarshal_job\<close>. This theory composes startup, the shipped languages and a
  request: whatever the startup left in the file system, a served request leaves as it found it.

  \<^bold>\<open>What is outside.\<close> The operating system, nsjail and the kernel, the YAML package, SQS, Redis and
  the AWS configuration, the clock, the UUID generator, the wording of the JSON decoder's errors and
  the order in which a Go map is ranged over are arguments:
  records of functions (\<open>os_env\<close>, \<open>worker_env\<close>, \<open>boot_env\<close>) or single functions (\<open>msg\<close>, \<open>order\<close>,
  \<open>stat\<close>, \<open>proc\<close>). They may fail at any call. Where a property needs more, the need is a named
  predicate with the documented behaviour: \<open>uuids_plain\<close> (a UUID holds no slash), \<open>removals_complete\<close> (\<open>os.RemoveAll\<close> without an error removes the tree),
  \<open>jail_confined\<close> (a process writes nowhere but in its job directory), \<open>job_ready\<close> and
  \<open>site_ready\<close> (the job root exists, the new job directories do not, their names differ). The sample environment of \<open>Run_Correct\<close>
  satisfies all of them, and the witnesses evaluate the program in it.

  \<^bold>\<open>Bounds and termination.\<close> No definition of the program uses fuel: loops over test cases,
  arguments, directory entries and messages are structural recursion, and the scanner of JSON ends
  because every step takes something off the text (\<open>scan_shorter\<close>). Only the reference reader
  \<open>read_json\<close> counts calls; twice the length of the text is enough, as its round trip shows. Go integers are HOL integers with \<open>wrap64\<close>
  written out at every operation that can overflow; floating-point values are rationals rounded
  to 53 bits. The step relations put no bound on how long a goroutine waits; that shutdown ends is
  a well-foundedness and a progress statement.

  \<^bold>\<open>What the lemmas show.\<close> On \<open>Run\<close>: it never panics with a loaded registry, restores the file
  system, the slot and the in-flight count on every path, starts exactly the processes the
  request asks for, in order and under limits that are never above the language's, and decides
  verdicts as documented. On the parts: bounded capture, exit classification, the comparison as a
  chain of equivalences, the ring as a sliding window, validated languages only, the exact
  conditions of each refusal; of the text of requests and jobs, what the decoder
  accepts, that it reads back what a client wrote and hands exactly that to the executor; of the text
  of answers, that nothing is lost in it but bytes that are no UTF-8. On concurrency: at most as many calls inside \<open>Run\<close> as the
  semaphore has slots, no call ever waits, concurrent jobs are isolated from each other and leave
  nothing behind, \<open>Run\<close> is a path of the step relations, and a shutdown ends. On the queue: the calls made for each message, in order, and exactly when a message
  brings the process down instead.

  \<^bold>\<open>Not modelled.\<close> A panic of \<open>uuid.NewString\<close> for want of random numbers, and the waiting for the
  mutex of the statistics, whose sections are single steps. The chi router and its middleware (third-party; the routes registered
  with it are \<open>routes\<close>), the wording of decoding errors, the logger apart from
  the access log's fields, the YAML decoder and the clients of AWS and Redis: none of their code is
  in the repository. The Python front end \<open>CodeSumissionService\<close>, a separate program, and the
  container and infrastructure files.
\<close>

section \<open>From startup to a served request\<close>

lemma Server_run_world:
  "w_fs (ex_world (snd (Server_run env pr decode cfg reg rctx body st))) = w_fs (ex_world st)"
  if "\<And>req. w_fs (ex_world (snd (Run env cfg reg (cf_RequestTimeout cfg # rctx) req st))) = w_fs (ex_world st)"
proof (cases "decode (body_limit cfg) body")
  case (Inr req)
  obtain r st' where "Run env cfg reg (cf_RequestTimeout cfg # rctx) req st = (r, st')" by fastforce
  then show ?thesis using that [of req] Inr
    by (cases r) (auto simp: Server_run_def split: prod.split option.split)
qed (simp add: Server_run_def)

lemma startup_job_ready:
  assumes up: "main_startup b w = Serving sv" and u: "uuids_plain (bo_os b)"
    and jroot: "filepath_Clean (cf_JobRoot (sv_cfg sv)) = cf_JobRoot (sv_cfg sv)"
      "cf_JobRoot (sv_cfg sv) \<noteq> ''/''" "cf_JobRoot (sv_cfg sv) \<noteq> ''.''"
    and names: "\<forall>fs es e. bo_read_root b fs (cf_JobRoot (sv_cfg sv)) = Inr es \<longrightarrow> e \<in> set es \<longrightarrow> CHR ''/'' \<notin> set (re_Name e)"
    and fresh: "\<forall>q. under (next_job_dir (bo_os b) (sv_cfg sv) (ex_world (sv_exec sv))) q \<longrightarrow> w_fs (ex_world (sv_exec sv)) q = None"
  shows "job_ready (bo_os b) (sv_cfg sv) (ex_world (sv_exec sv))"
proof -
  let ?r = "cf_JobRoot (sv_cfg sv)" and ?w = "ex_world (sv_exec sv)"
  let ?u = "os_uuid (bo_os b) (w_tick ?w + 1)"
  obtain w1 where mk: "MkdirAll (bo_os b) ?r 0x1ED w = (None, w1)"
    and w: "?w = sweepStaleJobs (bo_os b) (bo_read_root b) ?r Hour w1"
    using startup_Serving [OF up] by (metis exec_state.select_convs(3))
  have nu: "CHR ''/'' \<notin> set ?u" using u by (simp add: uuids_plain_def)
  have d: "next_job_dir (bo_os b) (sv_cfg sv) ?w = ?r @ CHR ''/'' # (''job-'' @ ?u)"
    using job_dir_entry [OF nu, of "sv_cfg sv"] jroot by (simp add: next_job_dir_def entry_of_def)
  have "filepath_Clean [] \<noteq> []" by code_simp
  then have ne: "?r \<noteq> []" using jroot(1) by metis
  have "w_fs ?w q \<noteq> None" if q: "q \<in> set (dir_prefixes (?r @ CHR ''/'' # (''job-'' @ ?u)))" "q \<noteq> ?r @ CHR ''/'' # (''job-'' @ ?u)" for q
  proof -
    have "q \<in> set (dir_prefixes ?r)" using dir_prefixes_entry [OF _ ne q] nu by simp
    then have "w_fs w1 q \<noteq> None" "length q \<le> length ?r" using mkdir_all_exists [OF mk] dir_prefixes_le by blast+
    then show ?thesis using sweepStaleJobs_spares [of "bo_read_root b" ?r q "bo_os b" Hour w1, OF names jroot(1)] w by simp
  qed
  then show ?thesis using fresh unfolding job_ready_def Let_def d by blast
qed

text \<open>With any clean job root, and any languages that name no dot as their source file: the job root
  exists, and a request leaves the file system as the startup left it.\<close>

lemma startup_restores:
  assumes "main_startup b w = Serving sv"
    and "jail_confined (bo_os b)" "removals_complete (bo_os b)" "uuids_plain (bo_os b)"
    and "filepath_Clean (cf_JobRoot (sv_cfg sv)) = cf_JobRoot (sv_cfg sv)"
      "cf_JobRoot (sv_cfg sv) \<noteq> ''/''" "cf_JobRoot (sv_cfg sv) \<noteq> ''.''"
    and "\<forall>fs es e. bo_read_root b fs (cf_JobRoot (sv_cfg sv)) = Inr es \<longrightarrow> e \<in> set es \<longrightarrow> CHR ''/'' \<notin> set (re_Name e)"
    and "\<forall>q. under (next_job_dir (bo_os b) (sv_cfg sv) (ex_world (sv_exec sv))) q \<longrightarrow> w_fs (ex_world (sv_exec sv)) q = None"
    and n: "\<forall>m lang. Get (sv_reg sv) m = Some lang \<longrightarrow> l_SourceFile lang \<noteq> ''.'' \<and> l_SourceFile lang \<noteq> ''..''"
  shows "w_fs (ex_world (snd (Server_run (bo_os b) pr decode (sv_cfg sv) (sv_reg sv) rctx body (sv_exec sv)))) =
      w_fs (ex_world (sv_exec sv)) \<and>
    (\<forall>q \<in> set (dir_prefixes (cf_JobRoot (sv_cfg sv))). w_fs (ex_world (sv_exec sv)) q \<noteq> None)"
proof
  have ok: "exec_ok (sv_cfg sv) (sv_exec sv)"
    using startup_Serving [OF assms(1)] exec_ok_New by metis
  note ready = startup_job_ready [OF assms(1,4,5,6,7,8,9)]
  have "w_fs (ex_world (snd (Run (bo_os b) (sv_cfg sv) (sv_reg sv) ctx req (sv_exec sv)))) = w_fs (ex_world (sv_exec sv))"
    for ctx req
    by (rule Run_restores [OF assms(2,3,4) _ ready ok]) (use n in blast)
  then show "w_fs (ex_world (snd (Server_run (bo_os b) pr decode (sv_cfg sv) (sv_reg sv) rctx body (sv_exec sv)))) =
      w_fs (ex_world (sv_exec sv))"
    by (rule Server_run_world)
next
  obtain w1 where mk: "MkdirAll (bo_os b) (cf_JobRoot (sv_cfg sv)) 0x1ED w = (None, w1)"
    and w: "ex_world (sv_exec sv) = sweepStaleJobs (bo_os b) (bo_read_root b) (cf_JobRoot (sv_cfg sv)) Hour w1"
    using startup_Serving [OF assms(1)] by (metis exec_state.select_convs(3))
  show "\<forall>q \<in> set (dir_prefixes (cf_JobRoot (sv_cfg sv))). w_fs (ex_world (sv_exec sv)) q \<noteq> None"
    unfolding w using mkdir_all_exists [OF mk] dir_prefixes_le
      sweepStaleJobs_spares [of "bo_read_root b" "cf_JobRoot (sv_cfg sv)" _ "bo_os b" Hour w1, OF assms(8,5)] by simp
qed

lemma sample_fresh:
  assumes "sv_cfg sv = Load (\<lambda>_. []) 2" "\<And>q. w_fs sample_world q = None \<Longrightarrow> w_fs (ex_world (sv_exec sv)) q = None"
  shows "\<forall>q. under (next_job_dir sample_env (sv_cfg sv) (ex_world (sv_exec sv))) q \<longrightarrow> w_fs (ex_world (sv_exec sv)) q = None"
proof -
  have "job_dir (Load (\<lambda>_. []) 2) ''u'' = ''/tmp/goboxd/job-u''" by code_simp
  then have "next_job_dir sample_env (sv_cfg sv) w = ''/tmp/goboxd/job-u''" for w
    using assms(1) by (simp add: next_job_dir_def sample_env_def)
  then show ?thesis using assms(2) sample_ready [unfolded job_ready_def sample_next_job_dir] by (simp add: Let_def)
qed

text \<open>C9. The service with its shipped languages and its default directories: once it is up, it
  serves exactly those languages, the directories of its job root exist, and no request to
  POST /run leaves a trace in the file system. Nothing is assumed of the languages but
  that their directory is the one of the repository.\<close>

theorem shipped_service_restores_the_file_system:
  assumes up: "main_startup b w = Serving sv"
    and unset: "bo_getenv b ''GOBOXD_JOB_ROOT'' = []" "bo_getenv b ''GOBOXD_LANGUAGES_DIR'' = []"
    and shipped: "shipped_dir (bo_read_dir b) (bo_read_file b) (bo_yaml b) ''/etc/goboxd/languages''"
    and env: "jail_confined (bo_os b)" "removals_complete (bo_os b)" "uuids_plain (bo_os b)"
    and names: "\<forall>fs es e. bo_read_root b fs ''/tmp/goboxd'' = Inr es \<longrightarrow> e \<in> set es \<longrightarrow> CHR ''/'' \<notin> set (re_Name e)"
    and fresh: "\<forall>q. under (next_job_dir (bo_os b) (sv_cfg sv) (ex_world (sv_exec sv))) q \<longrightarrow> w_fs (ex_world (sv_exec sv)) q = None"
  shows "dom (reg_languages (sv_reg sv)) = l_Name ` {lang_bash, lang_c, lang_cpp, lang_go, lang_java, lang_node, lang_python, lang_rust, lang_verilog} \<and>
    w_fs (ex_world (sv_exec sv)) ''/tmp/goboxd'' \<noteq> None \<and>
    w_fs (ex_world (snd (Server_run (bo_os b) pr decode (sv_cfg sv) (sv_reg sv) rctx body (sv_exec sv)))) =
      w_fs (ex_world (sv_exec sv))"
proof -
  have cfg: "cf_JobRoot (sv_cfg sv) = ''/tmp/goboxd''" "cf_LanguagesDir (sv_cfg sv) = ''/etc/goboxd/languages''"
  proof -
    have "sv_cfg sv = Load (bo_getenv b) (bo_num_cpu b)" using startup_Serving [OF up] by metis
    then show "cf_JobRoot (sv_cfg sv) = ''/tmp/goboxd''" "cf_LanguagesDir (sv_cfg sv) = ''/etc/goboxd/languages''"
      using unset by (simp_all add: Load_def envOr_def)
  qed
  have reg: "sv_reg sv = shipped_registry"
    using startup_registry [OF up] shipped_load [OF shipped] unfolding cfg by simp
  have root: "filepath_Clean (cf_JobRoot (sv_cfg sv)) = cf_JobRoot (sv_cfg sv)"
    "cf_JobRoot (sv_cfg sv) \<noteq> ''/''" "cf_JobRoot (sv_cfg sv) \<noteq> ''.''"
    unfolding cfg by code_simp+
  have "''/tmp/goboxd'' \<in> set (dir_prefixes ''/tmp/goboxd'')" by code_simp
  moreover have "w_fs (ex_world (snd (Server_run (bo_os b) pr decode (sv_cfg sv) (sv_reg sv) rctx body (sv_exec sv)))) =
      w_fs (ex_world (sv_exec sv)) \<and>
    (\<forall>q \<in> set (dir_prefixes (cf_JobRoot (sv_cfg sv))). w_fs (ex_world (sv_exec sv)) q \<noteq> None)"
    using startup_restores [OF up env root _ fresh] names shipped_not_dots unfolding cfg reg by blast
  moreover have "dom (reg_languages shipped_registry) =
      l_Name ` {lang_bash, lang_c, lang_cpp, lang_go, lang_java, lang_node, lang_python, lang_rust, lang_verilog}"
    by (simp add: shipped_registry_def shipped_files_def dom_map_of_conv_image_fst)
  ultimately show ?thesis unfolding cfg reg by blast
qed

theorem shipped_service_restores_the_file_system_witness:
  "\<exists>sv. main_startup (sample_boot\<lparr>bo_read_dir := \<lambda>_. Inr (map (\<lambda>(f, l). \<lparr>de_Name = f, de_IsDir = False\<rparr>) shipped_files),
       bo_read_file := Inr, bo_yaml := shipped_reads\<rparr>) sample_world = Serving sv \<and>
     ''rust'' \<in> dom (reg_languages (sv_reg sv)) \<and>
     w_fs (ex_world (snd (Server_run sample_env (\<lambda>_. True) (\<lambda>_ _. Inr modest_request) (sv_cfg sv) (sv_reg sv) [] [] (sv_exec sv)))) =
     w_fs (ex_world (sv_exec sv))"
proof -
  let ?b = "sample_boot\<lparr>bo_read_dir := \<lambda>_. Inr (map (\<lambda>(f, l). \<lparr>de_Name = f, de_IsDir = False\<rparr>) shipped_files),
    bo_read_file := Inr, bo_yaml := shipped_reads\<rparr>"
  have c: "cf_JobRoot (Load (\<lambda>_. []) 2) = ''/tmp/goboxd''" "0 \<le> sem_capacity (Load (\<lambda>_. []) 2)"
    "cf_SQSQueueURL (Load (\<lambda>_. []) 2) = []" "cf_LanguagesDir (Load (\<lambda>_. []) 2) = ''/etc/goboxd/languages''" by code_simp+
  have b: "bo_os ?b = sample_env" "bo_getenv ?b = (\<lambda>_. [])" "bo_num_cpu ?b = 2" "bo_read_root ?b = bo_read_root sample_boot"
    by (simp_all add: sample_boot_def)
  have sh: "shipped_dir (bo_read_dir ?b) (bo_read_file ?b) (bo_yaml ?b) ''/etc/goboxd/languages''"
    using shipped_dir_sample by simp
  have "start_worker ?b (Load (\<lambda>_. []) 2) = Inr None" by (simp add: start_worker_def c(3))
  then obtain sv where sv: "main_startup ?b sample_world = Serving sv" "sv_cfg sv = Load (\<lambda>_. []) 2"
    "\<And>q. w_fs sample_world q = None \<Longrightarrow> w_fs (ex_world (sv_exec sv)) q = None"
    using sample_served_with [of ?b shipped_registry None, unfolded b(2,3) c(4)] b shipped_load [OF sh] c(1,2) by metis
  have names: "\<forall>fs es e. bo_read_root ?b fs ''/tmp/goboxd'' = Inr es \<longrightarrow> e \<in> set es \<longrightarrow> CHR ''/'' \<notin> set (re_Name e)"
    by (auto simp: sample_boot_def)
  have "l_Name lang_rust = ''rust''" by (simp add: lang_rust_def)
  then have "''rust'' \<in> l_Name ` {lang_bash, lang_c, lang_cpp, lang_go, lang_java, lang_node, lang_python, lang_rust, lang_verilog}"
    by (metis image_eqI insertCI)
  moreover note shipped_service_restores_the_file_system [OF sv(1), unfolded b, OF refl refl sh sample_env_ok names [unfolded b]
      sample_fresh [OF sv(2,3)], of "\<lambda>_. True" "\<lambda>_ _. Inr modest_request" "[]" "[]"]
  ultimately show ?thesis using sv(1) by (intro exI [of _ sv] conjI) (simp_all only:)
qed

end
